(* ===== verification/Prelude.thy ===== *)
theory Prelude
  imports Main "HOL-Library.Word"
begin

text \<open>
  Shared vocabulary of the development: the C integer types at their widths, the two kinds of
  failure the code can run into (a negative errno it returns, a machine fault it causes), the
  sequencing of operations that may fault, little-endian byte encodings, C bit fields, and the
  lemmas on lists and words that several components use.
\<close>

unbundle bit_operations_syntax

named_theorems fault_simps \<open>sequencing of operations that may fault\<close>
named_theorems layout_simps \<open>sizes and byte layouts\<close>

section \<open>C integers\<close>

type_synonym u8 = "8 word"
type_synonym u16 = "16 word"
type_synonym u32 = "32 word"
type_synonym u64 = "64 word"

section \<open>Return codes and faults\<close>

text \<open>
  A kernel function that returns \<open>int\<close> returns \<open>0\<close> or a negative errno. A fault is what
  the C program must never do: dereference NULL or an \<open>ERR_PTR\<close>, index an array out of
  range, free an object twice, use an object after it was freed, take a lock it already holds.
\<close>

datatype errno = EPERM | EIO | ENOMEM | EFAULT | ENODEV | EINVAL | ENOTTY

datatype ret = Ok0 | Neg errno

datatype fault = NullDeref | OutOfBounds | BadFree | Deadlock

type_synonym 'a may = "fault + 'a"

definition bindF :: "'a may \<Rightarrow> ('a \<Rightarrow> 'b may) \<Rightarrow> 'b may" where
  "bindF m f = (case m of Inl e \<Rightarrow> Inl e | Inr x \<Rightarrow> f x)"

lemma bindF_simps [simp, fault_simps]:
  "bindF (Inl e) f = Inl e"
  "bindF (Inr x) f = f x"
  by (simp_all add: bindF_def)

lemma bindF_eq_Inr [fault_simps]: "bindF m f = Inr y \<longleftrightarrow> (\<exists>x. m = Inr x \<and> f x = Inr y)"
  by (cases m) auto

lemma bindF_eq_Inl [fault_simps]:
  "bindF m f = Inl e \<longleftrightarrow> m = Inl e \<or> (\<exists>x. m = Inr x \<and> f x = Inl e)"
  by (cases m) auto

lemma bindF_assoc: "bindF (bindF m f) g = bindF m (\<lambda>x. bindF (f x) g)"
  by (cases m) auto

text \<open>A \<open>for\<close> loop whose body may fault, over the values its index takes.\<close>

fun foldF :: "('i \<Rightarrow> 's \<Rightarrow> 's may) \<Rightarrow> 'i list \<Rightarrow> 's \<Rightarrow> 's may" where
  "foldF f [] s = Inr s"
| "foldF f (i # is) s = bindF (f i s) (foldF f is)"

lemma foldF_append: "foldF f (is @ js) s = bindF (foldF f is s) (foldF f js)"
  by (induction "is" arbitrary: s) (auto simp: bindF_def split: sum.split)

lemma foldF_upt_Suc: "foldF f [0..<Suc n] s = bindF (foldF f [0..<n] s) (f n)"
proof -
  have one: "foldF f [n] = f n" by (rule ext) (auto simp: bindF_def split: sum.split)
  show ?thesis by (simp add: foldF_append one del: foldF.simps)
qed

text \<open>The loop rule: an invariant that the body keeps without a fault survives the loop.\<close>

lemma foldF_inv:
  assumes "I s" and "\<And>i s. i \<in> set is \<Longrightarrow> I s \<Longrightarrow> \<exists>s'. f i s = Inr s' \<and> I s'"
  shows "\<exists>s'. foldF f is s = Inr s' \<and> I s'"
  using assms
proof (induction "is" arbitrary: s)
  case Nil
  then show ?case by simp
next
  case (Cons i "is")
  then obtain s1 where "f i s = Inr s1" and "I s1" by (meson list.set_intros(1))
  moreover have "\<exists>s'. foldF f is s1 = Inr s' \<and> I s'"
    using Cons.IH [OF \<open>I s1\<close>] Cons.prems(2) by simp
  ultimately show ?case by simp
qed

section \<open>Little-endian byte encodings\<close>

primrec le_bytes :: "nat \<Rightarrow> 'a::len word \<Rightarrow> u8 list" where
  "le_bytes 0 w = []"
| "le_bytes (Suc k) w = ucast w # le_bytes k (drop_bit 8 w)"

primrec le_word :: "u8 list \<Rightarrow> 'a::len word" where
  "le_word [] = 0"
| "le_word (b # bs) = ucast b OR push_bit 8 (le_word bs)"

lemma length_le_bytes [simp, layout_simps]: "length (le_bytes k w) = k"
  by (induction k arbitrary: w) auto

lemma le_word_le_bytes: "le_word (le_bytes k w) = take_bit (8 * k) (w :: 'a::len word)"
proof (induction k arbitrary: w)
  case 0
  then show ?case by simp
next
  case (Suc k)
  show ?case
    by (rule bit_word_eqI)
      (auto simp: Suc.IH bit_or_iff bit_push_bit_iff bit_take_bit_iff bit_drop_bit_eq bit_unsigned_iff
        dest: bit_imp_le_length)
qed

lemma le_word_le_bytes_id:
  "LENGTH('a) \<le> 8 * k \<Longrightarrow> le_word (le_bytes k w) = (w :: 'a::len word)"
  by (simp add: le_word_le_bytes take_bit_word_eq_self)

section \<open>Bit fields\<close>

text \<open>\<open>bits lo n w\<close> is the bit field of \<open>n\<close> bits that starts at bit \<open>lo\<close> of \<open>w\<close>.\<close>

definition bits :: "nat \<Rightarrow> nat \<Rightarrow> u64 \<Rightarrow> u64" where
  "bits lo n w = take_bit n (drop_bit lo w)"

lemma bits_bound: "n < 64 \<Longrightarrow> unat (bits lo n w) < 2 ^ n"
  by (simp add: bits_def unsigned_take_bit_eq)

section \<open>Step relations\<close>

text \<open>
  A concrete step relation that simulates an abstract one along an abstraction function: under the
  invariant every concrete step is invisible or is an abstract step, so whole runs correspond.
\<close>

locale simulation =
  fixes cstep :: "'c \<Rightarrow> 'c \<Rightarrow> bool"
    and astep :: "'a \<Rightarrow> 'a \<Rightarrow> bool"
    and abs :: "'c \<Rightarrow> 'a"
    and invar :: "'c \<Rightarrow> bool"
  assumes invar_step: "invar s \<Longrightarrow> cstep s t \<Longrightarrow> invar t"
    and simulates: "invar s \<Longrightarrow> cstep s t \<Longrightarrow> abs t = abs s \<or> astep (abs s) (abs t)"
begin

lemma invar_run: "cstep\<^sup>*\<^sup>* s t \<Longrightarrow> invar s \<Longrightarrow> invar t"
  by (induction rule: rtranclp_induct) (auto intro: invar_step)

lemma run_simulates: "cstep\<^sup>*\<^sup>* s t \<Longrightarrow> invar s \<Longrightarrow> astep\<^sup>*\<^sup>* (abs s) (abs t)"
proof (induction rule: rtranclp_induct)
  case (step t u)
  then show ?case using simulates [of t u] invar_run [OF step.hyps(1)] by (auto intro: rtranclp.rtrancl_into_rtrancl)
qed simp

end

section \<open>Lists and words\<close>

text \<open>Bits of a mask are read as a range of indices, not through the integer literal.\<close>

declare bit_numeral_word_iff [simp del]

lemma bit_ff: "bit (0xFF :: u64) n \<longleftrightarrow> n < 8"
proof -
  have m: "(0xFF :: u64) = Bit_Operations.mask 8" by (simp add: mask_eq_exp_minus_1)
  show ?thesis unfolding m bit_mask_iff by auto
qed

lemma unat_mod_lt: "0 < (n :: u32) \<Longrightarrow> unat (x mod n) < unat n"
  using word_less_nat_alt word_mod_less_divisor by blast

lemma take_drop_concat_map:
  assumes "\<And>x. x \<in> set xs \<Longrightarrow> length (f x) = w"
  shows "take (k * w) (drop (i * w) (concat (map f xs))) = concat (map f (take k (drop i xs)))"
proof -
  have drop: "drop (i * w) (concat (map f xs)) = concat (map f (drop i xs))"
    if "\<And>x. x \<in> set xs \<Longrightarrow> length (f x) = w" for i and xs :: "'a list"
    using that
  proof (induction i arbitrary: xs)
    case (Suc i)
    then show ?case by (cases xs) auto
  qed simp
  have take: "take (k * w) (concat (map f xs)) = concat (map f (take k xs))"
    if "\<And>x. x \<in> set xs \<Longrightarrow> length (f x) = w" for k and xs :: "'a list"
    using that
  proof (induction k arbitrary: xs)
    case (Suc k)
    then show ?case by (cases xs) auto
  qed simp
  show ?thesis
    using assms by (simp add: drop take in_set_dropD)
qed

end
