(* ===== verification/Config.thy ===== *)
theory Config
  imports Prelude
begin

text \<open>
  The compile-time configuration (\<open>src/src/config.h\<close>) as a record, so that every
  \<open>#if\<close> of the sources is a branch of the model, with the checked-in values as
  \<open>config_h\<close>; and the ioctl commands of the character device.
\<close>

section \<open>Configuration macros\<close>

datatype hrp_arch = SKYLAKE | ICELAKE | SAPPHIRE

record hrp_config =
  HRP_PMC_BUFFER_SIZE :: u32
  HRP_PMC_LOGGER_CPU :: nat
  HRP_PMC_POLLER_CPU :: nat
  HRP_STRICT_POLLING_SYNC :: bool
  HRP_POLL_POLLER_CORE :: bool
  HRP_USE_RAW_CLOCK :: bool
  HRP_USE_TSC :: bool
  ENABLE_USER_SPACE_POLLING :: bool
  HRP_HEAP_ALLOCATED_RB :: bool
  HRP_EXLARGE_HEAP_ALLOCATED_RB :: bool
  CONCURRENT_INSTRUCTED_PROFILE :: bool
  hrp_pmc_cpu_selection_mask_bits :: "u64 list"
  HRP_ARCH_NAME :: hrp_arch
  HRP_USE_OFFCORE :: bool
  HRP_LOG_IMC :: bool
  HRP_USE_WRITE_EST :: bool
  HRP_USE_STALL_TOTAL :: bool
  HRP_USE_BOUND_ON_LOADS :: bool
  HRP_USE_BOUND_ON_STORES :: bool
  HRP_USE_COUNTER_COMBINATION :: bool
  HRP_USE_HIT_COUNTS :: bool
  HRP_USE_RDT :: bool
  HRP_RDT_INCLUDE_LOCAL_BW :: bool
  HRP_IMC_DATA_ASSOCIATED_CORE :: nat

definition HRP_PMC_CPU_SELECTION_MASK_BITS :: nat where
  "HRP_PMC_CPU_SELECTION_MASK_BITS = 256"

definition config_h :: hrp_config where
  "config_h = \<lparr>
     HRP_PMC_BUFFER_SIZE = 8192,
     HRP_PMC_LOGGER_CPU = 0,
     HRP_PMC_POLLER_CPU = 1,
     HRP_STRICT_POLLING_SYNC = False,
     HRP_POLL_POLLER_CORE = False,
     HRP_USE_RAW_CLOCK = False,
     HRP_USE_TSC = True,
     ENABLE_USER_SPACE_POLLING = True,
     HRP_HEAP_ALLOCATED_RB = True,
     HRP_EXLARGE_HEAP_ALLOCATED_RB = False,
     CONCURRENT_INSTRUCTED_PROFILE = False,
     hrp_pmc_cpu_selection_mask_bits = [0x00FFFFFFFFFFFFFF, 0, 0, 0],
     HRP_ARCH_NAME = SAPPHIRE,
     HRP_USE_OFFCORE = False,
     HRP_LOG_IMC = False,
     HRP_USE_WRITE_EST = False,
     HRP_USE_STALL_TOTAL = False,
     HRP_USE_BOUND_ON_LOADS = False,
     HRP_USE_BOUND_ON_STORES = False,
     HRP_USE_COUNTER_COMBINATION = False,
     HRP_USE_HIT_COUNTS = True,
     HRP_USE_RDT = False,
     HRP_RDT_INCLUDE_LOCAL_BW = False,
     HRP_IMC_DATA_ASSOCIATED_CORE = 0\<rparr>"

text \<open>
  The CPU selection mask as the kernel's \<open>for_each_cpu\<close> reads it: bit \<open>i mod 64\<close> of
  word \<open>i div 64\<close>, CPUs in ascending order, \<open>HRP_PMC_CPU_SELECTION_MASK_BITS\<close> bits.
\<close>

definition selected_cpus :: "hrp_config \<Rightarrow> nat list" where
  "selected_cpus cfg =
     filter (\<lambda>i. i div 64 < length (hrp_pmc_cpu_selection_mask_bits cfg) \<and>
                 bit (hrp_pmc_cpu_selection_mask_bits cfg ! (i div 64)) (i mod 64))
       [0..<HRP_PMC_CPU_SELECTION_MASK_BITS]"

lemma distinct_selected_cpus [simp]: "distinct (selected_cpus cfg)"
  by (simp add: selected_cpus_def)

lemma sorted_selected_cpus [simp]: "sorted (selected_cpus cfg)"
  by (simp add: selected_cpus_def sorted_wrt_filter)

lemma selected_cpus_lt: "c \<in> set (selected_cpus cfg) \<Longrightarrow> c < 256"
  by (simp add: selected_cpus_def HRP_PMC_CPU_SELECTION_MASK_BITS_def)

section \<open>ioctl commands\<close>

text \<open>
  A command is what the kernel's \<open>_IO\<close>, \<open>_IOW\<close> and \<open>_IOR\<close> macros encode into one word:
  the direction, the magic character, the number and the size of the argument. The encoding
  itself is the kernel's; two commands are the same word exactly when these agree.
\<close>

datatype ioc = IO char nat | IOW char nat nat | IOR char nat nat

record rmid_set_info_t =
  rsi_rmid :: u32
  rsi_core_id :: u32

definition sizeof_rmid_set_info_t :: nat where
  "sizeof_rmid_set_info_t = 8"

definition HRP_PMC_IOC_MAGIC :: char where
  "HRP_PMC_IOC_MAGIC = CHR ''k''"

definition HRP_PMC_IOC_START :: ioc where
  "HRP_PMC_IOC_START = IO HRP_PMC_IOC_MAGIC 1"

definition HRP_PMC_IOC_PAUSE :: ioc where
  "HRP_PMC_IOC_PAUSE = IO HRP_PMC_IOC_MAGIC 2"

definition HRP_PMC_IOC_INSTRUCTED_POLL :: ioc where
  "HRP_PMC_IOC_INSTRUCTED_POLL = IO HRP_PMC_IOC_MAGIC 3"

definition HRP_PMC_IOC_INSTRUCTED_LOG :: ioc where
  "HRP_PMC_IOC_INSTRUCTED_LOG = IO HRP_PMC_IOC_MAGIC 4"

definition HRP_PMC_IOC_INSTRUCTED_POLL_AND_LOG :: ioc where
  "HRP_PMC_IOC_INSTRUCTED_POLL_AND_LOG = IO HRP_PMC_IOC_MAGIC 5"

definition HRP_PMC_IOC_RDT_SET_RMID_ON_CORE :: ioc where
  "HRP_PMC_IOC_RDT_SET_RMID_ON_CORE = IOW HRP_PMC_IOC_MAGIC 6 sizeof_rmid_set_info_t"

definition HRP_PMC_IOC_TSC_FREQ :: ioc where
  "HRP_PMC_IOC_TSC_FREQ = IOR HRP_PMC_IOC_MAGIC 10 8"

definition HRP_PMC_IOC_RDT_SCALE_FACTOR :: ioc where
  "HRP_PMC_IOC_RDT_SCALE_FACTOR = IOR HRP_PMC_IOC_MAGIC 11 4"

definition HRP_PMC_IOC_RDT_MAX_RMID :: ioc where
  "HRP_PMC_IOC_RDT_MAX_RMID = IOR HRP_PMC_IOC_MAGIC 12 4"

lemmas ioc_defs =
  HRP_PMC_IOC_START_def HRP_PMC_IOC_PAUSE_def HRP_PMC_IOC_INSTRUCTED_POLL_def
  HRP_PMC_IOC_INSTRUCTED_LOG_def HRP_PMC_IOC_INSTRUCTED_POLL_AND_LOG_def
  HRP_PMC_IOC_RDT_SET_RMID_ON_CORE_def HRP_PMC_IOC_TSC_FREQ_def
  HRP_PMC_IOC_RDT_SCALE_FACTOR_def HRP_PMC_IOC_RDT_MAX_RMID_def

end
