(* ===== verification/Kernel.thy ===== *)
theory Kernel
  imports Config
begin

text \<open>
  What the module uses of the machine and of the kernel: model-specific registers and CR4 per
  CPU, cross-CPU calls, and the allocators. Whether an allocation succeeds is a parameter of the
  heap (\<open>alloc_ok\<close>); the heap records what is live, so that a leak, a double free or a free
  through the wrong interface shows.
\<close>

section \<open>CPUs\<close>

text \<open>
  \<open>qm_ctr\<close> is the hardware's answer to a read of \<open>IA32_QM_CTR\<close>: it depends on the CPU and on
  what \<open>IA32_QM_EVTSEL\<close> selects there. Every other register reads back what was written.
\<close>

record machine =
  msr :: "nat \<Rightarrow> u32 \<Rightarrow> u64"
  cr4 :: "nat \<Rightarrow> u64"
  qm_ctr :: "nat \<Rightarrow> u64 \<Rightarrow> u64"
  cpu_online :: "nat list"

text \<open>Register addresses that the kernel's \<open>asm/msr-index.h\<close> gives the module.\<close>

definition MSR_IA32_QM_EVTSEL :: u32 where "MSR_IA32_QM_EVTSEL = 0xC8D"
definition MSR_IA32_QM_CTR :: u32 where "MSR_IA32_QM_CTR = 0xC8E"
definition MSR_IA32_PQR_ASSOC :: u32 where "MSR_IA32_PQR_ASSOC = 0xC8F"

definition wrmsrl :: "nat \<Rightarrow> u32 \<Rightarrow> u64 \<Rightarrow> machine \<Rightarrow> machine" where
  "wrmsrl cpu a v m = m\<lparr>msr := (msr m)(cpu := (msr m cpu)(a := v))\<rparr>"

definition rdmsrl :: "nat \<Rightarrow> u32 \<Rightarrow> machine \<Rightarrow> u64" where
  "rdmsrl cpu a m =
     (if a = MSR_IA32_QM_CTR then qm_ctr m cpu (msr m cpu MSR_IA32_QM_EVTSEL) else msr m cpu a)"

definition wrmsr :: "nat \<Rightarrow> u32 \<Rightarrow> u32 \<Rightarrow> u32 \<Rightarrow> machine \<Rightarrow> machine" where
  "wrmsr cpu a lo hi m = wrmsrl cpu a (push_bit 32 (ucast hi) OR ucast lo) m"

lemma wrmsrl_frame [simp]:
  "cr4 (wrmsrl cpu a v m) = cr4 m"
  "qm_ctr (wrmsrl cpu a v m) = qm_ctr m"
  "cpu_online (wrmsrl cpu a v m) = cpu_online m"
  by (simp_all add: wrmsrl_def)

lemma msr_wrmsrl [simp]:
  "msr (wrmsrl cpu a v m) c b = (if c = cpu \<and> b = a then v else msr m c b)"
  by (simp add: wrmsrl_def)

text \<open>
  \<open>smp_call_function_many\<close> runs the function on the online CPUs of the mask other than the
  calling one; \<open>smp_call_function_single\<close> on one CPU, if it is online.
\<close>

definition smp_targets :: "machine \<Rightarrow> nat \<Rightarrow> nat list \<Rightarrow> nat list" where
  "smp_targets m cur cpus = filter (\<lambda>c. c \<in> set (cpu_online m) \<and> c \<noteq> cur) cpus"

definition smp_call_function_single ::
  "nat \<Rightarrow> (nat \<Rightarrow> machine \<Rightarrow> machine) \<Rightarrow> machine \<Rightarrow> machine" where
  "smp_call_function_single cpu f m = (if cpu \<in> set (cpu_online m) then f cpu m else m)"

section \<open>Pages\<close>

definition PAGE_SIZE :: u64 where "PAGE_SIZE = 4096"

definition PAGE_ALIGN :: "u64 \<Rightarrow> u64" where
  "PAGE_ALIGN x = (x + (PAGE_SIZE - 1)) AND NOT (PAGE_SIZE - 1)"

definition PAGE_MASK :: u64 where "PAGE_MASK = NOT (PAGE_SIZE - 1)"

section \<open>Allocators\<close>

datatype kres = KObj | KPage | KVmap | KIomap

record kheap =
  alloc_ok :: "nat \<Rightarrow> bool"
  n_req :: nat
  live :: "(kres \<times> nat) set"

text \<open>The \<open>n\<close>-th request either fails or returns the object named \<open>n\<close>.\<close>

definition kalloc :: "kres \<Rightarrow> kheap \<Rightarrow> nat option \<times> kheap" where
  "kalloc k h =
     (if alloc_ok h (n_req h)
      then (Some (n_req h), h\<lparr>n_req := Suc (n_req h), live := insert (k, n_req h) (live h)\<rparr>)
      else (None, h\<lparr>n_req := Suc (n_req h)\<rparr>))"

definition krelease :: "kres \<Rightarrow> nat \<Rightarrow> kheap \<Rightarrow> kheap may" where
  "krelease k p h =
     (if (k, p) \<in> live h then Inr (h\<lparr>live := live h - {(k, p)}\<rparr>) else Inl BadFree)"

definition heap_wf :: "kheap \<Rightarrow> bool" where
  "heap_wf h \<longleftrightarrow> (\<forall>k p. (k, p) \<in> live h \<longrightarrow> p < n_req h)"

lemma kalloc_Some:
  assumes "kalloc k h = (Some p, h')" and "heap_wf h"
  shows "heap_wf h'" "live h' = insert (k, p) (live h)" "(k', p) \<notin> live h" "alloc_ok h' = alloc_ok h"
  using assms by (auto simp: kalloc_def heap_wf_def less_SucI split: if_splits)

lemma kalloc_None:
  assumes "kalloc k h = (None, h')" and "heap_wf h"
  shows "heap_wf h'" "live h' = live h" "alloc_ok h' = alloc_ok h"
  using assms by (auto simp: kalloc_def heap_wf_def less_SucI split: if_splits)

lemma krelease_live:
  assumes "(k, p) \<in> live h" and "heap_wf h"
  shows "\<exists>h'. krelease k p h = Inr h' \<and> live h' = live h - {(k, p)} \<and> heap_wf h'"
  using assms by (auto simp: krelease_def heap_wf_def)

lemma krelease_Inr:
  assumes "krelease k p h = Inr h'"
  shows "live h' = live h - {(k, p)}" "(k, p) \<in> live h" "n_req h' = n_req h" "alloc_ok h' = alloc_ok h"
    "heap_wf h \<Longrightarrow> heap_wf h'"
  using assms by (auto simp: krelease_def heap_wf_def split: if_splits)

end
