(* ===== verification/Ring_Buffer.thy ===== *)
theory Ring_Buffer
  imports Kernel
begin

text \<open>
  The per-CPU ring buffer: \<open>src/src/buffer.h\<close> and \<open>src/src/buffer.c\<close>. The buffer is
  modelled as the C struct (head, tail, pointers), its storage as the list of slots behind the
  pointer, and its allocation paths against the kernel heap. A ring buffer refines a bounded FIFO
  queue that drops new elements when full; allocation either succeeds completely or leaves the
  heap as it was.
\<close>

section \<open>Log entries (buffer.h)\<close>

record HrperfTick =
  kts :: u64
  stall_mem :: u64
  inst_retire :: u64
  stalls_sb :: u64
  cpu_unhalt :: u64
  llc_misses :: u64
  sw_prefetch :: u64
  imc_reads :: u64
  imc_writes :: u64
  total_bw :: u64
  local_bw :: u64
  occupancy :: u64

record HrperfLogEntry =
  cpu_id :: u32
  tick :: HrperfTick

definition zero_tick :: HrperfTick where
  "zero_tick = \<lparr>kts = 0, stall_mem = 0, inst_retire = 0, stalls_sb = 0, cpu_unhalt = 0,
     llc_misses = 0, sw_prefetch = 0, imc_reads = 0, imc_writes = 0, total_bw = 0, local_bw = 0,
     occupancy = 0\<rparr>"

definition zero_entry :: HrperfLogEntry where
  "zero_entry = \<lparr>cpu_id = 0, tick = zero_tick\<rparr>"

text \<open>
  The fields of \<open>HrperfTick\<close> the configuration compiles in, in declaration order. All are
  64 bits wide, so the struct has no padding; \<open>HrperfLogEntry\<close> is packed.
\<close>

definition tick_words :: "hrp_config \<Rightarrow> HrperfTick \<Rightarrow> u64 list" where
  "tick_words cfg t =
     [kts t, stall_mem t, inst_retire t, stalls_sb t, cpu_unhalt t, llc_misses t, sw_prefetch t] @
     (if HRP_LOG_IMC cfg then [imc_reads t, imc_writes t] else []) @
     (if HRP_USE_RDT cfg
      then [total_bw t] @ (if HRP_RDT_INCLUDE_LOCAL_BW cfg then [local_bw t] else []) @ [occupancy t]
      else [])"

definition sizeof_HrperfTick :: "hrp_config \<Rightarrow> nat" where
  "sizeof_HrperfTick cfg =
     8 * (7 + (if HRP_LOG_IMC cfg then 2 else 0) +
          (if HRP_USE_RDT cfg then (if HRP_RDT_INCLUDE_LOCAL_BW cfg then 3 else 2) else 0))"

definition sizeof_HrperfLogEntry :: "hrp_config \<Rightarrow> nat" where
  "sizeof_HrperfLogEntry cfg = 4 + sizeof_HrperfTick cfg"

text \<open>The bytes of one entry in memory, as \<open>kernel_write\<close> copies them (little-endian).\<close>

definition entry_bytes :: "hrp_config \<Rightarrow> HrperfLogEntry \<Rightarrow> u8 list" where
  "entry_bytes cfg e = le_bytes 4 (cpu_id e) @ concat (map (le_bytes 8) (tick_words cfg (tick e)))"

section \<open>The ring buffer (buffer.h)\<close>

text \<open>
  \<open>buffer\<close> is the pointer (NULL is \<open>None\<close>), \<open>slots\<close> the array behind it. \<open>pages\<close> is the
  pointer to the page array of the page-based allocation with the array's contents.
\<close>

record HrperfRingBuffer =
  buffer :: "nat option"
  slots :: "HrperfLogEntry list"
  pages :: "(nat \<times> nat option list) option"
  num_pages :: u64
  head :: u32
  tail :: u32

section \<open>Operations (buffer.c)\<close>

definition is_full :: "hrp_config \<Rightarrow> HrperfRingBuffer \<Rightarrow> bool" where
  "is_full cfg rb \<longleftrightarrow> (tail rb + 1) mod HRP_PMC_BUFFER_SIZE cfg = head rb"

definition enqueue :: "hrp_config \<Rightarrow> HrperfRingBuffer \<Rightarrow> HrperfLogEntry \<Rightarrow> HrperfRingBuffer may" where
  "enqueue cfg rb data =
     (let next_tail = (tail rb + 1) mod HRP_PMC_BUFFER_SIZE cfg in
      if next_tail = head rb then Inr rb
      else if buffer rb = None then Inl NullDeref
      else if unat (tail rb) < length (slots rb)
      then Inr (rb\<lparr>slots := (slots rb)[unat (tail rb) := data], tail := next_tail\<rparr>)
      else Inl OutOfBounds)"

text \<open>\<open>__free_page\<close> on every non-NULL entry of the page array.\<close>

definition free_page :: "nat option \<Rightarrow> kheap \<Rightarrow> kheap may" where
  "free_page p h = (case p of None \<Rightarrow> Inr h | Some q \<Rightarrow> krelease KPage q h)"

definition free_alloc_pages :: "HrperfRingBuffer \<Rightarrow> kheap \<Rightarrow> (HrperfRingBuffer \<times> kheap) may" where
  "free_alloc_pages rb h =
     bindF (case buffer rb of
              None \<Rightarrow> Inr (rb, h)
            | Some p \<Rightarrow> bindF (krelease KVmap p h) (\<lambda>h. Inr (rb\<lparr>buffer := None, slots := []\<rparr>, h)))
       (\<lambda>(rb, h).
          bindF (case pages rb of
                   None \<Rightarrow> Inr (rb, h)
                 | Some (pp, ps) \<Rightarrow>
                     if unat (num_pages rb) \<le> length ps
                     then bindF (foldF free_page (take (unat (num_pages rb)) ps) h)
                            (\<lambda>h. bindF (krelease KObj pp h) (\<lambda>h. Inr (rb\<lparr>pages := None\<rparr>, h)))
                     else Inl OutOfBounds)
            (\<lambda>(rb, h). Inr (rb\<lparr>num_pages := 0\<rparr>, h)))"

text \<open>The loop that fills \<open>pages[i]\<close>; it stops at the first page that cannot be allocated.\<close>

fun fill_pages :: "nat option list \<Rightarrow> kheap \<Rightarrow> bool \<times> nat option list \<times> kheap" where
  "fill_pages [] h = (True, [], h)"
| "fill_pages (_ # ps) h =
     (case kalloc KPage h of
        (None, h) \<Rightarrow> (False, None # ps, h)
      | (Some p, h) \<Rightarrow> (let (ok, ps, h) = fill_pages ps h in (ok, Some p # ps, h)))"

definition buf_size :: "hrp_config \<Rightarrow> u64" where
  "buf_size cfg = ucast (HRP_PMC_BUFFER_SIZE cfg) * word_of_nat (sizeof_HrperfLogEntry cfg)"

definition hrp_alloc_rb_buf ::
  "hrp_config \<Rightarrow> HrperfRingBuffer \<Rightarrow> kheap \<Rightarrow> (ret \<times> HrperfRingBuffer \<times> kheap) may" where
  "hrp_alloc_rb_buf cfg rb h =
     (let fail = (\<lambda>rb h. bindF (free_alloc_pages rb h) (\<lambda>(rb, h). Inr (Neg ENOMEM, rb, h)));
          zeroed = replicate (unat (HRP_PMC_BUFFER_SIZE cfg)) zero_entry in
      if HRP_EXLARGE_HEAP_ALLOCATED_RB cfg then
        (let n = PAGE_ALIGN (buf_size cfg) div PAGE_SIZE in
         case kalloc KObj h of
           (None, h) \<Rightarrow> fail (rb\<lparr>num_pages := n, pages := None\<rparr>) h
         | (Some pp, h) \<Rightarrow>
             (case fill_pages (replicate (unat n) None) h of
                (False, ps, h) \<Rightarrow> fail (rb\<lparr>num_pages := n, pages := Some (pp, ps)\<rparr>) h
              | (True, ps, h) \<Rightarrow>
                  (case kalloc KVmap h of
                     (None, h) \<Rightarrow> fail (rb\<lparr>num_pages := n, pages := Some (pp, ps)\<rparr>) h
                   | (Some b, h) \<Rightarrow>
                       Inr (Ok0, rb\<lparr>num_pages := n, pages := Some (pp, ps), buffer := Some b,
                                    slots := zeroed\<rparr>, h))))
      else
        (case kalloc KObj h of
           (None, h) \<Rightarrow> Inr (Neg ENOMEM, rb, h)
         | (Some b, h) \<Rightarrow> Inr (Ok0, rb\<lparr>buffer := Some b, slots := zeroed\<rparr>, h)))"

definition init_ring_buffer ::
  "hrp_config \<Rightarrow> HrperfRingBuffer \<Rightarrow> kheap \<Rightarrow> (ret \<times> HrperfRingBuffer \<times> kheap) may" where
  "init_ring_buffer cfg rb h =
     (let rb = rb\<lparr>head := 0, tail := 0\<rparr> in
      if HRP_HEAP_ALLOCATED_RB cfg then
        (let rb = (if HRP_EXLARGE_HEAP_ALLOCATED_RB cfg
                   then rb\<lparr>buffer := None, slots := [], pages := None, num_pages := 0\<rparr> else rb)
         in hrp_alloc_rb_buf cfg rb h)
      else Inr (Ok0, rb, h))"

definition deinit_ring_buffer ::
  "hrp_config \<Rightarrow> HrperfRingBuffer \<Rightarrow> kheap \<Rightarrow> (HrperfRingBuffer \<times> kheap) may" where
  "deinit_ring_buffer cfg rb h =
     bindF
       (if HRP_HEAP_ALLOCATED_RB cfg then
          (if HRP_EXLARGE_HEAP_ALLOCATED_RB cfg then free_alloc_pages rb h
           else case buffer rb of
                  None \<Rightarrow> Inr (rb, h)
                | Some p \<Rightarrow> bindF (krelease KObj p h) (\<lambda>h. Inr (rb\<lparr>buffer := None, slots := []\<rparr>, h)))
        else Inr (rb, h))
       (\<lambda>(rb, h). Inr (rb\<lparr>head := 0, tail := 0\<rparr>, h))"

text \<open>
  The buffer of a CPU before the module initialises it: static per-CPU storage is zero, and the
  array is part of the struct when the buffer is not heap-allocated.
\<close>

definition static_rb :: "hrp_config \<Rightarrow> HrperfRingBuffer" where
  "static_rb cfg =
     (if HRP_HEAP_ALLOCATED_RB cfg
      then \<lparr>buffer = None, slots = [], pages = None, num_pages = 0, head = 0, tail = 0\<rparr>
      else \<lparr>buffer = Some 0, slots = replicate (unat (HRP_PMC_BUFFER_SIZE cfg)) zero_entry,
             pages = None, num_pages = 0, head = 0, tail = 0\<rparr>)"

section \<open>Invariant and abstraction\<close>

definition rb_wf :: "hrp_config \<Rightarrow> HrperfRingBuffer \<Rightarrow> bool" where
  "rb_wf cfg rb \<longleftrightarrow>
     buffer rb \<noteq> None \<and> length (slots rb) = unat (HRP_PMC_BUFFER_SIZE cfg) \<and>
     head rb < HRP_PMC_BUFFER_SIZE cfg \<and> tail rb < HRP_PMC_BUFFER_SIZE cfg"

text \<open>The elements from index \<open>h\<close> up to, not including, index \<open>t\<close>, wrapping around the end.\<close>

definition ring_slice :: "'a list \<Rightarrow> nat \<Rightarrow> nat \<Rightarrow> 'a list" where
  "ring_slice xs h t = (if h \<le> t then take (t - h) (drop h xs) else drop h xs @ take t xs)"

definition rb_list :: "HrperfRingBuffer \<Rightarrow> HrperfLogEntry list" where
  "rb_list rb = ring_slice (slots rb) (unat (head rb)) (unat (tail rb))"

text \<open>The most entries a buffer holds: one slot stays empty to tell full from empty.\<close>

definition rb_cap :: "hrp_config \<Rightarrow> nat" where
  "rb_cap cfg = unat (HRP_PMC_BUFFER_SIZE cfg) - 1"

section \<open>The bounded queue contract\<close>

text \<open>
  What a client of a bounded queue relies on: inserting never faults, keeps the invariant, and
  appends the element unless the queue is at capacity, in which case the queue is unchanged.
\<close>

locale bounded_fifo =
  fixes enq :: "'x \<Rightarrow> 'q \<Rightarrow> 'q may"
    and contents :: "'q \<Rightarrow> 'x list"
    and invar :: "'q \<Rightarrow> bool"
    and cap :: nat
  assumes enq_spec: "invar q \<Longrightarrow> \<exists>q'. enq x q = Inr q' \<and> invar q' \<and>
      contents q' = (if length (contents q) < cap then contents q @ [x] else contents q)"
    and contents_le: "invar q \<Longrightarrow> length (contents q) \<le> cap"
begin

lemma enq_all:
  "invar q \<Longrightarrow> \<exists>q'. foldF enq xs q = Inr q' \<and> invar q' \<and>
     contents q' = contents q @ take (cap - length (contents q)) xs"
proof (induction xs arbitrary: q)
  case Nil
  then show ?case by simp
next
  case (Cons x xs)
  from enq_spec [OF Cons.prems] obtain q1 where q1: "enq x q = Inr q1" "invar q1"
    and c1: "contents q1 = (if length (contents q) < cap then contents q @ [x] else contents q)"
    by blast
  from Cons.IH [OF q1(2)] obtain q2 where q2: "foldF enq xs q1 = Inr q2" "invar q2"
    "contents q2 = contents q1 @ take (cap - length (contents q1)) xs"
    by blast
  show ?case
  proof (cases "length (contents q) < cap")
    case True
    then have "cap - length (contents q) = Suc (cap - length (contents q1))"
      using c1 by simp
    with True q1 q2 c1 show ?thesis by simp
  next
    case False
    with contents_le [OF Cons.prems] q1 q2 c1 show ?thesis by simp
  qed
qed

lemma enq_all_fits:
  assumes "invar q" and "length (contents q) + length xs \<le> cap"
  shows "\<exists>q'. foldF enq xs q = Inr q' \<and> invar q' \<and> contents q' = contents q @ xs"
  using enq_all [OF assms(1), of xs] assms(2) by simp

end

section \<open>The ring buffer refines it\<close>

lemma next_index:
  assumes "t < (n :: u32)"
  shows "unat ((t + 1) mod n) = (if unat t + 1 = unat n then 0 else unat t + 1)"
proof -
  have lt: "unat t < unat n" using assms by (simp add: word_less_nat_alt)
  moreover have "unat n < 2 ^ LENGTH(32)" by (rule unsigned_less)
  ultimately have "unat (t + 1) = unat t + 1" by (simp add: unat_word_ariths)
  then show ?thesis using lt by (auto simp: unat_mod)
qed

lemma length_ring_slice:
  "h < length xs \<Longrightarrow> t < length xs \<Longrightarrow>
   length (ring_slice xs h t) = (if h \<le> t then t - h else length xs - h + t)"
  by (auto simp: ring_slice_def)

lemma ring_slice_snoc:
  assumes "h < length xs" and "t < length xs"
    and "t' = (if t + 1 = length xs then 0 else t + 1)" and "t' \<noteq> h"
  shows "ring_slice (xs[t := x]) h t' = ring_slice xs h t @ [x]"
proof -
  have tk: "take (Suc t - k) (drop k (xs[t := x])) = take (t - k) (drop k xs) @ [x]" if "k \<le> t" for k
    using that assms(2)
    by (simp add: drop_update_swap Suc_diff_le take_Suc_conv_app_nth take_update_cancel)
  show ?thesis
  proof (cases "h \<le> t")
    case True
    show ?thesis
    proof (cases "t + 1 = length xs")
      case last: True
      then have "drop h (xs[t := x]) = take (Suc t - h) (drop h (xs[t := x]))" by simp
      with True last assms tk [of h] show ?thesis by (auto simp: ring_slice_def)
    next
      case False
      with True assms tk [of h] show ?thesis by (auto simp: ring_slice_def)
    qed
  next
    case False
    with assms tk [of 0] show ?thesis by (auto simp: ring_slice_def)
  qed
qed

lemma rb_list_bound: "rb_wf cfg rb \<Longrightarrow> length (rb_list rb) \<le> rb_cap cfg"
  by (auto simp: rb_wf_def rb_list_def rb_cap_def length_ring_slice word_less_nat_alt)

lemma is_full_iff: "rb_wf cfg rb \<Longrightarrow> is_full cfg rb \<longleftrightarrow> length (rb_list rb) = rb_cap cfg"
  unfolding is_full_def rb_wf_def rb_cap_def rb_list_def word_unat_eq_iff
  by (auto simp: next_index length_ring_slice word_less_nat_alt split: if_splits)

lemma enqueue_full: "is_full cfg rb \<Longrightarrow> enqueue cfg rb e = Inr rb"
  by (simp add: enqueue_def is_full_def)

lemma enqueue_room:
  assumes "rb_wf cfg rb" and "\<not> is_full cfg rb"
  shows "\<exists>rb'. enqueue cfg rb e = Inr rb' \<and> rb_wf cfg rb' \<and> rb_list rb' = rb_list rb @ [e]"
proof -
  let ?n = "HRP_PMC_BUFFER_SIZE cfg"
  let ?rb' = "rb\<lparr>slots := (slots rb)[unat (tail rb) := e], tail := (tail rb + 1) mod ?n\<rparr>"
  have wf: "buffer rb \<noteq> None" "length (slots rb) = unat ?n" "unat (head rb) < unat ?n"
    "unat (tail rb) < unat ?n" "tail rb < ?n"
    using assms(1) by (auto simp: rb_wf_def word_less_nat_alt)
  then have n0: "0 < ?n" by (simp add: word_less_nat_alt)
  have "enqueue cfg rb e = Inr ?rb'"
    using assms(2) wf by (simp add: enqueue_def is_full_def Let_def)
  moreover have "rb_wf cfg ?rb'"
    using assms(1) n0 by (simp add: rb_wf_def word_mod_less_divisor)
  moreover have "rb_list ?rb' = rb_list rb @ [e]"
    unfolding rb_list_def
    using assms(2) wf
    by (simp add: is_full_def) (rule ring_slice_snoc; simp add: next_index word_unat_eq_iff)
  ultimately show ?thesis by blast
qed

interpretation ring: bounded_fifo "\<lambda>e rb. enqueue cfg rb e" rb_list "rb_wf cfg" "rb_cap cfg" for cfg
proof
  fix rb :: HrperfRingBuffer and e :: HrperfLogEntry
  assume wf: "rb_wf cfg rb"
  show "\<exists>rb'. enqueue cfg rb e = Inr rb' \<and> rb_wf cfg rb' \<and>
      rb_list rb' = (if length (rb_list rb) < rb_cap cfg then rb_list rb @ [e] else rb_list rb)"
  proof (cases "is_full cfg rb")
    case True
    with wf show ?thesis by (simp add: enqueue_full is_full_iff)
  next
    case False
    with wf enqueue_room [OF wf False, of e] rb_list_bound [OF wf] show ?thesis
      by (auto simp: is_full_iff)
  qed
qed (rule rb_list_bound)

section \<open>Allocation is all or nothing\<close>

fun page_ids :: "nat option list \<Rightarrow> nat list" where
  "page_ids [] = []"
| "page_ids (None # ps) = page_ids ps"
| "page_ids (Some p # ps) = p # page_ids ps"

text \<open>The heap objects a ring buffer owns.\<close>

definition rb_res :: "hrp_config \<Rightarrow> HrperfRingBuffer \<Rightarrow> (kres \<times> nat) set" where
  "rb_res cfg rb =
     (if HRP_EXLARGE_HEAP_ALLOCATED_RB cfg
      then Pair KVmap ` set_option (buffer rb) \<union>
           (case pages rb of None \<Rightarrow> {} | Some (pp, ps) \<Rightarrow> insert (KObj, pp) (Pair KPage ` set (page_ids ps)))
      else Pair KObj ` set_option (buffer rb))"

definition pages_wf :: "HrperfRingBuffer \<Rightarrow> bool" where
  "pages_wf rb \<longleftrightarrow>
     (case pages rb of None \<Rightarrow> True
      | Some (pp, ps) \<Rightarrow> length ps = unat (num_pages rb) \<and> distinct (page_ids ps))"

lemma fill_pages_spec:
  assumes "fill_pages qs h = (ok, ps, h')" and "heap_wf h" and "set qs \<subseteq> {None}"
  shows "heap_wf h' \<and> length ps = length qs \<and> n_req h \<le> n_req h' \<and> distinct (page_ids ps) \<and>
    (\<forall>p \<in> set (page_ids ps). n_req h \<le> p) \<and> live h' = live h \<union> Pair KPage ` set (page_ids ps)"
  using assms
proof (induction qs h arbitrary: ok ps h' rule: fill_pages.induct)
  case (1 h)
  then show ?case by simp
next
  case (2 q qs h)
  show ?case
  proof (cases "kalloc KPage h")
    case (Pair r h1)
    show ?thesis
    proof (cases r)
      case None
      have ids: "page_ids (None # qs) = []"
        using "2.prems"(3) by (induction qs) auto
      from None Pair "2.prems" have "ps = None # qs" "h' = h1" by auto
      with kalloc_None [of KPage h h1] None Pair "2.prems"(2) ids show ?thesis
        by (auto simp: kalloc_def split: if_splits)
    next
      case (Some p)
      with Pair "2.prems"(1) obtain ps1 where r: "fill_pages qs h1 = (ok, ps1, h')" "ps = Some p # ps1"
        by (auto split: prod.splits)
      have h1: "heap_wf h1" "live h1 = insert (KPage, p) (live h)"
        using kalloc_Some [of KPage h p h1] Pair Some "2.prems"(2) by auto
      have p: "p = n_req h" "n_req h1 = Suc (n_req h)"
        using Pair Some by (auto simp: kalloc_def split: if_splits)
      have IH: "heap_wf h' \<and> length ps1 = length qs \<and> n_req h1 \<le> n_req h' \<and> distinct (page_ids ps1) \<and>
          (\<forall>p \<in> set (page_ids ps1). n_req h1 \<le> p) \<and>
          live h' = live h1 \<union> Pair KPage ` set (page_ids ps1)"
        using "2.IH" [OF Pair [symmetric] Some r(1) h1(1)] "2.prems"(3) by simp
      show ?thesis
        using IH by (auto simp: r(2) h1(2) p Suc_le_eq)
    qed
  qed
qed

lemma free_page_simps [simp]:
  "free_page None h = Inr h"
  "free_page (Some p) h = krelease KPage p h"
  by (simp_all add: free_page_def)

lemma free_pages_spec:
  assumes "heap_wf h" and "distinct (page_ids ps)" and "Pair KPage ` set (page_ids ps) \<subseteq> live h"
  shows "\<exists>h'. foldF free_page ps h = Inr h' \<and> heap_wf h' \<and>
    live h' = live h - Pair KPage ` set (page_ids ps)"
  using assms
proof (induction ps arbitrary: h rule: page_ids.induct)
  case 1
  then show ?case by simp
next
  case (2 ps)
  then show ?case by simp
next
  case (3 p ps)
  then obtain h1 where h1: "krelease KPage p h = Inr h1" "live h1 = live h - {(KPage, p)}" "heap_wf h1"
    using krelease_live [of KPage p h] by auto
  have "Pair KPage ` set (page_ids ps) \<subseteq> live h1"
    using "3.prems"(2,3) by (auto simp: h1(2))
  with "3.IH" [OF h1(3)] "3.prems"(2) obtain h2 where
    "foldF free_page ps h1 = Inr h2" "heap_wf h2" "live h2 = live h1 - Pair KPage ` set (page_ids ps)"
    by auto
  with h1 show ?case by auto
qed

text \<open>Tear-down of the page-based buffer returns exactly what the buffer owned.\<close>

lemma free_alloc_pages_spec:
  assumes "HRP_EXLARGE_HEAP_ALLOCATED_RB cfg" and "heap_wf h" and "pages_wf rb" and "rb_res cfg rb \<subseteq> live h"
  shows "\<exists>rb' h'. free_alloc_pages rb h = Inr (rb', h') \<and> heap_wf h' \<and> live h' = live h - rb_res cfg rb \<and>
    buffer rb' = None \<and> pages rb' = None \<and> num_pages rb' = 0"
proof -
  obtain rb1 h1 where step1: "(case buffer rb of None \<Rightarrow> Inr (rb, h)
      | Some p \<Rightarrow> bindF (krelease KVmap p h) (\<lambda>h. Inr (rb\<lparr>buffer := None, slots := []\<rparr>, h))) = Inr (rb1, h1)"
    and rb1: "buffer rb1 = None" "pages rb1 = pages rb" "num_pages rb1 = num_pages rb"
    and h1: "heap_wf h1" "live h1 = live h - Pair KVmap ` set_option (buffer rb)"
    using assms krelease_live [of KVmap _ h] by (cases "buffer rb") (fastforce simp: rb_res_def)+
  show ?thesis
  proof (cases "pages rb")
    case None
    then show ?thesis
      using step1 rb1 h1 assms(1) by (simp add: free_alloc_pages_def rb_res_def)
  next
    case (Some pp_ps)
    then obtain pp ps where pps: "pages rb = Some (pp, ps)" by (cases pp_ps) auto
    have "Pair KPage ` set (page_ids ps) \<subseteq> live h1"
      using assms(1,4) by (auto simp: rb_res_def pps h1(2))
    then obtain h2 where h2: "foldF free_page ps h1 = Inr h2" "heap_wf h2"
      "live h2 = live h1 - Pair KPage ` set (page_ids ps)"
      using free_pages_spec [OF h1(1), of ps] assms(3) by (auto simp: pages_wf_def pps)
    have "(KObj, pp) \<in> live h2"
      using assms(1,4) by (auto simp: rb_res_def pps h1(2) h2(3))
    then obtain h3 where h3: "krelease KObj pp h2 = Inr h3" "live h3 = live h2 - {(KObj, pp)}" "heap_wf h3"
      using krelease_live [OF _ h2(2)] by blast
    have "live h3 = live h - rb_res cfg rb"
      using assms(1) by (auto simp: rb_res_def pps h1(2) h2(3) h3(2))
    then show ?thesis
      using step1 rb1 h2(1) h3 assms(3) by (simp add: free_alloc_pages_def pages_wf_def pps)
  qed
qed

text \<open>What initialisation promises: a usable, empty buffer that owns fresh objects, or no change.\<close>

definition init_post :: "hrp_config \<Rightarrow> kheap \<Rightarrow> ret \<times> HrperfRingBuffer \<times> kheap \<Rightarrow> bool" where
  "init_post cfg h = (\<lambda>(r, rb', h').
     heap_wf h' \<and>
     (r = Ok0 \<and> rb_wf cfg rb' \<and> rb_list rb' = [] \<and> pages_wf rb' \<and>
        live h' = live h \<union> rb_res cfg rb' \<and> live h \<inter> rb_res cfg rb' = {}
      \<or> r = Neg ENOMEM \<and> live h' = live h))"

lemma kalloc_cases:
  obtains (fail) h' where "kalloc k h = (None, h')" | (ok) p h' where "kalloc k h = (Some p, h')"
  by (cases "kalloc k h"; cases "fst (kalloc k h)") auto

lemma kalloc_fresh:
  assumes "kalloc k h = (Some p, h')"
  shows "p = n_req h" "n_req h' = Suc (n_req h)"
  using assms by (auto simp: kalloc_def split: if_splits)

lemma heap_wf_fresh: "heap_wf h \<Longrightarrow> n_req h \<le> p \<Longrightarrow> (k, p) \<notin> live h"
  by (meson heap_wf_def leD)

lemma alloc_fail_path:
  assumes "HRP_EXLARGE_HEAP_ALLOCATED_RB cfg" and "heap_wf h'" and "pages_wf rb"
    and "live h' = live h \<union> rb_res cfg rb" and "live h \<inter> rb_res cfg rb = {}"
  shows "\<exists>out. bindF (free_alloc_pages rb h') (\<lambda>(rb, h). Inr (Neg ENOMEM, rb, h)) = Inr out \<and>
    init_post cfg h out"
proof -
  have "rb_res cfg rb \<subseteq> live h'" using assms(4) by blast
  then obtain rb2 h2 where "free_alloc_pages rb h' = Inr (rb2, h2)" "heap_wf h2"
      "live h2 = live h' - rb_res cfg rb"
    using free_alloc_pages_spec [OF assms(1-3)] by blast
  moreover have "live h' - rb_res cfg rb = live h" using assms(4,5) by blast
  ultimately show ?thesis by (simp add: init_post_def)
qed

lemma alloc_contiguous_spec:
  assumes "\<not> HRP_EXLARGE_HEAP_ALLOCATED_RB cfg" and "heap_wf h" and "0 < HRP_PMC_BUFFER_SIZE cfg"
    and "head rb = 0" and "tail rb = 0" and "pages rb = None"
  shows "\<exists>out. hrp_alloc_rb_buf cfg rb h = Inr out \<and> init_post cfg h out"
proof (cases rule: kalloc_cases [of KObj h])
  case (fail h1)
  then show ?thesis
    using assms(1) kalloc_None [OF fail assms(2)] by (simp add: hrp_alloc_rb_buf_def init_post_def)
next
  case (ok p h1)
  let ?rb = "rb\<lparr>buffer := Some p, slots := replicate (unat (HRP_PMC_BUFFER_SIZE cfg)) zero_entry\<rparr>"
  have "rb_wf cfg ?rb" "rb_list ?rb = []" "pages_wf ?rb" "rb_res cfg ?rb = {(KObj, p)}"
    using assms by (simp_all add: rb_wf_def rb_list_def ring_slice_def pages_wf_def rb_res_def)
  then have "init_post cfg h (Ok0, ?rb, h1)"
    using kalloc_Some [OF ok assms(2)] by (simp add: init_post_def)
  then show ?thesis using assms(1) ok by (simp add: hrp_alloc_rb_buf_def)
qed

text \<open>After the page loop, the buffer owns the page array and the pages allocated so far, all fresh.\<close>

lemma paged_partial:
  assumes "HRP_EXLARGE_HEAP_ALLOCATED_RB cfg" and "heap_wf h" and "buffer rb = None"
    and "kalloc KObj h = (Some pp, h1)" and "fill_pages (replicate (unat n) None) h1 = (b, ps, h2)"
  defines "rb2 \<equiv> rb\<lparr>num_pages := n, pages := Some (pp, ps)\<rparr>"
  shows "pages_wf rb2" "heap_wf h2" "live h2 = live h \<union> rb_res cfg rb2" "live h \<inter> rb_res cfg rb2 = {}"
proof -
  note h1 = kalloc_Some [OF assms(4,2)] kalloc_fresh [OF assms(4)]
  have "set (replicate (unat n) None) \<subseteq> {None}" by auto
  note fp = fill_pages_spec [OF assms(5) h1(1) this]
  have res: "rb_res cfg rb2 = insert (KObj, pp) (Pair KPage ` set (page_ids ps))"
    using assms(1,3) by (simp add: rb_res_def rb2_def)
  show "pages_wf rb2" using fp by (simp add: pages_wf_def rb2_def)
  show "heap_wf h2" using fp by blast
  show "live h2 = live h \<union> rb_res cfg rb2" using fp h1(2) by (auto simp: res)
  have "(KPage, p) \<notin> live h" if "p \<in> set (page_ids ps)" for p
    using that fp h1(5,6) by (intro heap_wf_fresh [OF assms(2)]) auto
  then show "live h \<inter> rb_res cfg rb2 = {}" using h1(3) by (auto simp: res)
qed

lemma alloc_paged_spec:
  assumes "HRP_EXLARGE_HEAP_ALLOCATED_RB cfg" and "heap_wf h" and "0 < HRP_PMC_BUFFER_SIZE cfg"
    and "head rb = 0" and "tail rb = 0" and "buffer rb = None"
  shows "\<exists>out. hrp_alloc_rb_buf cfg rb h = Inr out \<and> init_post cfg h out"
proof -
  let ?n = "PAGE_ALIGN (buf_size cfg) div PAGE_SIZE"
  show ?thesis
  proof (cases rule: kalloc_cases [of KObj h])
    case (fail h1)
    have rb: "pages_wf (rb\<lparr>num_pages := ?n, pages := None\<rparr>)"
      "rb_res cfg (rb\<lparr>num_pages := ?n, pages := None\<rparr>) = {}"
      using assms by (simp_all add: pages_wf_def rb_res_def)
    show ?thesis
      using assms(1) fail kalloc_None [OF fail assms(2)] alloc_fail_path [OF assms(1) _ rb(1), of h1 h]
      by (simp add: hrp_alloc_rb_buf_def Let_def rb(2))
  next
    case (ok pp h1)
    obtain b ps h2 where fp: "fill_pages (replicate (unat ?n) None) h1 = (b, ps, h2)"
      by (cases "fill_pages (replicate (unat ?n) None) h1") auto
    note part = paged_partial [OF assms(1,2,6) ok fp]
    note failed = alloc_fail_path [OF assms(1) _ part(1) _ part(4)]
    show ?thesis
    proof (cases rule: kalloc_cases [of KVmap h2])
      case (fail h3)
      then show ?thesis
        using assms(1) ok fp kalloc_None [OF fail part(2)] failed [of h2] failed [of h3] part(2,3)
        by (cases b) (simp_all add: hrp_alloc_rb_buf_def Let_def)
    next
      case map: (ok p h3)
      note h3 = kalloc_Some [OF map part(2)]
      let ?rb3 = "rb\<lparr>num_pages := ?n, pages := Some (pp, ps), buffer := Some p,
        slots := replicate (unat (HRP_PMC_BUFFER_SIZE cfg)) zero_entry\<rparr>"
      have "rb_res cfg ?rb3 = insert (KVmap, p) (rb_res cfg (rb\<lparr>num_pages := ?n, pages := Some (pp, ps)\<rparr>))"
        using assms(1,6) by (auto simp: rb_res_def)
      moreover have "rb_wf cfg ?rb3" "rb_list ?rb3 = []" "pages_wf ?rb3"
        using assms part(1) by (simp_all add: rb_wf_def rb_list_def ring_slice_def pages_wf_def)
      ultimately have "init_post cfg h (Ok0, ?rb3, h3)"
        using h3(1,2) h3(3) [of KVmap] part(3,4) by (auto simp: init_post_def)
      then show ?thesis
        using assms(1) ok fp map failed [of h2] part(2,3)
        by (cases b) (simp_all add: hrp_alloc_rb_buf_def Let_def)
    qed
  qed
qed

lemma init_ring_buffer_spec:
  assumes "heap_wf h" and "0 < HRP_PMC_BUFFER_SIZE cfg" and "HRP_HEAP_ALLOCATED_RB cfg" and "pages rb = None"
  shows "\<exists>out. init_ring_buffer cfg rb h = Inr out \<and> init_post cfg h out"
proof (cases "HRP_EXLARGE_HEAP_ALLOCATED_RB cfg")
  case True
  then show ?thesis
    using assms alloc_paged_spec [OF True, of h "rb\<lparr>head := 0, tail := 0, buffer := None, slots := [],
        pages := None, num_pages := 0\<rparr>"]
    by (simp add: init_ring_buffer_def Let_def)
next
  case False
  then show ?thesis
    using assms alloc_contiguous_spec [OF False, of h "rb\<lparr>head := 0, tail := 0\<rparr>"]
    by (simp add: init_ring_buffer_def Let_def)
qed

section \<open>Properties\<close>

text \<open>
  C4. Inserting into a well-formed buffer never faults, keeps it well-formed, and is the insertion
  of a bounded FIFO queue of \<open>HRP_PMC_BUFFER_SIZE - 1\<close> entries: the new entry is appended if there
  is room and dropped, with every older entry kept, if the buffer is full.
\<close>

theorem enqueue_refines_bounded_fifo:
  assumes "rb_wf cfg rb"
  shows "\<exists>rb'. enqueue cfg rb e = Inr rb' \<and> rb_wf cfg rb' \<and>
    rb_list rb' = (if length (rb_list rb) < rb_cap cfg then rb_list rb @ [e] else rb_list rb)"
  using assms by (rule ring.enq_spec)

text \<open>
  A burst of any number of insertions without a log in between keeps the oldest entries: the
  buffer then holds what it held, followed by the longest prefix of the burst that fits.
\<close>

theorem enqueue_burst:
  assumes "rb_wf cfg rb"
  shows "\<exists>rb'. foldF (\<lambda>e rb. enqueue cfg rb e) es rb = Inr rb' \<and> rb_wf cfg rb' \<and>
    rb_list rb' = rb_list rb @ take (rb_cap cfg - length (rb_list rb)) es"
  using assms by (rule ring.enq_all)

text \<open>
  C30. Initialising a heap-allocated ring buffer never faults. It succeeds with a well-formed, empty
  buffer that owns only fresh heap objects, or it returns \<open>-ENOMEM\<close> and every object it had
  allocated on the way (page array, pages) is freed again.
\<close>

theorem init_ring_buffer_all_or_nothing:
  assumes "heap_wf h" and "0 < HRP_PMC_BUFFER_SIZE cfg" and "HRP_HEAP_ALLOCATED_RB cfg" and "pages rb = None"
  shows "\<exists>out. init_ring_buffer cfg rb h = Inr out \<and> init_post cfg h out"
  using assms by (rule init_ring_buffer_spec)

lemma deinit_spec:
  assumes "HRP_HEAP_ALLOCATED_RB cfg" and "heap_wf h" and "pages_wf rb" and "rb_res cfg rb \<subseteq> live h"
  shows "\<exists>rb' h'. deinit_ring_buffer cfg rb h = Inr (rb', h') \<and> heap_wf h' \<and>
    live h' = live h - rb_res cfg rb \<and> buffer rb' = None \<and> rb_list rb' = []"
proof (cases "HRP_EXLARGE_HEAP_ALLOCATED_RB cfg")
  case True
  from free_alloc_pages_spec [OF True assms(2-4)] obtain rb1 h1 where
    "free_alloc_pages rb h = Inr (rb1, h1)" "heap_wf h1" "live h1 = live h - rb_res cfg rb"
    "buffer rb1 = None" by blast
  with True assms(1) show ?thesis
    by (simp add: deinit_ring_buffer_def rb_list_def ring_slice_def)
next
  case False
  show ?thesis
  proof (cases "buffer rb")
    case None
    with False assms show ?thesis
      by (simp add: deinit_ring_buffer_def rb_res_def rb_list_def ring_slice_def)
  next
    case (Some p)
    with False assms(4) have "(KObj, p) \<in> live h" by (simp add: rb_res_def)
    from krelease_live [OF this assms(2)] obtain h1 where "krelease KObj p h = Inr h1"
      "live h1 = live h - {(KObj, p)}" "heap_wf h1" by blast
    with False Some assms(1) show ?thesis
      by (simp add: deinit_ring_buffer_def rb_res_def rb_list_def ring_slice_def)
  qed
qed

text \<open>
  Tear-down undoes initialisation: after a successful initialisation and any use of the buffer
  that leaves its pointers alone, \<open>deinit_ring_buffer\<close> does not fault, frees every object the
  buffer owned exactly once, and leaves the heap as it was before; the pointer is NULL again.
\<close>

theorem deinit_undoes_init:
  assumes "heap_wf h" and "0 < HRP_PMC_BUFFER_SIZE cfg" and "HRP_HEAP_ALLOCATED_RB cfg" and "pages rb = None"
    and "init_ring_buffer cfg rb h = Inr (Ok0, rb1, h1)"
    and "buffer rb2 = buffer rb1" and "pages rb2 = pages rb1" and "num_pages rb2 = num_pages rb1"
  shows "\<exists>rb3 h3. deinit_ring_buffer cfg rb2 h1 = Inr (rb3, h3) \<and> live h3 = live h \<and> buffer rb3 = None"
proof -
  have "init_post cfg h (Ok0, rb1, h1)"
    using init_ring_buffer_spec [OF assms(1-4)] assms(5) by auto
  moreover have "rb_res cfg rb2 = rb_res cfg rb1" and "pages_wf rb2 = pages_wf rb1"
    using assms(6-8) unfolding rb_res_def pages_wf_def by presburger+
  ultimately have "heap_wf h1" "pages_wf rb2" "rb_res cfg rb2 \<subseteq> live h1" "live h1 - rb_res cfg rb2 = live h"
    by (auto simp: init_post_def)
  then show ?thesis using deinit_spec [OF assms(3), of h1 rb2] by auto
qed

section \<open>Witnesses\<close>

definition cfg4 :: hrp_config where
  "cfg4 = config_h\<lparr>HRP_PMC_BUFFER_SIZE := 4\<rparr>"

definition rb4 :: HrperfRingBuffer where
  "rb4 = \<lparr>buffer = Some 0, slots = replicate 4 zero_entry, pages = None, num_pages = 0, head = 2, tail = 3\<rparr>"

definition heap_up_to :: "nat \<Rightarrow> kheap" where
  "heap_up_to k = \<lparr>alloc_ok = (\<lambda>n. n < k), n_req = 0, live = {}\<rparr>"

lemma rb4_wf: "rb_wf cfg4 rb4"
  by (simp add: rb_wf_def cfg4_def config_h_def rb4_def)

lemma heap_up_to_wf: "heap_wf (heap_up_to k)"
  by (simp add: heap_wf_def heap_up_to_def)

theorem enqueue_refines_bounded_fifo_witness:
  "rb_wf cfg4 rb4 \<and> (\<exists>rb'. enqueue cfg4 rb4 (zero_entry\<lparr>cpu_id := 7\<rparr>) = Inr rb' \<and>
     rb_list rb' = [zero_entry, zero_entry\<lparr>cpu_id := 7\<rparr>])"
proof -
  have "rb_list rb4 = [zero_entry]" "rb_cap cfg4 = 3"
    by (simp_all add: rb_list_def ring_slice_def rb4_def rb_cap_def cfg4_def config_h_def)
  then show ?thesis
    using rb4_wf enqueue_refines_bounded_fifo [OF rb4_wf, of "zero_entry\<lparr>cpu_id := 7\<rparr>"] by auto
qed

theorem enqueue_burst_witness:
  "rb_wf cfg4 rb4 \<and> (\<exists>rb'. foldF (\<lambda>e rb. enqueue cfg4 rb e) (replicate 5 zero_entry) rb4 = Inr rb' \<and>
     length (rb_list rb') = 3)"
proof -
  have "rb_list rb4 = [zero_entry]" "rb_cap cfg4 = 3"
    by (simp_all add: rb_list_def ring_slice_def rb4_def rb_cap_def cfg4_def config_h_def)
  then show ?thesis
    using rb4_wf enqueue_burst [OF rb4_wf, of "replicate 5 zero_entry"] by auto
qed

theorem init_all_or_nothing_witness:
  "\<exists>out. init_ring_buffer (cfg4\<lparr>HRP_EXLARGE_HEAP_ALLOCATED_RB := True\<rparr>) (static_rb cfg4) (heap_up_to 1) = Inr out \<and>
     init_post (cfg4\<lparr>HRP_EXLARGE_HEAP_ALLOCATED_RB := True\<rparr>) (heap_up_to 1) out"
  by (rule init_ring_buffer_all_or_nothing [OF heap_up_to_wf])
    (simp_all add: cfg4_def config_h_def static_rb_def)

theorem deinit_undoes_init_witness:
  "\<exists>rb1 h1 rb3 h3. init_ring_buffer cfg4 (static_rb cfg4) (heap_up_to 1) = Inr (Ok0, rb1, h1) \<and>
     deinit_ring_buffer cfg4 rb1 h1 = Inr (rb3, h3) \<and> live h3 = {}"
proof -
  obtain rb1 h1 where i: "init_ring_buffer cfg4 (static_rb cfg4) (heap_up_to 1) = Inr (Ok0, rb1, h1)"
    by (simp add: init_ring_buffer_def hrp_alloc_rb_buf_def kalloc_def heap_up_to_def cfg4_def config_h_def
        Let_def)
  have "0 < HRP_PMC_BUFFER_SIZE cfg4" "HRP_HEAP_ALLOCATED_RB cfg4" "pages (static_rb cfg4) = None"
    by (simp_all add: cfg4_def config_h_def static_rb_def)
  from deinit_undoes_init [OF heap_up_to_wf this i refl refl refl] i show ?thesis
    by (auto simp: heap_up_to_def)
qed

end
