(* ===== verification/Log_File.thy ===== *)
theory Log_File
  imports Ring_Buffer
begin

text \<open>
  Draining a ring buffer to the log file: \<open>src/src/log.c\<close>. The kernel's file interface is a
  parameter: \<open>kw f bs\<close> is the outcome of \<open>kernel_write\<close> (its return value and the file
  afterwards). The lemmas show what reaches the file, byte for byte and entry for entry, and that
  a reader of the packed layout recovers the entries.
\<close>

section \<open>Operations (log.c)\<close>

type_synonym 'f kernel_write = "'f \<Rightarrow> u8 list \<Rightarrow> int \<times> 'f"

text \<open>\<open>filp_open\<close> yields an error pointer or a file.\<close>

definition hrperf_init_log_file :: "errno + 'f \<Rightarrow> 'f option" where
  "hrperf_init_log_file filp = (case filp of Inl e \<Rightarrow> None | Inr f \<Rightarrow> Some f)"

text \<open>
  One \<open>kernel_write(file, &rb->buffer[i], size, &file->f_pos)\<close>: it dereferences the file and
  reads \<open>size\<close> bytes of the slot array, starting at slot \<open>i\<close>.
\<close>

definition write_slots ::
  "hrp_config \<Rightarrow> 'f kernel_write \<Rightarrow> HrperfRingBuffer \<Rightarrow> 'f option \<Rightarrow> u32 \<Rightarrow> u64 \<Rightarrow> 'f option may" where
  "write_slots cfg kw rb file i sz =
     (case file of
        None \<Rightarrow> Inl NullDeref
      | Some f \<Rightarrow>
          (let mem = concat (map (entry_bytes cfg) (slots rb));
               off = unat i * sizeof_HrperfLogEntry cfg in
           if buffer rb = None then Inl NullDeref
           else if off + unat sz \<le> length mem
           then Inr (Some (snd (kw f (take (unat sz) (drop off mem)))))
           else Inl OutOfBounds))"

definition slots_size :: "hrp_config \<Rightarrow> u32 \<Rightarrow> u64" where
  "slots_size cfg n = ucast n * word_of_nat (sizeof_HrperfLogEntry cfg)"

definition log_and_clear ::
  "hrp_config \<Rightarrow> 'f kernel_write \<Rightarrow> HrperfRingBuffer \<Rightarrow> 'f option \<Rightarrow> (HrperfRingBuffer \<times> 'f option) may" where
  "log_and_clear cfg kw rb file =
     (let h = head rb; t = tail rb in
      if h = t then Inr (rb, file)
      else
        bindF
          (if h < t then write_slots cfg kw rb file h (slots_size cfg (t - h))
           else
             bindF (write_slots cfg kw rb file h (slots_size cfg (HRP_PMC_BUFFER_SIZE cfg - h)))
               (\<lambda>file. if 0 < t then write_slots cfg kw rb file 0 (slots_size cfg t) else Inr file))
          (\<lambda>file. Inr (rb\<lparr>head := t\<rparr>, file)))"

definition hrperf_close_log_file :: "('f \<Rightarrow> 'f) \<Rightarrow> 'f option \<Rightarrow> 'f option" where
  "hrperf_close_log_file filp_close file = (case file of None \<Rightarrow> None | Some f \<Rightarrow> Some (filp_close f))"

section \<open>The layout of an entry\<close>

lemma length_tick_words [layout_simps]: "8 * length (tick_words cfg t) = sizeof_HrperfTick cfg"
  by (simp add: tick_words_def sizeof_HrperfTick_def)

lemma length_concat_le_bytes: "length (concat (map (le_bytes k) ws)) = k * length ws"
  by (induction ws) (auto simp: algebra_simps)

lemma length_entry_bytes [simp, layout_simps]: "length (entry_bytes cfg e) = sizeof_HrperfLogEntry cfg"
  by (simp add: entry_bytes_def sizeof_HrperfLogEntry_def length_concat_le_bytes length_tick_words)

lemma sizeof_entry_bounds: "60 \<le> sizeof_HrperfLogEntry cfg" "sizeof_HrperfLogEntry cfg \<le> 100"
  by (simp_all add: sizeof_HrperfLogEntry_def sizeof_HrperfTick_def)

lemma length_slot_memory:
  "length (concat (map (entry_bytes cfg) es)) = length es * sizeof_HrperfLogEntry cfg"
  by (induction es) (auto simp: algebra_simps)

lemma unat_slots_size: "unat (slots_size cfg n) = unat n * sizeof_HrperfLogEntry cfg"
proof -
  have n: "unat n < 2 ^ LENGTH(32)" by (rule unsigned_less)
  then have "unat n * sizeof_HrperfLogEntry cfg \<le> 2 ^ 32 * 100"
    using sizeof_entry_bounds(2) [of cfg] by (intro mult_le_mono) auto
  then have lt: "unat n * sizeof_HrperfLogEntry cfg < 2 ^ 64" by simp
  have "unat (word_of_nat (sizeof_HrperfLogEntry cfg) :: u64) = sizeof_HrperfLogEntry cfg"
    using sizeof_entry_bounds(2) [of cfg] by (simp add: unat_of_nat)
  moreover have "unat (ucast n :: u64) = unat n"
    using n by (simp add: unsigned_ucast_eq take_bit_nat_eq_self)
  ultimately show ?thesis
    using lt by (simp add: slots_size_def unat_word_ariths)
qed

section \<open>What a drain writes\<close>

text \<open>One write of \<open>n\<close> slots from slot \<open>i\<close> on hands the file exactly the bytes of these entries.\<close>

lemma write_slots_eq:
  assumes "rb_wf cfg rb" and "unat i + unat n \<le> unat (HRP_PMC_BUFFER_SIZE cfg)"
  shows "write_slots cfg kw rb (Some f) i (slots_size cfg n) =
    Inr (Some (snd (kw f (concat (map (entry_bytes cfg) (take (unat n) (drop (unat i) (slots rb))))))))"
proof -
  let ?w = "sizeof_HrperfLogEntry cfg"
  have "unat i * ?w + unat n * ?w \<le> length (slots rb) * ?w"
    using assms by (metis add_mult_distrib mult_le_mono1 rb_wf_def)
  moreover have "buffer rb \<noteq> None" using assms(1) by (simp add: rb_wf_def)
  ultimately show ?thesis
    by (simp add: write_slots_def Let_def unat_slots_size length_slot_memory take_drop_concat_map)
qed

text \<open>The successive \<open>kernel_write\<close> calls of a drain, as the list of the entries each one covers.\<close>

definition drain_chunks :: "HrperfRingBuffer \<Rightarrow> HrperfLogEntry list list" where
  "drain_chunks rb =
     (let h = unat (head rb); t = unat (tail rb) in
      if h = t then []
      else if h < t then [take (t - h) (drop h (slots rb))]
      else drop h (slots rb) # (if 0 < t then [take t (slots rb)] else []))"

lemma concat_drain_chunks: "concat (drain_chunks rb) = rb_list rb"
  by (simp add: drain_chunks_def rb_list_def ring_slice_def Let_def)

definition writes :: "hrp_config \<Rightarrow> 'f kernel_write \<Rightarrow> HrperfLogEntry list list \<Rightarrow> 'f \<Rightarrow> 'f" where
  "writes cfg kw chunks f = fold (\<lambda>c f. snd (kw f (concat (map (entry_bytes cfg) c)))) chunks f"

lemma unat_sub_le: "h \<le> t \<Longrightarrow> unat (t - h) = unat t - unat (h :: 'a::len word)"
  by (simp add: unat_sub)

lemma log_and_clear_eq:
  assumes wf: "rb_wf cfg rb"
  shows "log_and_clear cfg kw rb (Some f) =
    Inr (rb\<lparr>head := tail rb\<rparr>, Some (writes cfg kw (drain_chunks rb) f))"
proof -
  let ?n = "HRP_PMC_BUFFER_SIZE cfg"
  have lt: "unat (head rb) < unat ?n" "unat (tail rb) < unat ?n" "length (slots rb) = unat ?n"
    using wf by (auto simp: rb_wf_def word_less_nat_alt)
  consider (empty) "head rb = tail rb" | (plain) "head rb < tail rb" | (wrap) "tail rb < head rb"
    using less_linear by blast
  then show ?thesis
  proof cases
    case empty
    then show ?thesis by (simp add: log_and_clear_def Let_def writes_def drain_chunks_def)
  next
    case plain
    then have "unat (tail rb - head rb) = unat (tail rb) - unat (head rb)"
      "unat (head rb) < unat (tail rb)" "head rb \<noteq> tail rb"
      using unat_sub_le [OF less_imp_le [OF plain]] by (auto simp: word_less_nat_alt)
    then show ?thesis
      using plain lt write_slots_eq [OF wf, of "head rb" "tail rb - head rb" kw f]
      by (simp add: log_and_clear_def Let_def writes_def drain_chunks_def)
  next
    case wrap
    then have u: "unat (?n - head rb) = unat ?n - unat (head rb)" "unat (tail rb) < unat (head rb)"
      "head rb \<noteq> tail rb" "\<not> head rb < tail rb"
      using lt by (auto simp: unat_sub_le word_le_nat_alt word_less_nat_alt)
    then have "0 < tail rb \<longleftrightarrow> 0 < unat (tail rb)" by (simp add: word_less_nat_alt)
    with wrap u lt show ?thesis
      using write_slots_eq [OF wf, of "head rb" "?n - head rb" kw f]
        write_slots_eq [OF wf, of 0 "tail rb" kw]
      by (simp add: log_and_clear_def Let_def writes_def drain_chunks_def)
  qed
qed

text \<open>Documented behaviour of an append-mode file when no write fails: every write goes to the end.\<close>

definition appends :: "'f kernel_write \<Rightarrow> ('f \<Rightarrow> u8 list) \<Rightarrow> bool" where
  "appends kw contents \<longleftrightarrow> (\<forall>f bs. contents (snd (kw f bs)) = contents f @ bs)"

lemma writes_appends:
  "appends kw contents \<Longrightarrow>
   contents (writes cfg kw cs f) = contents f @ concat (map (entry_bytes cfg) (concat cs))"
  by (induction cs arbitrary: f) (auto simp: writes_def appends_def)

lemma cleared_rb: "rb_wf cfg rb \<Longrightarrow> rb_wf cfg (rb\<lparr>head := tail rb\<rparr>) \<and> rb_list (rb\<lparr>head := tail rb\<rparr>) = []"
  by (simp add: rb_wf_def rb_list_def ring_slice_def)

section \<open>A queue that is drained\<close>

text \<open>
  What the producer and the logger rely on together: a bounded queue with a drain that writes the
  whole contents, in order and in chunks of its choice, and leaves the queue empty.
\<close>

locale drained_fifo = bounded_fifo +
  fixes drain :: "'b \<Rightarrow> 'f \<Rightarrow> ('b \<times> 'f) may"
    and put :: "'a list \<Rightarrow> 'f \<Rightarrow> 'f"
  assumes drain_spec: "invar q \<Longrightarrow> \<exists>q' cs. drain q f = Inr (q', fold put cs f) \<and> invar q' \<and> contents q' = [] \<and> concat cs = contents q"
begin

lemma fill_and_drain:
  assumes "invar q"
  shows "\<exists>q' cs. bindF (foldF enq xs q) (\<lambda>q. drain q f) = Inr (q', fold put cs f) \<and> invar q' \<and> contents q' = [] \<and>
    concat cs = contents q @ take (cap - length (contents q)) xs"
proof -
  obtain q1 where "foldF enq xs q = Inr q1" "invar q1" "contents q1 = contents q @ take (cap - length (contents q)) xs"
    using enq_all [OF assms] by blast
  then show ?thesis using drain_spec [of q1 f] by auto
qed

lemma batches:
  assumes "invar q" and "contents q = []" and "\<forall>xs \<in> set xss. length xs \<le> cap"
  shows "\<exists>q' cs. foldF (\<lambda>xs (q, f). bindF (foldF enq xs q) (\<lambda>q. drain q f)) xss (q, f) = Inr (q', fold put cs f) \<and>
    invar q' \<and> contents q' = [] \<and> concat cs = concat xss"
  using assms
proof (induction xss arbitrary: q f)
  case Nil
  then show ?case by (intro exI [of _ q] exI [of _ "[]"]) simp
next
  case (Cons xs xss)
  obtain q1 cs1 where 1: "bindF (foldF enq xs q) (\<lambda>q. drain q f) = Inr (q1, fold put cs1 f)" "invar q1" "contents q1 = []" "concat cs1 = xs"
    using fill_and_drain [OF Cons.prems(1), of xs f] Cons.prems(2,3) by auto
  obtain q2 cs2 where "foldF (\<lambda>xs (q, f). bindF (foldF enq xs q) (\<lambda>q. drain q f)) xss (q1, fold put cs1 f) = Inr (q2, fold put cs2 (fold put cs1 f))"
    "invar q2" "contents q2 = []" "concat cs2 = concat xss"
    using Cons.IH [OF 1(2,3), of "fold put cs1 f"] Cons.prems(3) by auto
  then show ?case using 1 by (intro exI [of _ q2] exI [of _ "cs1 @ cs2"]) simp
qed

end

text \<open>The log of one CPU: \<open>enqueue\<close> and \<open>log_and_clear\<close> on an open file.\<close>

definition drain_into :: "hrp_config \<Rightarrow> 'f kernel_write \<Rightarrow> HrperfRingBuffer \<Rightarrow> 'f \<Rightarrow> (HrperfRingBuffer \<times> 'f) may" where
  "drain_into cfg kw rb f = bindF (log_and_clear cfg kw rb (Some f)) (\<lambda>(rb, f'). case f' of Some f' \<Rightarrow> Inr (rb, f') | None \<Rightarrow> Inl NullDeref)"

definition put_entries :: "hrp_config \<Rightarrow> 'f kernel_write \<Rightarrow> HrperfLogEntry list \<Rightarrow> 'f \<Rightarrow> 'f" where
  "put_entries cfg kw es f = snd (kw f (concat (map (entry_bytes cfg) es)))"

lemma writes_fold: "writes cfg kw cs f = fold (put_entries cfg kw) cs f"
  by (simp add: writes_def put_entries_def [abs_def])

interpretation logq: drained_fifo "\<lambda>e rb. enqueue cfg rb e" rb_list "rb_wf cfg" "rb_cap cfg" "drain_into cfg kw" "put_entries cfg kw"
  for cfg and kw :: "'f kernel_write"
proof
  fix rb :: HrperfRingBuffer and f :: 'f
  assume "rb_wf cfg rb"
  then show "\<exists>rb' cs. drain_into cfg kw rb f = Inr (rb', fold (put_entries cfg kw) cs f) \<and> rb_wf cfg rb' \<and> rb_list rb' = [] \<and>
      concat cs = rb_list rb"
    using cleared_rb [of cfg rb]
    by (intro exI [of _ "rb\<lparr>head := tail rb\<rparr>"] exI [of _ "drain_chunks rb"])
      (simp add: drain_into_def log_and_clear_eq writes_fold concat_drain_chunks)
qed

section \<open>Reading the log back\<close>

definition word_at :: "nat \<Rightarrow> u8 list \<Rightarrow> u64" where
  "word_at k bs = le_word (take 8 (drop (4 + 8 * k) bs))"

text \<open>
  A reader of the packed layout (the field order that \<open>src/parsing/parse_hrp.py\<close> declares);
  fields that are not compiled in read as zero.
\<close>

definition decode_entry :: "hrp_config \<Rightarrow> u8 list \<Rightarrow> HrperfLogEntry" where
  "decode_entry cfg bs =
     (let r = 7 + (if HRP_LOG_IMC cfg then 2 else 0) in
      \<lparr>cpu_id = le_word (take 4 bs),
       tick = \<lparr>kts = word_at 0 bs, stall_mem = word_at 1 bs, inst_retire = word_at 2 bs,
         stalls_sb = word_at 3 bs, cpu_unhalt = word_at 4 bs, llc_misses = word_at 5 bs,
         sw_prefetch = word_at 6 bs,
         imc_reads = (if HRP_LOG_IMC cfg then word_at 7 bs else 0),
         imc_writes = (if HRP_LOG_IMC cfg then word_at 8 bs else 0),
         total_bw = (if HRP_USE_RDT cfg then word_at r bs else 0),
         local_bw = (if HRP_USE_RDT cfg \<and> HRP_RDT_INCLUDE_LOCAL_BW cfg then word_at (r + 1) bs else 0),
         occupancy = (if HRP_USE_RDT cfg
                      then word_at (r + (if HRP_RDT_INCLUDE_LOCAL_BW cfg then 2 else 1)) bs else 0)\<rparr>\<rparr>)"

function decode_log :: "hrp_config \<Rightarrow> u8 list \<Rightarrow> HrperfLogEntry list" where
  "decode_log cfg bs =
     (if length bs < sizeof_HrperfLogEntry cfg then []
      else decode_entry cfg bs # decode_log cfg (drop (sizeof_HrperfLogEntry cfg) bs))"
  by pat_completeness auto
termination
proof (relation "measure (\<lambda>(cfg, bs). length bs)")
  fix cfg :: hrp_config and bs :: "u8 list"
  assume "\<not> length bs < sizeof_HrperfLogEntry cfg"
  then show "((cfg, drop (sizeof_HrperfLogEntry cfg) bs), cfg, bs) \<in> measure (\<lambda>(cfg, bs). length bs)"
    using sizeof_entry_bounds(1) [of cfg] by simp
qed simp

declare decode_log.simps [simp del]

text \<open>An entry restricted to the fields the configuration compiles in.\<close>

definition logged_fields :: "hrp_config \<Rightarrow> HrperfLogEntry \<Rightarrow> HrperfLogEntry" where
  "logged_fields cfg e = e\<lparr>tick := (tick e)\<lparr>
     imc_reads := (if HRP_LOG_IMC cfg then imc_reads (tick e) else 0),
     imc_writes := (if HRP_LOG_IMC cfg then imc_writes (tick e) else 0),
     total_bw := (if HRP_USE_RDT cfg then total_bw (tick e) else 0),
     local_bw := (if HRP_USE_RDT cfg \<and> HRP_RDT_INCLUDE_LOCAL_BW cfg then local_bw (tick e) else 0),
     occupancy := (if HRP_USE_RDT cfg then occupancy (tick e) else 0)\<rparr>\<rparr>"

lemma word_at_words:
  "length c = 4 \<Longrightarrow> k < length ws \<Longrightarrow> word_at k (c @ concat (map (le_bytes 8) ws) @ rest) = ws ! k"
proof (induction k arbitrary: c ws)
  case 0
  then show ?case by (cases ws) (simp_all add: word_at_def le_word_le_bytes_id)
next
  case (Suc k)
  then obtain w ws' where ws: "ws = w # ws'" by (cases ws) auto
  have "word_at (Suc k) (c @ concat (map (le_bytes 8) ws) @ rest) =
      word_at k (take 4 c @ concat (map (le_bytes 8) ws') @ rest)"
    using Suc.prems(1) by (simp add: word_at_def ws)
  then show ?case using Suc.IH [of "take 4 c" ws'] Suc.prems by (simp add: ws)
qed

lemma decode_entry_bytes: "decode_entry cfg (entry_bytes cfg e @ rest) = logged_fields cfg e"
proof -
  have w: "word_at k (entry_bytes cfg e @ rest) = tick_words cfg (tick e) ! k"
    if "k < length (tick_words cfg (tick e))" for k
    using that by (simp add: entry_bytes_def word_at_words)
  have c: "le_word (take 4 (entry_bytes cfg e @ rest)) = cpu_id e"
    by (simp add: entry_bytes_def le_word_le_bytes_id)
  show ?thesis
    unfolding decode_entry_def Let_def c logged_fields_def
    by (rule HrperfLogEntry.equality; (rule HrperfTick.equality)?; simp add: w)
      (simp_all add: w tick_words_def)
qed

lemma decode_log_bytes: "decode_log cfg (concat (map (entry_bytes cfg) es)) = map (logged_fields cfg) es"
proof (induction es)
  case Nil
  then show ?case using sizeof_entry_bounds(1) [of cfg] by (simp add: decode_log.simps)
next
  case (Cons e es)
  then show ?case by (subst decode_log.simps) (simp add: decode_entry_bytes)
qed

section \<open>Properties\<close>

text \<open>
  C8. Draining a well-formed buffer into an append-mode file never faults, appends exactly the
  bytes of the buffered entries in FIFO order (one or two contiguous writes, whether or not the
  data wraps around), and leaves a well-formed empty buffer.
\<close>

theorem log_and_clear_drains:
  assumes "rb_wf cfg rb" and "appends kw contents"
  shows "\<exists>rb' f'. log_and_clear cfg kw rb (Some f) = Inr (rb', Some f') \<and> rb_wf cfg rb' \<and> rb_list rb' = [] \<and>
    contents f' = contents f @ concat (map (entry_bytes cfg) (rb_list rb))"
  using assms log_and_clear_eq [OF assms(1), of kw f] cleared_rb [OF assms(1)]
    writes_appends [OF assms(2), of cfg "drain_chunks rb" f]
  by (simp add: concat_drain_chunks)

text \<open>
  A buffer that is drained before it overflows loses nothing: when batches of entries are
  enqueued and drained in turn and no batch is larger than the capacity, the file grows by exactly
  the entries of all batches, in order, and decodes to them.
\<close>

theorem batches_reach_file:
  assumes "rb_wf cfg rb" and "rb_list rb = []" and "\<forall>es \<in> set batches. length es \<le> rb_cap cfg" and "appends kw contents"
  shows "\<exists>rb' f' added. foldF (\<lambda>es (rb, f). bindF (foldF (\<lambda>e rb. enqueue cfg rb e) es rb) (\<lambda>rb. drain_into cfg kw rb f)) batches (rb, f) =
      Inr (rb', f') \<and> rb_wf cfg rb' \<and> rb_list rb' = [] \<and> contents f' = contents f @ added \<and>
    decode_log cfg added = map (logged_fields cfg) (concat batches)"
proof -
  obtain rb' cs where "foldF (\<lambda>es (rb, f). bindF (foldF (\<lambda>e rb. enqueue cfg rb e) es rb) (\<lambda>rb. drain_into cfg kw rb f)) batches (rb, f) =
      Inr (rb', fold (put_entries cfg kw) cs f)" "rb_wf cfg rb'" "rb_list rb' = []" "concat cs = concat batches"
    using logq.batches [where kw = kw and f = f and xss = batches, OF assms(1,2,3)] by (elim exE conjE) (rule that)
  then show ?thesis
    using writes_appends [OF assms(4), of cfg cs f] by (simp add: writes_fold decode_log_bytes)
qed

text \<open>
  A write error is not retried: whatever \<open>kernel_write\<close> returns, a drain empties the buffer, so
  the entries of a failed write are lost.
\<close>

theorem log_and_clear_drops_on_error:
  assumes "rb_wf cfg rb"
  shows "\<exists>rb' f'. log_and_clear cfg kw rb (Some f) = Inr (rb', Some f') \<and> rb_wf cfg rb' \<and> rb_list rb' = []"
  using assms log_and_clear_eq [OF assms, of kw f] cleared_rb [OF assms] by simp

text \<open>
  Without a log file (\<open>hrperf_init_log_file\<close> failed and returned NULL) draining a non-empty
  buffer dereferences NULL; draining an empty one does nothing.
\<close>

theorem log_and_clear_null_file:
  assumes "rb_wf cfg rb"
  shows "log_and_clear cfg kw rb None = (if rb_list rb = [] then Inr (rb, None) else Inl NullDeref)"
proof -
  have "rb_list rb = [] \<longleftrightarrow> head rb = tail rb"
    using assms length_ring_slice [of "unat (head rb)" "slots rb" "unat (tail rb)"]
    by (auto simp: rb_wf_def rb_list_def word_less_nat_alt word_unat_eq_iff simp flip: length_0_conv
        split: if_splits)
  then show ?thesis
    by (simp add: log_and_clear_def Let_def write_slots_def)
qed

text \<open>
  C18. The log can be read back: decoding the bytes that logging any entries produces, in any
  configuration, yields the same entries in the same order, with every compiled-in field intact.
\<close>

theorem log_layout_roundtrip:
  "decode_log cfg (concat (map (entry_bytes cfg) es)) = map (logged_fields cfg) es"
  by (rule decode_log_bytes)

section \<open>Witnesses\<close>

definition mem_write :: "u8 list kernel_write" where
  "mem_write f bs = (int (length bs), f @ bs)"

theorem log_and_clear_drains_witness:
  "rb_wf cfg4 rb4 \<and> appends mem_write (\<lambda>f. f) \<and>
   (\<exists>rb'. log_and_clear cfg4 mem_write rb4 (Some []) = Inr (rb', Some (entry_bytes cfg4 zero_entry)))"
proof -
  have a: "appends mem_write (\<lambda>f. f)" by (simp add: appends_def mem_write_def)
  have "rb_list rb4 = [zero_entry]" by (simp add: rb_list_def ring_slice_def rb4_def)
  then show ?thesis
    using log_and_clear_drains [OF rb4_wf a, of "[]"] rb4_wf a by auto
qed

theorem log_and_clear_drops_on_error_witness:
  "rb_wf cfg4 rb4 \<and> (\<exists>rb' f'. log_and_clear cfg4 (\<lambda>f bs. (-5, f)) rb4 (Some ()) = Inr (rb', Some f') \<and>
     rb_list rb' = [])"
  using log_and_clear_drops_on_error [OF rb4_wf, of "\<lambda>f bs. (-5, f)" "()"] rb4_wf by blast

theorem log_and_clear_null_file_witness:
  "rb_wf cfg4 rb4 \<and> log_and_clear cfg4 mem_write rb4 None = Inl NullDeref"
proof -
  have "rb_list rb4 = [zero_entry]" by (simp add: rb_list_def ring_slice_def rb4_def)
  then show ?thesis using log_and_clear_null_file [OF rb4_wf, of mem_write] rb4_wf by simp
qed

theorem batches_reach_file_witness:
  "\<exists>rb' f'. foldF (\<lambda>es (rb, f). bindF (foldF (\<lambda>e rb. enqueue cfg4 rb e) es rb) (\<lambda>rb. drain_into cfg4 mem_write rb f))
       [[zero_entry, zero_entry\<lparr>cpu_id := 1\<rparr>], [zero_entry\<lparr>cpu_id := 2\<rparr>]] (rb4\<lparr>head := 3\<rparr>, []) = Inr (rb', f') \<and>
     decode_log cfg4 f' = map (logged_fields cfg4) [zero_entry, zero_entry\<lparr>cpu_id := 1\<rparr>, zero_entry\<lparr>cpu_id := 2\<rparr>]"
proof -
  have "appends mem_write (\<lambda>f. f)" by (simp add: appends_def mem_write_def)
  moreover have "rb_wf cfg4 (rb4\<lparr>head := 3\<rparr>)" "rb_list (rb4\<lparr>head := 3\<rparr>) = []" "rb_cap cfg4 = 3"
    by (simp_all add: rb_wf_def rb_list_def ring_slice_def rb4_def rb_cap_def cfg4_def config_h_def)
  ultimately show ?thesis
    using batches_reach_file [of cfg4 "rb4\<lparr>head := 3\<rparr>" "[[zero_entry, zero_entry\<lparr>cpu_id := 1\<rparr>], [zero_entry\<lparr>cpu_id := 2\<rparr>]]" mem_write "\<lambda>f. f" "[]"]
    by fastforce
qed

end
