(* ===== verification/Spsc.thy ===== *)
theory Spsc
  imports Log_File
begin

text \<open>
  Producer and consumer of one ring buffer running concurrently: the cross-CPU poll that calls
  \<open>enqueue\<close> (\<open>src/src/buffer.c\<close>) and the logger that calls \<open>log_and_clear\<close>
  (\<open>src/src/log.c\<close>) on an open file, interleaved at the granularity of their accesses to the shared
  struct. The copy out of the slot array takes one step per entry, so the producer may run between any
  two of them; each \<open>kernel_write\<close> is completed by a step of its own, and the store of \<open>head\<close> is
  another. The release stores and the acquire load order the accesses the way the steps do; a
  step reads or writes memory as the latest step before it left it.

  As in \<open>Log_File\<close>, \<open>kernel_write\<close> is a parameter, and nothing is assumed of it: it may fail or write
  less than it was given, which the code reports but does not act on. Every reachable state keeps the
  entries published by the producer equal to the entries handed to \<open>kernel_write\<close> followed by the
  entries that are still to be handed over: each entry is handed over once, in order and untorn. What
  is in the file then is what these calls made of it.
\<close>

section \<open>Step relations\<close>

datatype producer_pc =
    PIdle
  | PChecked HrperfLogEntry u32
  | PStored HrperfLogEntry u32

text \<open>
  The locals of \<open>log_and_clear\<close> are the head and the tail it has read. \<open>CWrite h t k acc\<close>: it is in a
  \<open>kernel_write\<close> that has read the entries \<open>acc\<close> of the slot array, and the calls before have written
  \<open>k\<close> entries. \<open>CStore h t\<close>: the calls are done and \<open>head\<close> is about to be stored.
\<close>

datatype consumer_pc =
    CIdle
  | CHead u32
  | CWrite u32 u32 nat "HrperfLogEntry list"
  | CStore u32 u32

text \<open>
  The shared buffer, the two program counters with the locals each side has read, the entries
  published so far and, for each \<open>kernel_write\<close> that was called so far, the entries it was given.
\<close>

record spsc =
  sh_rb :: HrperfRingBuffer
  p_pc :: producer_pc
  c_pc :: consumer_pc
  published :: "HrperfLogEntry list"
  handed :: "HrperfLogEntry list list"

text \<open>\<open>enqueue\<close>: compute \<open>next_tail\<close>, compare with \<open>head\<close>, store the entry, publish the tail.\<close>

inductive producer_step :: "hrp_config \<Rightarrow> spsc \<Rightarrow> spsc \<Rightarrow> bool" for cfg where
  p_full: "p_pc s = PIdle \<Longrightarrow> (tail (sh_rb s) + 1) mod HRP_PMC_BUFFER_SIZE cfg = head (sh_rb s) \<Longrightarrow>
     producer_step cfg s s"
| p_check: "p_pc s = PIdle \<Longrightarrow> nt = (tail (sh_rb s) + 1) mod HRP_PMC_BUFFER_SIZE cfg \<Longrightarrow>
     nt \<noteq> head (sh_rb s) \<Longrightarrow> producer_step cfg s (s\<lparr>p_pc := PChecked e nt\<rparr>)"
| p_store: "p_pc s = PChecked e nt \<Longrightarrow>
     producer_step cfg s
       (s\<lparr>sh_rb := (sh_rb s)\<lparr>slots := (slots (sh_rb s))[unat (tail (sh_rb s)) := e]\<rparr>, p_pc := PStored e nt\<rparr>)"
| p_publish: "p_pc s = PStored e nt \<Longrightarrow>
     producer_step cfg s
       (s\<lparr>sh_rb := (sh_rb s)\<lparr>tail := nt\<rparr>, p_pc := PIdle, published := published s @ [e]\<rparr>)"

text \<open>The number of entries from index \<open>h\<close> to index \<open>t\<close> of a ring of \<open>n\<close> slots.\<close>

definition cyc :: "nat \<Rightarrow> nat \<Rightarrow> nat \<Rightarrow> nat" where
  "cyc n h t = (if h \<le> t then t - h else n - h + t)"

text \<open>
  How many entries are written once the \<open>kernel_write\<close> that follows \<open>k\<close> written entries is done: all of
  them if the data is contiguous, else those up to the end of the array first.
\<close>

definition write_end :: "nat \<Rightarrow> nat \<Rightarrow> nat \<Rightarrow> nat \<Rightarrow> nat" where
  "write_end n h t k = (if h < t then t - h else if k = 0 then n - h else n - h + t)"

text \<open>
  \<open>log_and_clear\<close>: load head and tail, write the slots between them by one or two calls of
  \<open>kernel_write\<close>, store the head. The result of a call is not used, so that a failed one is followed
  by the same steps.
\<close>

inductive consumer_step :: "hrp_config \<Rightarrow> 'f kernel_write \<Rightarrow> spsc \<times> 'f \<Rightarrow> spsc \<times> 'f \<Rightarrow> bool" for cfg kw where
  c_head: "c_pc s = CIdle \<Longrightarrow> consumer_step cfg kw (s, f) (s\<lparr>c_pc := CHead (head (sh_rb s))\<rparr>, f)"
| c_empty: "c_pc s = CHead h \<Longrightarrow> h = tail (sh_rb s) \<Longrightarrow> consumer_step cfg kw (s, f) (s\<lparr>c_pc := CIdle\<rparr>, f)"
| c_tail: "c_pc s = CHead h \<Longrightarrow> h \<noteq> tail (sh_rb s) \<Longrightarrow>
     consumer_step cfg kw (s, f) (s\<lparr>c_pc := CWrite h (tail (sh_rb s)) 0 []\<rparr>, f)"
| c_copy: "c_pc s = CWrite h t k acc \<Longrightarrow>
     k + length acc < write_end (unat (HRP_PMC_BUFFER_SIZE cfg)) (unat h) (unat t) k \<Longrightarrow>
     consumer_step cfg kw (s, f)
       (s\<lparr>c_pc := CWrite h t k (acc @
          [slots (sh_rb s) ! ((unat h + k + length acc) mod unat (HRP_PMC_BUFFER_SIZE cfg))])\<rparr>, f)"
| c_write: "c_pc s = CWrite h t k acc \<Longrightarrow>
     k + length acc = write_end (unat (HRP_PMC_BUFFER_SIZE cfg)) (unat h) (unat t) k \<Longrightarrow>
     consumer_step cfg kw (s, f)
       (s\<lparr>c_pc := (if t < h \<and> k = 0 \<and> 0 < t then CWrite h t (k + length acc) [] else CStore h t),
          handed := handed s @ [acc]\<rparr>, put_entries cfg kw acc f)"
| c_publish: "c_pc s = CStore h t \<Longrightarrow>
     consumer_step cfg kw (s, f) (s\<lparr>sh_rb := (sh_rb s)\<lparr>head := t\<rparr>, c_pc := CIdle\<rparr>, f)"

inductive_cases producer_stepE: "producer_step cfg s t"
inductive_cases consumer_stepE: "consumer_step cfg kw (s, f) t"

definition spsc_init :: "hrp_config \<Rightarrow> HrperfRingBuffer \<Rightarrow> spsc \<Rightarrow> bool" where
  "spsc_init cfg rb s \<longleftrightarrow> rb_wf cfg rb \<and> rb_list rb = [] \<and>
     s = \<lparr>sh_rb = rb, p_pc = PIdle, c_pc = CIdle, published = [], handed = []\<rparr>"

inductive spsc_reach :: "hrp_config \<Rightarrow> 'f kernel_write \<Rightarrow> 'f \<Rightarrow> spsc \<Rightarrow> 'f \<Rightarrow> bool" for cfg kw f\<^sub>0 where
  start: "spsc_init cfg rb s \<Longrightarrow> spsc_reach cfg kw f\<^sub>0 s f\<^sub>0"
| producer: "spsc_reach cfg kw f\<^sub>0 s f \<Longrightarrow> producer_step cfg s t \<Longrightarrow> spsc_reach cfg kw f\<^sub>0 t f"
| consumer: "spsc_reach cfg kw f\<^sub>0 s f \<Longrightarrow> consumer_step cfg kw (s, f) (t, g) \<Longrightarrow> spsc_reach cfg kw f\<^sub>0 t g"

text \<open>The entries that were handed to \<open>kernel_write\<close> and are still in the buffer, since the head is stored last.\<close>

definition in_flight :: "hrp_config \<Rightarrow> spsc \<Rightarrow> nat" where
  "in_flight cfg s =
     (case c_pc s of
        CWrite h t k acc \<Rightarrow> k
      | CStore h t \<Rightarrow> cyc (unat (HRP_PMC_BUFFER_SIZE cfg)) (unat h) (unat t)
      | _ \<Rightarrow> 0)"

section \<open>Ring arithmetic\<close>

lemma length_ring_slice_cyc:
  "h < length xs \<Longrightarrow> t < length xs \<Longrightarrow> length (ring_slice xs h t) = cyc (length xs) h t"
  by (simp add: length_ring_slice cyc_def)

lemma cyc_self [simp]: "cyc n h h = 0"
  by (simp add: cyc_def)

lemma cyc_lt: "h < n \<Longrightarrow> t < n \<Longrightarrow> cyc n h t < n"
  by (auto simp: cyc_def)

lemma cyc_inj: "h < n \<Longrightarrow> t < n \<Longrightarrow> u < n \<Longrightarrow> cyc n h t = cyc n h u \<Longrightarrow> t = u"
  by (auto simp: cyc_def split: if_splits)

lemma cyc_next:
  "h < n \<Longrightarrow> t < n \<Longrightarrow> t' = (if t + 1 = n then 0 else t + 1) \<Longrightarrow> t' \<noteq> h \<Longrightarrow> cyc n h t' = cyc n h t + 1"
  by (auto simp: cyc_def split: if_splits)

lemma cyc_offset: "h < n \<Longrightarrow> i < n \<Longrightarrow> cyc n h ((h + i) mod n) = i"
  by (cases "h + i < n") (auto simp: cyc_def mod_if [of "h + i" n])

text \<open>Moving the origin forward to \<open>t\<close>.\<close>

lemma cyc_shift:
  "h < n \<Longrightarrow> t < n \<Longrightarrow> u < n \<Longrightarrow> cyc n h t \<le> cyc n h u \<Longrightarrow> cyc n t u = cyc n h u - cyc n h t"
  by (auto simp: cyc_def split: if_splits)

lemma ring_slice_split:
  assumes "h < length xs" "t < length xs" "u < length xs" "cyc (length xs) h t \<le> cyc (length xs) h u"
  shows "ring_slice xs h u = ring_slice xs h t @ ring_slice xs t u"
proof -
  have take_split: "take (c - a) (drop a ys) = take (b - a) (drop a ys) @ take (c - b) (drop b ys)"
    if "a \<le> b" "b \<le> c" for a b c and ys :: "'a list"
  proof -
    have "take (c - a) (drop a ys) = take (b - a) (drop a ys) @ take (c - a - (b - a)) (drop (b - a) (drop a ys))"
      using take_add [of "b - a" "c - b" "drop a ys"] that by simp
    then show ?thesis using that by simp
  qed
  have drop_split: "drop a ys = take (b - a) (drop a ys) @ drop b ys"
    if "a \<le> b" for a b and ys :: "'a list"
    using that append_take_drop_id [of "b - a" "drop a ys"] by simp
  consider "h \<le> t" "t \<le> u" | "h \<le> t" "u < h" | "t < h" "t \<le> u" "u < h"
    using assms by (auto simp: cyc_def split: if_splits)
  then show ?thesis
  proof cases
    case 1
    then show ?thesis using take_split [of h t u xs] by (simp add: ring_slice_def)
  next
    case 2
    then show ?thesis using drop_split [of h t xs] by (auto simp: ring_slice_def)
  next
    case 3
    then show ?thesis using take_split [of 0 t u xs] by (simp add: ring_slice_def)
  qed
qed

lemma ring_slice_nth:
  assumes "h < length xs" "t < length xs" "i < cyc (length xs) h t"
  shows "ring_slice xs h t ! i = xs ! ((h + i) mod length xs)"
proof (cases "h \<le> t")
  case True
  with assms show ?thesis by (simp add: ring_slice_def cyc_def)
next
  case False
  show ?thesis
  proof (cases "h + i < length xs")
    case True
    then have "i < length xs - h" by arith
    with True False show ?thesis by (simp add: ring_slice_def nth_append)
  next
    case wrapped: False
    have i: "i < length xs - h + t" using False assms(3) by (simp add: cyc_def)
    have "(h + i) mod length xs = i - (length xs - h)"
      using wrapped i assms(1,2) by (subst mod_if) (auto simp: mod_less)
    moreover have "\<not> i < length xs - h" "i - (length xs - h) < t" using wrapped i assms(1) by arith+
    ultimately show ?thesis using False by (simp add: ring_slice_def nth_append)
  qed
qed

text \<open>A store at or beyond the end of a slice does not touch it.\<close>

lemma ring_slice_update:
  assumes "h < length xs" "t < length xs" "u < length xs" "cyc (length xs) h t \<le> cyc (length xs) h u"
  shows "ring_slice (xs[u := e]) h t = ring_slice xs h t"
  using assms by (auto simp: ring_slice_def cyc_def drop_update_swap split: if_splits)

section \<open>The invariant\<close>

definition p_inv :: "hrp_config \<Rightarrow> spsc \<Rightarrow> bool" where
  "p_inv cfg s =
     (let rb = sh_rb s; ok = (\<lambda>nt. nt = (tail rb + 1) mod HRP_PMC_BUFFER_SIZE cfg \<and> nt \<noteq> head rb) in
      case p_pc s of
        PIdle \<Rightarrow> True
      | PChecked e nt \<Rightarrow> ok nt
      | PStored e nt \<Rightarrow> ok nt \<and> slots rb ! unat (tail rb) = e)"

text \<open>The locals \<open>h\<close> and \<open>t\<close> delimit a part of what is buffered.\<close>

definition range_ok :: "hrp_config \<Rightarrow> HrperfRingBuffer \<Rightarrow> u32 \<Rightarrow> u32 \<Rightarrow> bool" where
  "range_ok cfg rb h t \<longleftrightarrow> h = head rb \<and> t < HRP_PMC_BUFFER_SIZE cfg \<and> h \<noteq> t \<and>
     cyc (unat (HRP_PMC_BUFFER_SIZE cfg)) (unat h) (unat t)
       \<le> cyc (unat (HRP_PMC_BUFFER_SIZE cfg)) (unat h) (unat (tail rb))"

text \<open>The second write, if there is one, starts where the array ends.\<close>

definition writing_ok :: "hrp_config \<Rightarrow> HrperfRingBuffer \<Rightarrow> u32 \<Rightarrow> u32 \<Rightarrow> nat \<Rightarrow> HrperfLogEntry list \<Rightarrow> bool" where
  "writing_ok cfg rb h t k acc \<longleftrightarrow>
     (let n = unat (HRP_PMC_BUFFER_SIZE cfg) in
      (k = 0 \<or> t < h \<and> 0 < t \<and> k = n - unat h) \<and> k + length acc \<le> write_end n (unat h) (unat t) k \<and>
      take (length acc) (drop k (ring_slice (slots rb) (unat h) (unat t))) = acc)"

definition c_inv :: "hrp_config \<Rightarrow> spsc \<Rightarrow> bool" where
  "c_inv cfg s =
     (let rb = sh_rb s in
      case c_pc s of
        CIdle \<Rightarrow> True
      | CHead h \<Rightarrow> h = head rb
      | CWrite h t k acc \<Rightarrow> range_ok cfg rb h t \<and> writing_ok cfg rb h t k acc
      | CStore h t \<Rightarrow> range_ok cfg rb h t)"

definition spsc_inv :: "hrp_config \<Rightarrow> spsc \<Rightarrow> bool" where
  "spsc_inv cfg s \<longleftrightarrow> rb_wf cfg (sh_rb s) \<and> p_inv cfg s \<and> c_inv cfg s \<and>
     published s = concat (handed s) @ drop (in_flight cfg s) (rb_list (sh_rb s))"

lemma rb_wf_nat:
  assumes "rb_wf cfg rb"
  shows "unat (head rb) < unat (HRP_PMC_BUFFER_SIZE cfg)" "unat (tail rb) < unat (HRP_PMC_BUFFER_SIZE cfg)"
    "length (slots rb) = unat (HRP_PMC_BUFFER_SIZE cfg)" "tail rb < HRP_PMC_BUFFER_SIZE cfg"
  using assms by (auto simp: rb_wf_def word_less_nat_alt)

text \<open>The slot after the tail lies one entry beyond the buffered region, unless the buffer is full.\<close>

lemma cyc_next_tail:
  assumes "rb_wf cfg rb" and "nt = (tail rb + 1) mod HRP_PMC_BUFFER_SIZE cfg" and "nt \<noteq> head rb"
  shows "cyc (unat (HRP_PMC_BUFFER_SIZE cfg)) (unat (head rb)) (unat nt) =
         cyc (unat (HRP_PMC_BUFFER_SIZE cfg)) (unat (head rb)) (unat (tail rb)) + 1"
    and "unat nt < unat (HRP_PMC_BUFFER_SIZE cfg)"
proof -
  note wf = rb_wf_nat [OF assms(1)]
  have nt: "unat nt = (if unat (tail rb) + 1 = unat (HRP_PMC_BUFFER_SIZE cfg) then 0 else unat (tail rb) + 1)"
    using next_index [OF wf(4)] assms(2) by simp
  moreover have "unat nt \<noteq> unat (head rb)" using assms(3) by (simp add: word_unat_eq_iff)
  ultimately show "cyc (unat (HRP_PMC_BUFFER_SIZE cfg)) (unat (head rb)) (unat nt) =
         cyc (unat (HRP_PMC_BUFFER_SIZE cfg)) (unat (head rb)) (unat (tail rb)) + 1"
    by (intro cyc_next [OF wf(1,2)])
  show "unat nt < unat (HRP_PMC_BUFFER_SIZE cfg)" using nt wf by (auto split: if_splits)
qed

lemma write_end_le: "h < n \<Longrightarrow> h \<noteq> t \<Longrightarrow> write_end n h t k \<le> cyc n h t"
  by (auto simp: write_end_def cyc_def)

lemma length_rb_list:
  "rb_wf cfg rb \<Longrightarrow> length (rb_list rb) = cyc (unat (HRP_PMC_BUFFER_SIZE cfg)) (unat (head rb)) (unat (tail rb))"
  using rb_wf_nat [of cfg rb] length_ring_slice_cyc [of "unat (head rb)" "slots rb" "unat (tail rb)"] by (simp add: rb_list_def)

lemma in_flight_le:
  assumes "rb_wf cfg (sh_rb s)" and "c_inv cfg s"
  shows "in_flight cfg s \<le> length (rb_list (sh_rb s))"
proof -
  let ?n = "unat (HRP_PMC_BUFFER_SIZE cfg)" and ?rb = "sh_rb s"
  have "k \<le> cyc ?n (unat h) (unat t)" if "range_ok cfg ?rb h t" "writing_ok cfg ?rb h t k acc" for h t k acc
    using that write_end_le [of "unat h" ?n "unat t" k] rb_wf_nat [OF assms(1)]
    by (auto simp: range_ok_def writing_ok_def Let_def word_unat_eq_iff)
  then show ?thesis
    using assms(2) unfolding length_rb_list [OF assms(1)] in_flight_def c_inv_def Let_def
    by (auto simp: range_ok_def split: consumer_pc.splits intro: order.trans)
qed

lemma store_keeps_inv:
  assumes "spsc_inv cfg s" and "p_pc s = PChecked e nt"
  shows "spsc_inv cfg
    (s\<lparr>sh_rb := (sh_rb s)\<lparr>slots := (slots (sh_rb s))[unat (tail (sh_rb s)) := e]\<rparr>, p_pc := PStored e nt\<rparr>)"
proof -
  let ?rb = "sh_rb s"
  have wf: "rb_wf cfg ?rb" using assms(1) by (simp add: spsc_inv_def)
  note n = rb_wf_nat [OF wf]
  have keep: "ring_slice ((slots ?rb)[unat (tail ?rb) := e]) (unat (head ?rb)) t = ring_slice (slots ?rb) (unat (head ?rb)) t"
    if "t < length (slots ?rb)"
      "cyc (length (slots ?rb)) (unat (head ?rb)) t \<le> cyc (length (slots ?rb)) (unat (head ?rb)) (unat (tail ?rb))" for t
    using that n by (intro ring_slice_update) auto
  have c: "c_inv cfg (s\<lparr>sh_rb := ?rb\<lparr>slots := (slots ?rb)[unat (tail ?rb) := e]\<rparr>, p_pc := PStored e nt\<rparr>)"
    using assms(1) n keep
    by (auto simp: spsc_inv_def c_inv_def range_ok_def writing_ok_def Let_def word_less_nat_alt split: consumer_pc.splits)
  show ?thesis
    using assms wf c n keep [of "unat (tail ?rb)"]
    by (auto simp: spsc_inv_def p_inv_def rb_wf_def rb_list_def in_flight_def Let_def)
qed

lemma publish_keeps_inv:
  assumes "spsc_inv cfg s" and "p_pc s = PStored e nt"
  shows "spsc_inv cfg (s\<lparr>sh_rb := (sh_rb s)\<lparr>tail := nt\<rparr>, p_pc := PIdle, published := published s @ [e]\<rparr>)"
proof -
  let ?rb = "sh_rb s"
  have wf: "rb_wf cfg ?rb" using assms(1) by (simp add: spsc_inv_def)
  note n = rb_wf_nat [OF wf]
  have nt: "nt = (tail ?rb + 1) mod HRP_PMC_BUFFER_SIZE cfg" "nt \<noteq> head ?rb" "slots ?rb ! unat (tail ?rb) = e"
    using assms by (auto simp: spsc_inv_def p_inv_def Let_def)
  note nxt = cyc_next_tail [OF wf nt(1,2)]
  have "ring_slice ((slots ?rb)[unat (tail ?rb) := e]) (unat (head ?rb)) (unat nt) = rb_list ?rb @ [e]"
    unfolding rb_list_def
    using n nt next_index [OF n(4)] by (intro ring_slice_snoc) (auto simp: word_unat_eq_iff)
  then have l: "rb_list (?rb\<lparr>tail := nt\<rparr>) = rb_list ?rb @ [e]"
    unfolding nt(3) [symmetric] list_update_id by (simp add: rb_list_def)
  have "c_inv cfg (s\<lparr>sh_rb := ?rb\<lparr>tail := nt\<rparr>, p_pc := PIdle, published := published s @ [e]\<rparr>)"
    using assms(1) nxt(1) by (auto simp: spsc_inv_def c_inv_def range_ok_def writing_ok_def Let_def split: consumer_pc.splits)
  moreover have "in_flight cfg s \<le> length (rb_list ?rb)" using in_flight_le assms(1) by (simp add: spsc_inv_def)
  ultimately show ?thesis
    using assms(1) wf nxt(2) l by (simp add: spsc_inv_def p_inv_def rb_wf_def word_less_nat_alt in_flight_def)
qed

lemma producer_keeps_inv: "producer_step cfg s t \<Longrightarrow> spsc_inv cfg s \<Longrightarrow> spsc_inv cfg t"
proof (induction rule: producer_step.induct)
  case (p_check s nt e)
  then show ?case by (auto simp: spsc_inv_def p_inv_def c_inv_def in_flight_def Let_def split: consumer_pc.splits)
qed (auto intro: store_keeps_inv publish_keeps_inv)

text \<open>What is copied is what is buffered.\<close>

lemma copied_buffered:
  assumes "rb_wf cfg rb" and "range_ok cfg rb h t"
  shows "length (ring_slice (slots rb) (unat h) (unat t)) = cyc (unat (HRP_PMC_BUFFER_SIZE cfg)) (unat h) (unat t)"
    and "rb_list rb = ring_slice (slots rb) (unat h) (unat t) @ rb_list (rb\<lparr>head := t\<rparr>)"
proof -
  note n = rb_wf_nat [OF assms(1)]
  have t: "unat t < unat (HRP_PMC_BUFFER_SIZE cfg)" "h = head rb"
    using assms(2) by (simp_all add: range_ok_def word_less_nat_alt)
  then show "length (ring_slice (slots rb) (unat h) (unat t)) = cyc (unat (HRP_PMC_BUFFER_SIZE cfg)) (unat h) (unat t)"
    using n by (simp add: length_ring_slice_cyc)
  show "rb_list rb = ring_slice (slots rb) (unat h) (unat t) @ rb_list (rb\<lparr>head := t\<rparr>)"
    using ring_slice_split [of "unat h" "slots rb" "unat t" "unat (tail rb)"] n t assms(2) by (simp add: rb_list_def range_ok_def)
qed

lemma copy_keeps_inv:
  assumes "spsc_inv cfg s" and "c_pc s = CWrite h t k acc"
    and "k + length acc < write_end (unat (HRP_PMC_BUFFER_SIZE cfg)) (unat h) (unat t) k"
  shows "spsc_inv cfg (s\<lparr>c_pc := CWrite h t k (acc @
    [slots (sh_rb s) ! ((unat h + k + length acc) mod unat (HRP_PMC_BUFFER_SIZE cfg))])\<rparr>)"
proof -
  let ?rb = "sh_rb s" and ?n = "unat (HRP_PMC_BUFFER_SIZE cfg)"
  let ?x = "slots ?rb ! ((unat h + k + length acc) mod ?n)" and ?r = "ring_slice (slots ?rb) (unat h) (unat t)"
  have c: "rb_wf cfg ?rb" "range_ok cfg ?rb h t" "writing_ok cfg ?rb h t k acc"
    using assms(1,2) by (simp_all add: spsc_inv_def c_inv_def Let_def)
  note n = rb_wf_nat [OF c(1)]
  have h: "unat h < ?n" "unat h \<noteq> unat t" "unat t < ?n" using c(2) n by (simp_all add: range_ok_def word_less_nat_alt word_unat_eq_iff)
  have lt: "k + length acc < cyc ?n (unat h) (unat t)" using assms(3) write_end_le [OF h(1,2)] less_le_trans by blast
  then have "?r ! (k + length acc) = ?x" using ring_slice_nth [of "unat h" "slots ?rb" "unat t"] h n by (simp add: add.assoc)
  then have "take (length (acc @ [?x])) (drop k ?r) = acc @ [?x]"
    using lt c(3) copied_buffered(1) [OF c(1,2)] by (simp add: take_Suc_conv_app_nth writing_ok_def Let_def)
  then show ?thesis
    using assms c by (simp add: spsc_inv_def p_inv_def c_inv_def writing_ok_def in_flight_def Let_def)
qed

lemma write_end_last:
  "\<not> (t < h \<and> k = 0 \<and> 0 < t) \<Longrightarrow> h \<noteq> t \<Longrightarrow> k = 0 \<or> t < h \<Longrightarrow> h < n \<Longrightarrow> write_end n h t k = cyc n h t"
  by (auto simp: write_end_def cyc_def)

lemma write_keeps_inv:
  assumes "spsc_inv cfg s" and "c_pc s = CWrite h t k acc"
    and "k + length acc = write_end (unat (HRP_PMC_BUFFER_SIZE cfg)) (unat h) (unat t) k"
  shows "spsc_inv cfg (s\<lparr>c_pc := (if t < h \<and> k = 0 \<and> 0 < t then CWrite h t (k + length acc) [] else CStore h t),
    handed := handed s @ [acc]\<rparr>)"
proof -
  let ?rb = "sh_rb s" and ?n = "unat (HRP_PMC_BUFFER_SIZE cfg)" and ?more = "t < h \<and> k = 0 \<and> 0 < t"
  let ?s = "s\<lparr>c_pc := (if ?more then CWrite h t (k + length acc) [] else CStore h t), handed := handed s @ [acc]\<rparr>"
  let ?r = "ring_slice (slots ?rb) (unat h) (unat t)"
  have c: "rb_wf cfg ?rb" "range_ok cfg ?rb h t" "writing_ok cfg ?rb h t k acc"
    using assms(1,2) by (simp_all add: spsc_inv_def c_inv_def Let_def)
  note n = rb_wf_nat [OF c(1)] and r = copied_buffered [OF c(1,2)]
  have h: "unat h < ?n" "unat h \<noteq> unat t" using c(2) n by (simp_all add: range_ok_def word_unat_eq_iff)
  have "k + length acc \<le> length ?r" using assms(3) write_end_le [OF h(1,2)] by (simp add: r(1))
  moreover have "acc = take (length acc) (drop k ?r)" using c(3) by (simp add: writing_ok_def Let_def)
  ultimately have rest: "drop k (rb_list ?rb) = acc @ drop (k + length acc) (rb_list ?rb)"
    using r(2) append_take_drop_id [of "length acc" "drop k ?r"] by (simp add: add.commute)
  have last: "k + length acc = cyc ?n (unat h) (unat t)" if "\<not> ?more"
    using assms(3) write_end_last [of "unat t" "unat h" k ?n] h that c(3)
    by (auto simp: writing_ok_def Let_def word_less_nat_alt)
  have "in_flight cfg ?s = k + length acc" using last by (simp add: in_flight_def)
  moreover have "c_inv cfg ?s"
    using c assms(3) h by (auto simp: c_inv_def writing_ok_def write_end_def Let_def word_less_nat_alt)
  ultimately show ?thesis
    using assms(1,2) rest by (simp add: spsc_inv_def p_inv_def in_flight_def Let_def)
qed

lemma retire_keeps_inv:
  assumes "spsc_inv cfg s" and "c_pc s = CStore h t"
  shows "spsc_inv cfg (s\<lparr>sh_rb := (sh_rb s)\<lparr>head := t\<rparr>, c_pc := CIdle\<rparr>)"
proof -
  let ?rb = "sh_rb s"
  have c: "rb_wf cfg ?rb" "range_ok cfg ?rb h t" using assms by (simp_all add: spsc_inv_def c_inv_def Let_def)
  have "drop (in_flight cfg s) (rb_list ?rb) = rb_list (?rb\<lparr>head := t\<rparr>)"
    using copied_buffered [OF c] assms(2) by (simp add: in_flight_def)
  moreover have "nt \<noteq> t" if "nt = (tail ?rb + 1) mod HRP_PMC_BUFFER_SIZE cfg" "nt \<noteq> head ?rb" for nt
    using cyc_next_tail [OF c(1) that] c(2) by (auto simp: range_ok_def)
  ultimately show ?thesis
    using assms(1) c
    by (auto simp: spsc_inv_def p_inv_def c_inv_def rb_wf_def range_ok_def in_flight_def Let_def split: producer_pc.splits)
qed

lemma p_inv_consumer [simp]: "p_inv cfg (s\<lparr>c_pc := p\<rparr>) = p_inv cfg s"
  by (simp add: p_inv_def)

lemma consumer_keeps_inv:
  assumes "consumer_step cfg kw (s, f) (t, g)" and "spsc_inv cfg s"
  shows "spsc_inv cfg t"
  using assms(1)
proof cases
  case (c_tail h)
  then show ?thesis
    using assms(2) by (simp add: spsc_inv_def c_inv_def range_ok_def writing_ok_def rb_wf_def in_flight_def Let_def)
next
  case (c_copy h u k acc)
  then show ?thesis using copy_keeps_inv [OF assms(2)] by simp
next
  case (c_write h u k acc)
  then show ?thesis using write_keeps_inv [OF assms(2)] by simp
next
  case (c_publish h u)
  then show ?thesis using retire_keeps_inv [OF assms(2)] by simp
qed (use assms(2) in \<open>simp_all add: spsc_inv_def c_inv_def in_flight_def Let_def\<close>)

lemma consumer_file: "consumer_step cfg kw (s, f) (t, g) \<Longrightarrow> \<exists>cs. handed t = handed s @ cs \<and> g = writes cfg kw cs f"
  by (erule consumer_stepE) (force simp: writes_fold)+

lemma writes_append: "writes cfg kw (cs @ ds) f = writes cfg kw ds (writes cfg kw cs f)"
  by (simp add: writes_def)

lemma reach_inv: "spsc_reach cfg kw f\<^sub>0 s f \<Longrightarrow> spsc_inv cfg s \<and> f = writes cfg kw (handed s) f\<^sub>0"
proof (induction rule: spsc_reach.induct)
  case (start rb s)
  then show ?case by (simp add: spsc_init_def spsc_inv_def p_inv_def c_inv_def in_flight_def writes_def)
next
  case (producer s f t)
  have "handed t = handed s" using producer.hyps(2) by (cases rule: producer_step.cases) simp_all
  then show ?case using producer producer_keeps_inv by simp
next
  case (consumer s f t g)
  then show ?case using consumer_keeps_inv consumer_file [OF consumer.hyps(2)] by (auto simp: writes_append)
qed

section \<open>The steps run the operations\<close>

text \<open>Without interference the producer's steps are one call of \<open>enqueue\<close>.\<close>

lemma producer_run_is_enqueue:
  assumes "rb_wf cfg (sh_rb s)" and "p_pc s = PIdle"
  shows "\<exists>t. (producer_step cfg)\<^sup>*\<^sup>* s t \<and> enqueue cfg (sh_rb s) e = Inr (sh_rb t) \<and> p_pc t = PIdle"
proof (cases "(tail (sh_rb s) + 1) mod HRP_PMC_BUFFER_SIZE cfg = head (sh_rb s)")
  case True
  then show ?thesis using assms by (intro exI [of _ s]) (simp add: enqueue_def)
next
  case False
  let ?nt = "(tail (sh_rb s) + 1) mod HRP_PMC_BUFFER_SIZE cfg"
  let ?s1 = "s\<lparr>p_pc := PChecked e ?nt\<rparr>"
  let ?s2 = "?s1\<lparr>sh_rb := (sh_rb s)\<lparr>slots := (slots (sh_rb s))[unat (tail (sh_rb s)) := e]\<rparr>, p_pc := PStored e ?nt\<rparr>"
  let ?s3 = "?s2\<lparr>sh_rb := (sh_rb ?s2)\<lparr>tail := ?nt\<rparr>, p_pc := PIdle, published := published s @ [e]\<rparr>"
  have "producer_step cfg s ?s1" using assms(2) False by (intro p_check) auto
  moreover have "producer_step cfg ?s1 ?s2" using p_store [of ?s1 e ?nt cfg] by simp
  moreover have "producer_step cfg ?s2 ?s3" using p_publish [of ?s2 e ?nt cfg] by simp
  ultimately have "(producer_step cfg)\<^sup>*\<^sup>* s ?s3" by (meson converse_rtranclp_into_rtranclp rtranclp.rtrancl_refl)
  moreover have "enqueue cfg (sh_rb s) e = Inr (sh_rb ?s3)"
    using assms(1) False rb_wf_nat [OF assms(1)] by (simp add: enqueue_def rb_wf_def)
  ultimately show ?thesis by (intro exI [of _ ?s3]) simp
qed

text \<open>
  Without interference the consumer's steps are one call of \<open>log_and_clear\<close>, with the same calls of
  \<open>kernel_write\<close>.
\<close>

lemma copy_run:
  assumes "c_pc s = CWrite h t k acc"
    and "k + length acc + m \<le> write_end (unat (HRP_PMC_BUFFER_SIZE cfg)) (unat h) (unat t) k"
  shows "(consumer_step cfg kw)\<^sup>*\<^sup>* (s, f) (s\<lparr>c_pc := CWrite h t k (acc @
    map (\<lambda>i. slots (sh_rb s) ! ((unat h + k + i) mod unat (HRP_PMC_BUFFER_SIZE cfg))) [length acc..<length acc + m])\<rparr>, f)"
  using assms
proof (induction m arbitrary: s acc)
  case 0
  then have "s\<lparr>c_pc := CWrite h t k acc\<rparr> = s" by simp
  then show ?case by simp
next
  case (Suc m)
  let ?x = "slots (sh_rb s) ! ((unat h + k + length acc) mod unat (HRP_PMC_BUFFER_SIZE cfg))"
  let ?s = "s\<lparr>c_pc := CWrite h t k (acc @ [?x])\<rparr>"
  have "consumer_step cfg kw (s, f) (?s, f)" using c_copy [OF Suc.prems(1), of cfg kw f] Suc.prems(2) by simp
  moreover have "(consumer_step cfg kw)\<^sup>*\<^sup>* (?s, f) (s\<lparr>c_pc := CWrite h t k (acc @ ?x #
      map (\<lambda>i. slots (sh_rb s) ! ((unat h + k + i) mod unat (HRP_PMC_BUFFER_SIZE cfg))) [Suc (length acc)..<Suc (length acc) + m])\<rparr>, f)"
    using Suc.IH [of ?s "acc @ [?x]"] Suc.prems(2) by simp
  moreover have "[length acc..<length acc + Suc m] = length acc # [Suc (length acc)..<Suc (length acc) + m]"
    by (simp add: upt_conv_Cons del: upt_Suc)
  ultimately show ?case by (simp add: converse_rtranclp_into_rtranclp)
qed

lemma write_run:
  assumes "c_pc s = CWrite h t k []" and "k \<le> write_end (unat (HRP_PMC_BUFFER_SIZE cfg)) (unat h) (unat t) k"
    and "chunk = map (\<lambda>i. slots (sh_rb s) ! ((unat h + k + i) mod unat (HRP_PMC_BUFFER_SIZE cfg)))
      [0..<write_end (unat (HRP_PMC_BUFFER_SIZE cfg)) (unat h) (unat t) k - k]"
  shows "(consumer_step cfg kw)\<^sup>*\<^sup>* (s, f)
    (s\<lparr>c_pc := (if t < h \<and> k = 0 \<and> 0 < t then CWrite h t (k + length chunk) [] else CStore h t),
       handed := handed s @ [chunk]\<rparr>, put_entries cfg kw chunk f)"
proof -
  let ?e = "write_end (unat (HRP_PMC_BUFFER_SIZE cfg)) (unat h) (unat t) k"
  have "(consumer_step cfg kw)\<^sup>*\<^sup>* (s, f) (s\<lparr>c_pc := CWrite h t k chunk\<rparr>, f)"
    using copy_run [OF assms(1), of "?e - k" cfg kw f] assms(2,3) by simp
  moreover have "k + length chunk = ?e" using assms(2,3) by simp
  ultimately show ?thesis
    using c_write [of "s\<lparr>c_pc := CWrite h t k chunk\<rparr>" h t k chunk cfg kw f] by (simp add: rtranclp.rtrancl_into_rtrancl)
qed

lemma map_nth_slice:
  "a + m \<le> length xs \<Longrightarrow> map (\<lambda>i. xs ! ((a + i) mod length xs)) [0..<m] = take m (drop a xs)"
  by (rule nth_equalityI) auto

lemma map_nth_wrapped:
  "m < length xs \<Longrightarrow> map (\<lambda>i. xs ! ((length xs + i) mod length xs)) [0..<m] = take m xs"
  by (rule nth_equalityI) auto

lemma consumer_run_is_log_and_clear:
  assumes "rb_wf cfg (sh_rb s)" and "c_pc s = CIdle"
  shows "\<exists>t g. (consumer_step cfg kw)\<^sup>*\<^sup>* (s, f) (t, g) \<and> log_and_clear cfg kw (sh_rb s) (Some f) = Inr (sh_rb t, Some g) \<and>
    c_pc t = CIdle \<and> handed t = handed s @ drain_chunks (sh_rb s)"
proof -
  let ?rb = "sh_rb s" and ?n = "unat (HRP_PMC_BUFFER_SIZE cfg)"
  let ?s = "\<lambda>p cs. s\<lparr>c_pc := p, handed := handed s @ cs\<rparr>" and ?w = "\<lambda>cs. writes cfg kw cs f"
  note n = rb_wf_nat [OF assms(1)]
  have first: "(consumer_step cfg kw)\<^sup>*\<^sup>* (s, f) (?s (CHead (head ?rb)) [], f)" using c_head [OF assms(2), of cfg kw f] by (simp add: r_into_rtranclp)
  have last: "consumer_step cfg kw (?s (CStore h t) cs, g) (s\<lparr>handed := handed s @ cs, sh_rb := ?rb\<lparr>head := t\<rparr>, c_pc := CIdle\<rparr>, g)" for h t cs g
    using c_publish [of "?s (CStore h t) cs" h t cfg kw g] by simp
  have tail: "(consumer_step cfg kw)\<^sup>*\<^sup>* (s, f) (?s (CWrite (head ?rb) (tail ?rb) 0 []) [], f)" if "head ?rb \<noteq> tail ?rb"
    using rtranclp.rtrancl_into_rtrancl [OF first c_tail] that by simp
  have "\<exists>u. (consumer_step cfg kw)\<^sup>*\<^sup>* (s, f) (u, ?w (drain_chunks ?rb)) \<and> sh_rb u = ?rb\<lparr>head := tail ?rb\<rparr> \<and>
      c_pc u = CIdle \<and> handed u = handed s @ drain_chunks ?rb"
  proof (cases "head ?rb = tail ?rb")
    case True
    then have "(consumer_step cfg kw)\<^sup>*\<^sup>* (s, f) (?s CIdle [], f)"
      using rtranclp.rtrancl_into_rtrancl [OF first c_empty, of "head ?rb"] by simp
    then show ?thesis using True by (intro exI [of _ "?s CIdle []"]) (simp add: drain_chunks_def writes_def)
  next
    case ne: False
    let ?h = "head ?rb" and ?t = "tail ?rb"
    have "(consumer_step cfg kw)\<^sup>*\<^sup>* (s, f) (?s (CStore ?h ?t) (drain_chunks ?rb), ?w (drain_chunks ?rb))"
    proof (cases "?h < ?t")
      case True
      then have e: "write_end ?n (unat ?h) (unat ?t) 0 = unat ?t - unat ?h" "unat ?h < unat ?t" "\<not> ?t < ?h"
        by (auto simp: write_end_def word_less_nat_alt)
      show ?thesis
        using rtranclp_trans [OF tail [OF ne] write_run [OF _ _ refl]] e n map_nth_slice [of "unat ?h" "unat ?t - unat ?h" "slots ?rb"]
        by (simp add: drain_chunks_def writes_fold Let_def)
    next
      case False
      then have e: "write_end ?n (unat ?h) (unat ?t) 0 = ?n - unat ?h" "unat ?t < unat ?h" "?t < ?h" "\<not> unat ?h < unat ?t"
        using ne by (auto simp: write_end_def word_less_nat_alt word_unat_eq_iff)
      let ?c1 = "drop (unat ?h) (slots ?rb)"
      have one: "(consumer_step cfg kw)\<^sup>*\<^sup>* (s, f) (?s (if 0 < ?t then CWrite ?h ?t (?n - unat ?h) [] else CStore ?h ?t) [?c1], ?w [?c1])"
        using rtranclp_trans [OF tail [OF ne] write_run [OF _ _ refl]] e n map_nth_slice [of "unat ?h" "?n - unat ?h" "slots ?rb"]
        by (simp add: writes_fold split: if_splits)
      show ?thesis
      proof (cases "0 < ?t")
        case False
        then show ?thesis using one e ne by (simp add: drain_chunks_def Let_def word_less_nat_alt)
      next
        case True
        have k: "write_end ?n (unat ?h) (unat ?t) (?n - unat ?h) = ?n - unat ?h + unat ?t" "unat ?h + (?n - unat ?h) = length (slots ?rb)"
          "?n - unat ?h \<noteq> 0"
          using e n by (auto simp: write_end_def)
        show ?thesis
          using rtranclp_trans [OF one write_run [OF _ _ refl]] True e k n map_nth_wrapped [of "unat ?t" "slots ?rb"]
          by (simp add: drain_chunks_def writes_fold Let_def word_less_nat_alt)
      qed
    qed
    from rtranclp.rtrancl_into_rtrancl [OF this last] show ?thesis
      by (intro exI [of _ "s\<lparr>handed := handed s @ drain_chunks ?rb, sh_rb := ?rb\<lparr>head := ?t\<rparr>, c_pc := CIdle\<rparr>"]) simp
  qed
  then show ?thesis using log_and_clear_eq [OF assms(1), of kw f] by auto
qed

section \<open>Properties\<close>

text \<open>
  C5. Under every interleaving of the producer's and the consumer's memory accesses, and whatever
  \<open>kernel_write\<close> does, the entries published so far are the entries handed to \<open>kernel_write\<close> so far,
  followed by the entries of the buffer that were not yet handed over: no entry is skipped, handed over
  twice, reordered or torn. The file is what these calls made of it: with a \<open>kernel_write\<close> that appends,
  it has grown by exactly the bytes of the entries handed over; with one that fails, it has not changed
  and all of these entries are lost.
\<close>

theorem spsc_fifo:
  assumes "spsc_reach cfg kw f\<^sub>0 s f"
  shows "published s = concat (handed s) @ drop (in_flight cfg s) (rb_list (sh_rb s)) \<and>
    in_flight cfg s \<le> length (rb_list (sh_rb s)) \<and> f = writes cfg kw (handed s) f\<^sub>0 \<and>
    (\<forall>contents. appends kw contents \<longrightarrow> contents f = contents f\<^sub>0 @ concat (map (entry_bytes cfg) (concat (handed s)))) \<and>
    ((\<forall>g bs. snd (kw g bs) = g) \<longrightarrow> f = f\<^sub>0)"
proof -
  have inv: "spsc_inv cfg s" and f: "f = writes cfg kw (handed s) f\<^sub>0" using reach_inv [OF assms] by simp_all
  have "writes cfg kw cs g = g" if "\<forall>g bs. snd (kw g bs) = g" for cs g using that by (induction cs) (simp_all add: writes_def)
  then show ?thesis using inv f in_flight_le [of cfg s] writes_appends [of kw _ cfg "handed s" f\<^sub>0] by (simp add: spsc_inv_def)
qed


section \<open>Witnesses\<close>

text \<open>
  A run on four slots that wraps around: the producer publishes an entry into the last slot, the
  consumer starts to copy it, the producer prepares the next store.
\<close>

definition spsc0 :: spsc where
  "spsc0 = \<lparr>sh_rb = rb4\<lparr>head := 3\<rparr>, p_pc = PIdle, c_pc = CIdle, published = [], handed = []\<rparr>"

definition spsc1 :: spsc where
  "spsc1 = spsc0\<lparr>sh_rb := rb4\<lparr>head := 3, tail := 0\<rparr>, published := [zero_entry]\<rparr>"

definition spsc2 :: spsc where
  "spsc2 = spsc1\<lparr>c_pc := CWrite 3 0 0 [], p_pc := PChecked zero_entry 1\<rparr>"

text \<open>The write is complete and the head not yet stored.\<close>

definition spsc3 :: spsc where
  "spsc3 = spsc1\<lparr>c_pc := CStore 3 0, handed := [[zero_entry]], p_pc := PChecked zero_entry 1\<rparr>"

lemma cfg4_size [simp]: "HRP_PMC_BUFFER_SIZE cfg4 = 4"
  by (simp add: cfg4_def)

lemma spsc1_steps:
  "producer_step cfg4 spsc0 (spsc0\<lparr>p_pc := PChecked zero_entry 0\<rparr>)"
  "producer_step cfg4 (spsc0\<lparr>p_pc := PChecked zero_entry 0\<rparr>) (spsc0\<lparr>p_pc := PStored zero_entry 0\<rparr>)"
  "producer_step cfg4 (spsc0\<lparr>p_pc := PStored zero_entry 0\<rparr>) spsc1"
proof -
  show "producer_step cfg4 spsc0 (spsc0\<lparr>p_pc := PChecked zero_entry 0\<rparr>)"
    by (rule p_check) (simp_all add: spsc0_def rb4_def)
  show "producer_step cfg4 (spsc0\<lparr>p_pc := PChecked zero_entry 0\<rparr>) (spsc0\<lparr>p_pc := PStored zero_entry 0\<rparr>)"
    using p_store [of "spsc0\<lparr>p_pc := PChecked zero_entry 0\<rparr>" zero_entry 0 cfg4]
      list_update_id [of "replicate 4 zero_entry" 3]
    by (simp add: spsc0_def rb4_def)
  show "producer_step cfg4 (spsc0\<lparr>p_pc := PStored zero_entry 0\<rparr>) spsc1"
    using p_publish [of "spsc0\<lparr>p_pc := PStored zero_entry 0\<rparr>" zero_entry 0 cfg4]
    by (simp add: spsc0_def spsc1_def)
qed

lemma spsc0_init: "spsc_init cfg4 (sh_rb spsc0) spsc0"
  by (simp add: spsc_init_def spsc0_def rb_wf_def rb_list_def ring_slice_def rb4_def)

lemma spsc1_reach: "spsc_reach cfg4 kw f spsc1 f"
  using spsc_reach.start [OF spsc0_init, of kw f] spsc1_steps by (blast intro: spsc_reach.producer)

lemma spsc2_reach: "spsc_reach cfg4 kw f spsc2 f"
proof -
  have "consumer_step cfg4 kw (spsc1, f) (spsc1\<lparr>c_pc := CHead 3\<rparr>, f)"
    using c_head [of spsc1 cfg4] by (simp add: spsc1_def spsc0_def)
  from spsc_reach.consumer [OF spsc1_reach this] have r1: "spsc_reach cfg4 kw f (spsc1\<lparr>c_pc := CHead 3\<rparr>) f" .
  have "consumer_step cfg4 kw (spsc1\<lparr>c_pc := CHead 3\<rparr>, f) (spsc1\<lparr>c_pc := CWrite 3 0 0 []\<rparr>, f)"
    using c_tail [of "spsc1\<lparr>c_pc := CHead 3\<rparr>" 3 cfg4] by (simp add: spsc1_def spsc0_def)
  from spsc_reach.consumer [OF r1 this] have r2: "spsc_reach cfg4 kw f (spsc1\<lparr>c_pc := CWrite 3 0 0 []\<rparr>) f" .
  have "producer_step cfg4 (spsc1\<lparr>c_pc := CWrite 3 0 0 []\<rparr>) spsc2"
    unfolding spsc2_def by (rule p_check) (simp_all add: spsc1_def spsc0_def)
  from spsc_reach.producer [OF r2 this] show ?thesis .
qed

lemma spsc3_reach: "spsc_reach cfg4 kw f spsc3 (put_entries cfg4 kw [zero_entry] f)"
proof -
  have "consumer_step cfg4 kw (spsc2, f) (spsc2\<lparr>c_pc := CWrite 3 0 0 [zero_entry]\<rparr>, f)"
    using c_copy [of spsc2 3 0 0 "[]" cfg4 kw f] by (simp add: spsc2_def spsc1_def rb4_def write_end_def)
  from spsc_reach.consumer [OF spsc2_reach this] have r: "spsc_reach cfg4 kw f (spsc2\<lparr>c_pc := CWrite 3 0 0 [zero_entry]\<rparr>) f" .
  have "consumer_step cfg4 kw (spsc2\<lparr>c_pc := CWrite 3 0 0 [zero_entry]\<rparr>, f) (spsc3, put_entries cfg4 kw [zero_entry] f)"
    using c_write [of "spsc2\<lparr>c_pc := CWrite 3 0 0 [zero_entry]\<rparr>" 3 0 0 "[zero_entry]" cfg4 kw f]
    by (simp add: spsc3_def spsc2_def spsc1_def spsc0_def write_end_def)
  from spsc_reach.consumer [OF r this] show ?thesis .
qed

theorem spsc_fifo_witness:
  "spsc_reach cfg4 mem_write [] spsc3 (entry_bytes cfg4 zero_entry) \<and>
   published spsc3 = [zero_entry] @ drop (in_flight cfg4 spsc3) (rb_list (sh_rb spsc3))"
  using spsc_fifo [OF spsc3_reach [of mem_write "[]"]] spsc3_reach [of mem_write "[]"]
  by (simp add: put_entries_def mem_write_def) (simp add: spsc3_def)


end
