(* ===== verification/Intel_Pmc.thy ===== *)
theory Intel_Pmc
  imports Kernel
begin

text \<open>
  Event selection for the core counters: the register addresses of \<open>src/src/intel_msr.h\<close>, the
  event encodings of \<open>src/src/intel_pmc.h\<close> (with the token pasting of \<open>config.h\<close>), and the
  two per-CPU set-up functions of \<open>src/src/hrperf.c\<close>. The lemmas show that every selected event
  counts in user and kernel mode, is enabled and never raises an interrupt, and that set-up leaves
  exactly the intended registers changed.
\<close>

section \<open>Registers (intel_msr.h)\<close>

definition MSR_IA32_FIXED_CTR_CTRL :: u32 where "MSR_IA32_FIXED_CTR_CTRL = 0x38d"
definition MSR_IA32_GLOBAL_CTRL :: u32 where "MSR_IA32_GLOBAL_CTRL = 0x38f"
definition MSR_IA32_FIXED_CTR0 :: u32 where "MSR_IA32_FIXED_CTR0 = 0x309"
definition MSR_IA32_FIXED_CTR1 :: u32 where "MSR_IA32_FIXED_CTR1 = 0x30a"
definition MSR_IA32_PERFEVTSEL0 :: u32 where "MSR_IA32_PERFEVTSEL0 = 0x186"
definition MSR_IA32_PERFEVTSEL1 :: u32 where "MSR_IA32_PERFEVTSEL1 = 0x187"
definition MSR_IA32_PERFEVTSEL2 :: u32 where "MSR_IA32_PERFEVTSEL2 = 0x188"
definition MSR_IA32_PERFEVTSEL3 :: u32 where "MSR_IA32_PERFEVTSEL3 = 0x189"
definition MSR_IA32_PMC0 :: u32 where "MSR_IA32_PMC0 = 0xc1"
definition MSR_IA32_PMC1 :: u32 where "MSR_IA32_PMC1 = 0xc2"
definition MSR_IA32_PMC2 :: u32 where "MSR_IA32_PMC2 = 0xc3"
definition MSR_IA32_PMC3 :: u32 where "MSR_IA32_PMC3 = 0xc4"
definition MSR_OFFCORE_RSP0 :: u32 where "MSR_OFFCORE_RSP0 = 0x1A6"
definition MSR_OFFCORE_RSP1 :: u32 where "MSR_OFFCORE_RSP1 = 0x1A7"

lemmas msr_defs =
  MSR_IA32_FIXED_CTR_CTRL_def MSR_IA32_GLOBAL_CTRL_def MSR_IA32_FIXED_CTR0_def
  MSR_IA32_FIXED_CTR1_def MSR_IA32_PERFEVTSEL0_def MSR_IA32_PERFEVTSEL1_def
  MSR_IA32_PERFEVTSEL2_def MSR_IA32_PERFEVTSEL3_def MSR_IA32_PMC0_def MSR_IA32_PMC1_def
  MSR_IA32_PMC2_def MSR_IA32_PMC3_def MSR_OFFCORE_RSP0_def MSR_OFFCORE_RSP1_def

section \<open>Event encodings (intel_pmc.h)\<close>

definition PMC_ESEL_ENTRY :: "u64 \<Rightarrow> u64 \<Rightarrow> u64 \<Rightarrow> u64" where
  "PMC_ESEL_ENTRY event umask cmask =
     (event AND 0xFF) OR push_bit 8 (umask AND 0xFF) OR push_bit 24 (cmask AND 0xFF)"

definition PMC_ESEL_USR :: u64 where "PMC_ESEL_USR = push_bit 16 1"
definition PMC_ESEL_OS :: u64 where "PMC_ESEL_OS = push_bit 17 1"
definition PMC_ESEL_ENABLE :: u64 where "PMC_ESEL_ENABLE = push_bit 22 1"

definition PMC_ARCH_LLC_MISSES :: u64 where "PMC_ARCH_LLC_MISSES = PMC_ESEL_ENTRY 0x2E 0x41 0"

text \<open>The non-architectural events, one encoding per microarchitecture.\<close>

datatype pmc_event =
    SW_PREFETCH_ANY | CYCLE_STALLS_MEM | STALLS_SB_ANY | STALLS_TOTAL
  | BOUND_ON_LOADS | BOUND_ON_STORES | STALLS_L1D_MISS | STALLS_L2_MISS | STALLS_L3_MISS
  | L2_HIT_LOAD | L2_HIT_RFO | L2_PREFETCH | L3_HIT_LOAD

fun pmc_entry :: "hrp_arch \<Rightarrow> pmc_event \<Rightarrow> u64" where
  "pmc_entry SKYLAKE SW_PREFETCH_ANY = PMC_ESEL_ENTRY 0x32 0x0F 0"
| "pmc_entry ICELAKE SW_PREFETCH_ANY = PMC_ESEL_ENTRY 0x32 0x0F 0"
| "pmc_entry SAPPHIRE SW_PREFETCH_ANY = PMC_ESEL_ENTRY 0x40 0x0F 0"
| "pmc_entry _ CYCLE_STALLS_MEM = PMC_ESEL_ENTRY 0xA3 0x14 0x14"
| "pmc_entry _ STALLS_SB_ANY = PMC_ESEL_ENTRY 0xA2 0x08 0"
| "pmc_entry _ STALLS_TOTAL = PMC_ESEL_ENTRY 0xA3 0x04 0x04"
| "pmc_entry _ BOUND_ON_LOADS = PMC_ESEL_ENTRY 0xA6 0x21 0x05"
| "pmc_entry _ BOUND_ON_STORES = PMC_ESEL_ENTRY 0xA6 0x40 0x02"
| "pmc_entry _ STALLS_L1D_MISS = PMC_ESEL_ENTRY 0xA3 0x0C 0x0C"
| "pmc_entry _ STALLS_L2_MISS = PMC_ESEL_ENTRY 0xA3 0x05 0x05"
| "pmc_entry _ STALLS_L3_MISS = PMC_ESEL_ENTRY 0xA3 0x06 0x06"
| "pmc_entry _ L2_HIT_LOAD = PMC_ESEL_ENTRY 0x24 0xC1 0"
| "pmc_entry _ L2_HIT_RFO = PMC_ESEL_ENTRY 0x24 0xC2 0"
| "pmc_entry _ L2_PREFETCH = PMC_ESEL_ENTRY 0x24 0xD8 0"
| "pmc_entry _ L3_HIT_LOAD = PMC_ESEL_ENTRY 0xD1 0x04 0"

text \<open>The \<open>_FINAL\<close> macros: the value put into an event select register.\<close>

definition esel_final :: "u64 \<Rightarrow> u64" where
  "esel_final e = e OR PMC_ESEL_USR OR PMC_ESEL_OS OR PMC_ESEL_ENABLE"

definition pmc_final :: "hrp_arch \<Rightarrow> pmc_event \<Rightarrow> u64" where
  "pmc_final arch ev = esel_final (pmc_entry arch ev)"

definition PMC_LLC_MISSES_FINAL :: u64 where
  "PMC_LLC_MISSES_FINAL = esel_final PMC_ARCH_LLC_MISSES"

text \<open>\<open>PMC_PASTE\<close> of \<open>config.h\<close> composes an event name with \<open>HRP_ARCH_NAME\<close>.\<close>

definition pmc_arch_final :: "hrp_config \<Rightarrow> pmc_event \<Rightarrow> u64" where
  "pmc_arch_final cfg ev = pmc_final (HRP_ARCH_NAME cfg) ev"

text \<open>
  The offcore events exist for Sapphire Rapids only; on another architecture the pasted name is
  not defined and the module does not compile.
\<close>

record offcore_sel =
  ocr_reads :: u64
  ocr_reads_rsp :: u64
  ocr_writes :: u64
  ocr_writes_rsp :: u64

definition offcore_events :: "hrp_config \<Rightarrow> offcore_sel option" where
  "offcore_events cfg =
     (case HRP_ARCH_NAME cfg of
        SAPPHIRE \<Rightarrow> Some \<lparr>
          ocr_reads = esel_final (PMC_ESEL_ENTRY 0x2A 0x01 0),
          ocr_reads_rsp = 0x000000073C004477,
          ocr_writes = esel_final (PMC_ESEL_ENTRY 0x2B 0x01 0),
          ocr_writes_rsp = (if HRP_USE_WRITE_EST cfg then 0x0000000FBFF80822 else 0x0000000000010808)\<rparr>
      | _ \<Rightarrow> None)"

section \<open>Per-CPU set-up (hrperf.c)\<close>

definition GLOBAL_CTRL_VALUE :: u64 where
  "GLOBAL_CTRL_VALUE =
     1 OR push_bit 1 1 OR push_bit 2 1 OR push_bit 3 1 OR push_bit 32 1 OR push_bit 33 1"

definition esel2 :: "hrp_config \<Rightarrow> u64" where
  "esel2 cfg =
     (if HRP_USE_BOUND_ON_LOADS cfg then pmc_arch_final cfg BOUND_ON_LOADS
      else if HRP_USE_COUNTER_COMBINATION cfg then pmc_arch_final cfg STALLS_L2_MISS
      else pmc_final SKYLAKE CYCLE_STALLS_MEM)"

definition esel3 :: "hrp_config \<Rightarrow> u64" where
  "esel3 cfg =
     (if HRP_USE_BOUND_ON_STORES cfg then pmc_arch_final cfg BOUND_ON_STORES
      else if HRP_USE_COUNTER_COMBINATION cfg then pmc_arch_final cfg STALLS_L3_MISS
      else pmc_arch_final cfg STALLS_SB_ANY)"

text \<open>The register writes of \<open>hrperf_pmc_enable_and_esel\<close>, in order, for each \<open>#if\<close> branch.\<close>

definition pmc_writes :: "hrp_config \<Rightarrow> (u32 \<times> u64) list option" where
  "pmc_writes cfg =
     (if HRP_USE_HIT_COUNTS cfg then Some
        [(MSR_IA32_FIXED_CTR_CTRL, 0x033),
         (MSR_IA32_GLOBAL_CTRL, GLOBAL_CTRL_VALUE),
         (MSR_IA32_PERFEVTSEL0, pmc_arch_final cfg L2_HIT_LOAD),
         (MSR_IA32_PERFEVTSEL1, pmc_arch_final cfg L2_HIT_RFO),
         (MSR_IA32_PERFEVTSEL2, pmc_arch_final cfg L2_PREFETCH),
         (MSR_IA32_PERFEVTSEL3, pmc_arch_final cfg L3_HIT_LOAD)]
      else if HRP_USE_OFFCORE cfg then
        (case offcore_events cfg of
           None \<Rightarrow> None
         | Some o' \<Rightarrow> Some
            [(MSR_IA32_FIXED_CTR_CTRL, 0x033),
             (MSR_IA32_GLOBAL_CTRL, GLOBAL_CTRL_VALUE),
             (MSR_IA32_PERFEVTSEL0,
                if HRP_USE_STALL_TOTAL cfg then pmc_arch_final cfg STALLS_TOTAL else ocr_reads o'),
             (MSR_OFFCORE_RSP0, ocr_reads_rsp o'),
             (MSR_IA32_PERFEVTSEL1,
                if HRP_USE_COUNTER_COMBINATION cfg then pmc_arch_final cfg STALLS_L1D_MISS
                else ocr_writes o'),
             (MSR_OFFCORE_RSP1, ocr_writes_rsp o'),
             (MSR_IA32_PERFEVTSEL2, esel2 cfg),
             (MSR_IA32_PERFEVTSEL3, esel3 cfg)])
      else Some
        [(MSR_IA32_FIXED_CTR_CTRL, 0x033),
         (MSR_IA32_GLOBAL_CTRL, GLOBAL_CTRL_VALUE),
         (MSR_IA32_PERFEVTSEL0,
            if HRP_USE_STALL_TOTAL cfg then pmc_arch_final cfg STALLS_TOTAL else PMC_LLC_MISSES_FINAL),
         (MSR_IA32_PERFEVTSEL1,
            if HRP_USE_COUNTER_COMBINATION cfg then pmc_arch_final cfg STALLS_L1D_MISS
            else pmc_arch_final cfg SW_PREFETCH_ANY),
         (MSR_IA32_PERFEVTSEL2, esel2 cfg),
         (MSR_IA32_PERFEVTSEL3, esel3 cfg)])"

fun wrmsrl_all :: "nat \<Rightarrow> (u32 \<times> u64) list \<Rightarrow> machine \<Rightarrow> machine" where
  "wrmsrl_all cpu [] m = m"
| "wrmsrl_all cpu ((a, v) # ws) m = wrmsrl_all cpu ws (wrmsrl cpu a v m)"

definition hrperf_pmc_enable_and_esel :: "hrp_config \<Rightarrow> nat \<Rightarrow> machine \<Rightarrow> machine" where
  "hrperf_pmc_enable_and_esel cfg cpu m =
     (case pmc_writes cfg of None \<Rightarrow> m | Some ws \<Rightarrow> wrmsrl_all cpu ws m)"

definition enable_rdpmc_in_user_space :: "nat \<Rightarrow> machine \<Rightarrow> machine" where
  "enable_rdpmc_in_user_space cpu m = m\<lparr>cr4 := (cr4 m)(cpu := cr4 m cpu OR push_bit 8 1)\<rparr>"

section \<open>What the encodings guarantee\<close>

lemma bit_esel_final:
  "bit (esel_final e) n \<longleftrightarrow> bit e n \<or> n = 16 \<or> n = 17 \<or> n = 22"
  unfolding esel_final_def PMC_ESEL_USR_def PMC_ESEL_OS_def PMC_ESEL_ENABLE_def bit_or_iff
    bit_push_bit_iff bit_1_iff
  by auto

lemma bit_PMC_ESEL_ENTRY:
  "bit (PMC_ESEL_ENTRY e u c) n \<longleftrightarrow>
     (n < 8 \<and> bit e n) \<or> (8 \<le> n \<and> n < 16 \<and> bit u (n - 8)) \<or> (24 \<le> n \<and> n < 32 \<and> bit c (n - 24))"
  unfolding PMC_ESEL_ENTRY_def bit_or_iff bit_and_iff bit_push_bit_iff bit_ff
  by (auto dest: bit_imp_le_length)

text \<open>The fields of an entry can be read back: event, unit mask and counter mask do not overlap.\<close>

lemma PMC_ESEL_ENTRY_fields:
  "bits 0 8 (PMC_ESEL_ENTRY e u c) = e AND 0xFF"
  "bits 8 8 (PMC_ESEL_ENTRY e u c) = u AND 0xFF"
  "bits 24 8 (PMC_ESEL_ENTRY e u c) = c AND 0xFF"
  unfolding bits_def
  by (rule bit_word_eqI;
      auto simp: bit_take_bit_iff bit_drop_bit_eq bit_PMC_ESEL_ENTRY bit_and_iff bit_ff)+

lemma esel_final_fields:
  "bits 0 8 (esel_final (PMC_ESEL_ENTRY e u c)) = e AND 0xFF"
  "bits 8 8 (esel_final (PMC_ESEL_ENTRY e u c)) = u AND 0xFF"
  "bits 24 8 (esel_final (PMC_ESEL_ENTRY e u c)) = c AND 0xFF"
  by (rule bit_word_eqI;
      auto simp: bits_def bit_take_bit_iff bit_drop_bit_eq bit_esel_final bit_PMC_ESEL_ENTRY
        bit_and_iff bit_ff)+

lemma pmc_entry_is_entry: "\<exists>e u c. pmc_entry arch ev = PMC_ESEL_ENTRY e u c"
  by (cases "(arch, ev)" rule: pmc_entry.cases) auto

lemma wrmsrl_all_frame [simp]:
  "cr4 (wrmsrl_all cpu ws m) = cr4 m"
  "qm_ctr (wrmsrl_all cpu ws m) = qm_ctr m"
  "cpu_online (wrmsrl_all cpu ws m) = cpu_online m"
  by (induction cpu ws m rule: wrmsrl_all.induct) auto

lemma msr_wrmsrl_all:
  "distinct (map fst ws) \<Longrightarrow>
   msr (wrmsrl_all cpu ws m) c a =
     (if c = cpu then (case map_of ws a of None \<Rightarrow> msr m c a | Some v \<Rightarrow> v) else msr m c a)"
proof (induction cpu ws m rule: wrmsrl_all.induct)
  case (2 cpu b v ws m)
  then have "map_of ws b = None" by (simp add: map_of_eq_None_iff)
  with 2 show ?case by (auto split: option.split)
qed simp

text \<open>
  The microarchitecture-independent name \<open>PMC_CYCLE_STALLS_MEM_SKYLAKE_FINAL\<close> that the set-up uses
  by name selects the same event on every supported architecture.
\<close>

lemma esel2_arch:
  "esel2 cfg =
     (if HRP_USE_BOUND_ON_LOADS cfg then pmc_arch_final cfg BOUND_ON_LOADS
      else if HRP_USE_COUNTER_COMBINATION cfg then pmc_arch_final cfg STALLS_L2_MISS
      else pmc_arch_final cfg CYCLE_STALLS_MEM)"
  by (simp add: esel2_def pmc_arch_final_def pmc_final_def)

text \<open>An event select value that counts in both modes, is enabled, and has no other control bit.\<close>

definition counts_everywhere :: "u64 \<Rightarrow> bool" where
  "counts_everywhere v \<longleftrightarrow>
     bit v 16 \<and> bit v 17 \<and> bit v 22 \<and>
     \<not> bit v 18 \<and> \<not> bit v 19 \<and> \<not> bit v 20 \<and> \<not> bit v 21 \<and> \<not> bit v 23 \<and> drop_bit 32 v = 0"

lemma counts_everywhere_esel_final: "counts_everywhere (esel_final (PMC_ESEL_ENTRY e u c))"
proof -
  have "drop_bit 32 (esel_final (PMC_ESEL_ENTRY e u c)) = 0"
    by (rule bit_word_eqI) (simp add: bit_drop_bit_eq bit_esel_final bit_PMC_ESEL_ENTRY)
  then show ?thesis
    by (simp add: counts_everywhere_def bit_esel_final bit_PMC_ESEL_ENTRY)
qed

lemma counts_everywhere_pmc_final [simp]: "counts_everywhere (pmc_final arch ev)"
  using pmc_entry_is_entry [of arch ev] by (auto simp: pmc_final_def counts_everywhere_esel_final)

lemma counts_everywhere_selections [simp]:
  "counts_everywhere (pmc_arch_final cfg ev)"
  "counts_everywhere (esel2 cfg)"
  "counts_everywhere (esel3 cfg)"
  "counts_everywhere PMC_LLC_MISSES_FINAL"
  by (simp_all add: pmc_arch_final_def esel2_def esel3_def PMC_LLC_MISSES_FINAL_def
      PMC_ARCH_LLC_MISSES_def counts_everywhere_esel_final)

lemma offcore_events_counting:
  "offcore_events cfg = Some s \<Longrightarrow> counts_everywhere (ocr_reads s) \<and> counts_everywhere (ocr_writes s)"
  by (auto simp: offcore_events_def counts_everywhere_esel_final split: hrp_arch.splits)

lemma distinct_pmc_writes: "pmc_writes cfg = Some ws \<Longrightarrow> distinct (map fst ws)"
  by (auto simp: pmc_writes_def msr_defs split: if_splits option.splits)

definition perfevtsels :: "u32 set" where
  "perfevtsels =
     {MSR_IA32_PERFEVTSEL0, MSR_IA32_PERFEVTSEL1, MSR_IA32_PERFEVTSEL2, MSR_IA32_PERFEVTSEL3}"

lemma pmc_writes_counting:
  assumes "pmc_writes cfg = Some ws" and "(a, v) \<in> set ws" and "a \<in> perfevtsels"
  shows "counts_everywhere v"
  using assms offcore_events_counting [of cfg]
  by (auto simp: pmc_writes_def perfevtsels_def msr_defs split: if_splits option.splits)

lemma pmc_writes_selects_all:
  "pmc_writes cfg = Some ws \<Longrightarrow> a \<in> perfevtsels \<Longrightarrow> \<exists>v. (a, v) \<in> set ws"
  by (auto simp: pmc_writes_def perfevtsels_def split: if_splits option.splits)

text \<open>
  C31. Set-up on a CPU, in every configuration that compiles: all four event select registers of
  that CPU hold a value that counts in user and kernel mode, is enabled and sets no other control
  bit (no interrupt, edge, pin, any-thread or invert bit), the global control register enables
  exactly counters 0-3 and fixed counters 0-1, and no register of another CPU changes.
\<close>

theorem pmc_enable_and_esel_correct:
  fixes cpu c :: nat and m :: machine
  assumes "pmc_writes cfg = Some ws"
  defines "m' \<equiv> hrperf_pmc_enable_and_esel cfg cpu m"
  shows "(a \<in> perfevtsels \<longrightarrow> counts_everywhere (msr m' cpu a)) \<and>
    msr m' cpu MSR_IA32_GLOBAL_CTRL = 0x30000000F \<and>
    msr m' cpu MSR_IA32_FIXED_CTR_CTRL = 0x33 \<and>
    (c \<noteq> cpu \<longrightarrow> msr m' c = msr m c) \<and> cr4 m' = cr4 m"
proof -
  have m': "m' = wrmsrl_all cpu ws m"
    using assms by (simp add: hrperf_pmc_enable_and_esel_def)
  note get = msr_wrmsrl_all [OF distinct_pmc_writes [OF assms(1)]]
  have sel: "counts_everywhere (msr m' cpu a)" if a: "a \<in> perfevtsels"
  proof -
    obtain v where v: "(a, v) \<in> set ws" using pmc_writes_selects_all [OF assms(1) a] by blast
    then have "msr m' cpu a = v"
      using distinct_pmc_writes [OF assms(1)] by (simp add: m' get)
    then show ?thesis using pmc_writes_counting [OF assms(1) v a] by simp
  qed
  have ctl: "(MSR_IA32_GLOBAL_CTRL, GLOBAL_CTRL_VALUE) \<in> set ws" "(MSR_IA32_FIXED_CTR_CTRL, 0x33) \<in> set ws"
    using assms(1) by (auto simp: pmc_writes_def split: if_splits option.splits)
  have "msr m' cpu MSR_IA32_GLOBAL_CTRL = GLOBAL_CTRL_VALUE" "msr m' cpu MSR_IA32_FIXED_CTR_CTRL = 0x33"
    using ctl distinct_pmc_writes [OF assms(1)] by (simp_all add: m' get)
  then show ?thesis
    using sel by (auto simp: m' get fun_eq_iff GLOBAL_CTRL_VALUE_def)
qed

theorem pmc_enable_and_esel_witness:
  "\<exists>ws. pmc_writes config_h = Some ws \<and>
     counts_everywhere (msr (hrperf_pmc_enable_and_esel config_h 3
       \<lparr>msr = (\<lambda>_ _. 0), cr4 = (\<lambda>_. 0), qm_ctr = (\<lambda>_ _. 0), cpu_online = [3]\<rparr>) 3 MSR_IA32_PERFEVTSEL2)"
proof -
  obtain ws where ws: "pmc_writes config_h = Some ws"
    by (simp add: pmc_writes_def config_h_def)
  show ?thesis
    using ws pmc_enable_and_esel_correct [OF ws, of MSR_IA32_PERFEVTSEL2 3] by (auto simp: perfevtsels_def)
qed

end
