(* ===== verification/Mbm.thy ===== *)
theory Mbm
  imports Kernel
begin

text \<open>
  Memory-bandwidth monitoring: \<open>src/include/mbm/types.h\<close>, \<open>counter.h\<close>, \<open>rmid.h\<close>,
  \<open>mbm.h\<close>, \<open>src/src/mbm/mbm.c\<close> and \<open>src/src/mbm/rmid.c\<close>. The global
  \<open>g_mbm_mgr\<close> is passed explicitly, together with the machine whose registers the code
  writes; the table behind \<open>rmid_table\<close> is the list stored with the pointer. The spin lock
  is a flag of the manager, and taking it twice is a fault.

  The lemmas show that the initialised table gives every online core its own RMID, that the
  constant-time lookup agrees with the linear search, and that the deinitialisation undoes the
  association and the allocation.
\<close>

section \<open>Constants and types (types.h, counter.h)\<close>

definition PQR_ASSOC_RMID_MASK :: u64 where "PQR_ASSOC_RMID_MASK = 0x3FF"
definition QM_EVTSEL_RMID_SHIFT :: nat where "QM_EVTSEL_RMID_SHIFT = 32"
definition QM_EVTSEL_RMID_MASK :: u64 where "QM_EVTSEL_RMID_MASK = 0x3FF"
definition QM_EVTSEL_EVENT_MASK :: u64 where "QM_EVTSEL_EVENT_MASK = 0xFF"
definition QM_CTR_DATA_MASK :: u64 where "QM_CTR_DATA_MASK = 0x3FFFFFFFFFFFFFFF"
definition QM_CTR_ERROR_MASK :: u64 where "QM_CTR_ERROR_MASK = push_bit 63 1"
definition QM_CTR_UNAVAIL_MASK :: u64 where "QM_CTR_UNAVAIL_MASK = push_bit 62 1"
definition MBM_EVENT_L3_OCCUP :: u32 where "MBM_EVENT_L3_OCCUP = 1"
definition MBM_EVENT_L3_TOTAL_BW :: u32 where "MBM_EVENT_L3_TOTAL_BW = 2"
definition MBM_EVENT_L3_LOCAL_BW :: u32 where "MBM_EVENT_L3_LOCAL_BW = 3"
definition MAX_RMID :: u32 where "MAX_RMID = 1023"
definition MAX_CORES :: nat where "MAX_CORES = 255"
definition DEFAULT_MAX_RMID :: u32 where "DEFAULT_MAX_RMID = 255"
definition RMID0 :: u32 where "RMID0 = 0"

lemmas mbm_events = MBM_EVENT_L3_OCCUP_def MBM_EVENT_L3_TOTAL_BW_def MBM_EVENT_L3_LOCAL_BW_def

definition LOWER_32 :: "u64 \<Rightarrow> u32" where "LOWER_32 v = ucast (v AND 0xFFFFFFFF)"
definition UPPER_32 :: "u64 \<Rightarrow> u32" where "UPPER_32 v = ucast (drop_bit 32 v AND 0xFFFFFFFF)"

record rmid_info =
  rmid :: u32
  core_id :: u32
  in_use :: bool
  last_total_bw :: u64
  last_local_bw :: u64
  last_occupancy :: u64
  new_total_bw :: u64
  new_local_bw :: u64
  new_occupancy :: u64

definition zero_rmid_info :: rmid_info where
  "zero_rmid_info = \<lparr>rmid = 0, core_id = 0, in_use = False, last_total_bw = 0, last_local_bw = 0,
     last_occupancy = 0, new_total_bw = 0, new_local_bw = 0, new_occupancy = 0\<rparr>"

record rmid_manager =
  num_cores :: u32
  rmid_table :: "(nat \<times> rmid_info list) option"
  core_to_rmid_map :: "u8 list"
  lock :: bool

record mbm_cap =
  l3_cmt :: bool
  l3_mbm_total :: bool
  l3_mbm_local :: bool
  non_cpu_l3_cmt :: bool
  non_cpu_l3_mbm :: bool
  overflow_bit :: bool
  counter_width :: u32

record mbm_manager =
  rmid_mgr :: rmid_manager
  cap :: mbm_cap
  scaling_factor :: u32
  max_rmid :: u32

datatype mbm_counter_error =
    MBM_COUNTER_READ_SUCCESS
  | MBM_COUNTER_READ_ERROR
  | MBM_COUNTER_READ_UNAVAIL
  | MBM_COUNTER_READ_INVALID

record mbm_counter_data =
  cd_rmid :: u32
  cd_total_bw :: u64
  cd_local_bw :: u64
  cd_occupancy :: u64
  cd_status :: mbm_counter_error

section \<open>Reading counters (counter.h)\<close>

text \<open>The function runs on \<open>cpu\<close>; \<open>data\<close> is the value behind the pointer, before and after.\<close>

definition mbm_read_event ::
  "nat \<Rightarrow> u32 \<Rightarrow> u32 \<Rightarrow> u64 \<Rightarrow> machine \<Rightarrow> mbm_counter_error \<times> u64 \<times> machine" where
  "mbm_read_event cpu r event data m =
     (if event \<noteq> MBM_EVENT_L3_OCCUP \<and> event \<noteq> MBM_EVENT_L3_TOTAL_BW \<and> event \<noteq> MBM_EVENT_L3_LOCAL_BW
      then (MBM_COUNTER_READ_INVALID, data, m)
      else
        (let val_evtsel = ucast r AND QM_EVTSEL_RMID_MASK;
             val_evtsel = push_bit QM_EVTSEL_RMID_SHIFT val_evtsel;
             val_evtsel = val_evtsel OR (ucast event AND QM_EVTSEL_EVENT_MASK);
             m = wrmsr cpu MSR_IA32_QM_EVTSEL (LOWER_32 val_evtsel) (UPPER_32 val_evtsel) m;
             val = rdmsrl cpu MSR_IA32_QM_CTR m in
         if val AND QM_CTR_ERROR_MASK \<noteq> 0 then (MBM_COUNTER_READ_ERROR, data, m)
         else if val AND QM_CTR_UNAVAIL_MASK \<noteq> 0 then (MBM_COUNTER_READ_UNAVAIL, data, m)
         else (MBM_COUNTER_READ_SUCCESS, val AND QM_CTR_DATA_MASK, m)))"

definition mbm_read_counters ::
  "hrp_config \<Rightarrow> nat \<Rightarrow> mbm_counter_data \<Rightarrow> machine \<Rightarrow> mbm_counter_data \<times> machine" where
  "mbm_read_counters cfg cpu data m =
     (let data = data\<lparr>cd_status := MBM_COUNTER_READ_SUCCESS\<rparr>;
          (err, v, m) = mbm_read_event cpu (cd_rmid data) MBM_EVENT_L3_TOTAL_BW (cd_total_bw data) m;
          data = data\<lparr>cd_total_bw := v\<rparr> in
      if err \<noteq> MBM_COUNTER_READ_SUCCESS then (data\<lparr>cd_status := err\<rparr>, m)
      else
        (let (err, v, m) = (if HRP_RDT_INCLUDE_LOCAL_BW cfg
                            then mbm_read_event cpu (cd_rmid data) MBM_EVENT_L3_LOCAL_BW (cd_local_bw data) m
                            else (MBM_COUNTER_READ_SUCCESS, cd_local_bw data, m));
             data = data\<lparr>cd_local_bw := v\<rparr> in
         if err \<noteq> MBM_COUNTER_READ_SUCCESS then (data\<lparr>cd_status := err\<rparr>, m)
         else
           (let (err, v, m) = mbm_read_event cpu (cd_rmid data) MBM_EVENT_L3_OCCUP (cd_occupancy data) m;
                data = data\<lparr>cd_occupancy := v\<rparr> in
            if err \<noteq> MBM_COUNTER_READ_SUCCESS then (data\<lparr>cd_status := err\<rparr>, m) else (data, m))))"

definition mbm_guard_enter :: "mbm_manager \<Rightarrow> mbm_manager may" where
  "mbm_guard_enter g =
     (if lock (rmid_mgr g) then Inl Deadlock else Inr (g\<lparr>rmid_mgr := (rmid_mgr g)\<lparr>lock := True\<rparr>\<rparr>))"

definition mbm_guard_exit :: "mbm_manager \<Rightarrow> mbm_manager" where
  "mbm_guard_exit g = g\<lparr>rmid_mgr := (rmid_mgr g)\<lparr>lock := False\<rparr>\<rparr>"

text \<open>Access to \<open>rmid_table[i]\<close>: a NULL table and an index out of range fault.\<close>

definition table_get :: "rmid_manager \<Rightarrow> nat \<Rightarrow> rmid_info may" where
  "table_get r i =
     (case rmid_table r of
        None \<Rightarrow> Inl NullDeref
      | Some (p, tab) \<Rightarrow> if i < length tab then Inr (tab ! i) else Inl OutOfBounds)"

definition table_put :: "nat \<Rightarrow> rmid_info \<Rightarrow> rmid_manager \<Rightarrow> rmid_manager may" where
  "table_put i x r =
     (case rmid_table r of
        None \<Rightarrow> Inl NullDeref
      | Some (p, tab) \<Rightarrow>
          if i < length tab then Inr (r\<lparr>rmid_table := Some (p, tab[i := x])\<rparr>) else Inl OutOfBounds)"

definition map_put :: "nat \<Rightarrow> u8 \<Rightarrow> rmid_manager \<Rightarrow> rmid_manager may" where
  "map_put c v r =
     (if c < length (core_to_rmid_map r)
      then Inr (r\<lparr>core_to_rmid_map := (core_to_rmid_map r)[c := v]\<rparr>) else Inl OutOfBounds)"

text \<open>
  \<open>mbm_poll_all_cores\<close>. The counter data is a local variable that C leaves uninitialised;
  \<open>junk\<close> is what it holds.
\<close>

definition poll_core ::
  "hrp_config \<Rightarrow> nat \<Rightarrow> mbm_counter_data \<Rightarrow> nat \<Rightarrow> rmid_manager \<times> machine \<Rightarrow> (rmid_manager \<times> machine) may" where
  "poll_core cfg cpu junk idx = (\<lambda>(r, m).
     bindF (table_get r idx) (\<lambda>info.
       if in_use info then
         (let data = junk\<lparr>cd_status := MBM_COUNTER_READ_SUCCESS, cd_rmid := rmid info\<rparr>;
              (data, m) = mbm_read_counters cfg cpu data m in
          if cd_status data = MBM_COUNTER_READ_SUCCESS then
            bindF (table_put idx
              (info\<lparr>last_local_bw := new_local_bw info, last_total_bw := new_total_bw info,
                    last_occupancy := new_occupancy info, new_local_bw := cd_local_bw data,
                    new_total_bw := cd_total_bw data, new_occupancy := cd_occupancy data\<rparr>) r)
              (\<lambda>r. Inr (r, m))
          else Inr (r, m))
       else Inr (r, m)))"

definition mbm_poll_all_cores ::
  "hrp_config \<Rightarrow> nat \<Rightarrow> mbm_counter_data \<Rightarrow> mbm_manager \<Rightarrow> machine \<Rightarrow> (mbm_manager \<times> machine) may" where
  "mbm_poll_all_cores cfg cpu junk g m =
     bindF (foldF (poll_core cfg cpu junk) [0..<MAX_CORES] (rmid_mgr g, m))
       (\<lambda>(r, m). Inr (g\<lparr>rmid_mgr := r\<rparr>, m))"

text \<open>The pointer that \<open>mbm_get_rmid_info_for_core\<close> returns is the index of the table entry.\<close>

definition mbm_get_rmid_info_for_core :: "mbm_manager \<Rightarrow> u32 \<Rightarrow> nat option may" where
  "mbm_get_rmid_info_for_core g core =
     (if MAX_CORES \<le> unat core then Inr None
      else
        (let idx = unat (core_to_rmid_map (rmid_mgr g) ! unat core) in
         if MAX_CORES \<le> idx then Inr None
         else bindF (table_get (rmid_mgr g) idx)
                (\<lambda>info. Inr (if in_use info \<and> core_id info = core then Some idx else None))))"

definition mbm_to_mb :: "mbm_manager \<Rightarrow> u64 \<Rightarrow> u64" where
  "mbm_to_mb g raw_value = raw_value * ucast (scaling_factor g) div 1000000"

definition mbm_get_scaling_factor :: "mbm_manager \<Rightarrow> u32" where
  "mbm_get_scaling_factor g = scaling_factor g"

definition mbm_get_max_rmid :: "mbm_manager \<Rightarrow> u32" where
  "mbm_get_max_rmid g = max_rmid g"

section \<open>RMID association (rmid.h)\<close>

definition mbm_set_rmid :: "u32 \<Rightarrow> nat \<Rightarrow> machine \<Rightarrow> machine" where
  "mbm_set_rmid r cpu m =
     (let val = rdmsrl cpu MSR_IA32_PQR_ASSOC m;
          val = val AND NOT PQR_ASSOC_RMID_MASK;
          val = val OR (ucast r AND PQR_ASSOC_RMID_MASK) in
      wrmsrl cpu MSR_IA32_PQR_ASSOC val m)"

definition mbm_set_rmid_for_core ::
  "u32 \<Rightarrow> u32 \<Rightarrow> mbm_manager \<Rightarrow> machine \<Rightarrow> (mbm_manager \<times> machine) may" where
  "mbm_set_rmid_for_core core r g m =
     (let m = smp_call_function_single (unat core) (mbm_set_rmid r) m in
      bindF (mbm_get_rmid_info_for_core g core) (\<lambda>info.
        case info of
          None \<Rightarrow> Inl NullDeref
        | Some i \<Rightarrow>
            bindF (table_get (rmid_mgr g) i) (\<lambda>e.
              bindF (table_put i (e\<lparr>rmid := r, in_use := True\<rparr>) (rmid_mgr g)) (\<lambda>mgr.
                Inr (g\<lparr>rmid_mgr := mgr\<rparr>, m)))))"

definition mbm_reset_rmid :: "nat \<Rightarrow> machine \<Rightarrow> machine" where
  "mbm_reset_rmid cpu m = mbm_set_rmid RMID0 cpu m"

section \<open>RMID management (rmid.c)\<close>

definition mbm_rmid_clear_assoc :: "mbm_manager \<Rightarrow> machine \<Rightarrow> (ret \<times> mbm_manager \<times> machine) may" where
  "mbm_rmid_clear_assoc g m =
     bindF (mbm_guard_enter g) (\<lambda>g.
       (let m = fold (\<lambda>_ m. fold (\<lambda>cpu. smp_call_function_single cpu mbm_reset_rmid) (cpu_online m) m)
                  [0..<Suc (unat (max_rmid g))] m in
        Inr (Ok0, mbm_guard_exit g, m)))"

text \<open>The loop that clears the assignments, and the one that assigns an RMID per online CPU.\<close>

definition clear_slot :: "nat \<Rightarrow> rmid_manager \<Rightarrow> rmid_manager may" where
  "clear_slot i r =
     bindF (table_get r i) (\<lambda>e. bindF (table_put i (e\<lparr>in_use := False, rmid := 0\<rparr>) r)
       (map_put i (word_of_nat (MAX_CORES - 1))))"

fun assign_cores ::
  "u32 \<Rightarrow> nat list \<Rightarrow> u32 \<Rightarrow> rmid_manager \<Rightarrow> machine \<Rightarrow> (u32 \<times> rmid_manager \<times> machine) may" where
  "assign_cores mx [] n r m = Inr (n, r, m)"
| "assign_cores mx (cpu # cpus) n r m =
     (if mx < n then Inr (n, r, m)
      else
        bindF (table_get r (unat n)) (\<lambda>e.
          (let e = e\<lparr>rmid := word_of_nat cpu + 1, core_id := word_of_nat cpu, in_use := True,
                     last_total_bw := 0, last_local_bw := 0\<rparr> in
           bindF (table_put (unat n) e r) (\<lambda>r.
             (let m = smp_call_function_single cpu (mbm_set_rmid (rmid e)) m in
              bindF (map_put cpu (ucast n) r) (\<lambda>r. assign_cores mx cpus (n + 1) r m))))))"

definition mbm_rmid_allocate_all_cores ::
  "mbm_manager \<Rightarrow> machine \<Rightarrow> (ret \<times> mbm_manager \<times> machine) may" where
  "mbm_rmid_allocate_all_cores g m =
     bindF (mbm_guard_enter g) (\<lambda>g.
       bindF (foldF clear_slot [0..<MAX_CORES] (rmid_mgr g)) (\<lambda>r.
         bindF (assign_cores (max_rmid g) (cpu_online m) 0 r m) (\<lambda>(n, r, m).
           Inr (Ok0, mbm_guard_exit (g\<lparr>rmid_mgr := r\<lparr>num_cores := n\<rparr>\<rparr>), m))))"

definition release_slot :: "nat \<Rightarrow> rmid_manager \<times> machine \<Rightarrow> (rmid_manager \<times> machine) may" where
  "release_slot i = (\<lambda>(r, m).
     bindF (table_get r i) (\<lambda>e.
       if in_use e then
         bindF (table_put i (e\<lparr>in_use := False\<rparr>) r) (\<lambda>r.
           Inr (r, smp_call_function_single (unat (core_id e)) mbm_reset_rmid m))
       else Inr (r, m)))"

definition mbm_rmid_deallocate_all :: "mbm_manager \<Rightarrow> machine \<Rightarrow> (mbm_manager \<times> machine) may" where
  "mbm_rmid_deallocate_all g m =
     bindF (mbm_guard_enter g) (\<lambda>g.
       bindF (foldF release_slot [0..<unat (num_cores (rmid_mgr g))] (rmid_mgr g, m)) (\<lambda>(r, m).
         Inr (mbm_guard_exit (g\<lparr>rmid_mgr := r\<lparr>num_cores := 0\<rparr>\<rparr>), m)))"

fun find_rmid :: "rmid_manager \<Rightarrow> u32 \<Rightarrow> nat list \<Rightarrow> u32 may" where
  "find_rmid r core [] = Inr RMID0"
| "find_rmid r core (i # is) =
     bindF (table_get r i) (\<lambda>e. if in_use e \<and> core_id e = core then Inr (rmid e) else find_rmid r core is)"

definition mbm_rmid_get_for_core :: "mbm_manager \<Rightarrow> u32 \<Rightarrow> (u32 \<times> mbm_manager) may" where
  "mbm_rmid_get_for_core g core =
     bindF (mbm_guard_enter g) (\<lambda>g.
       bindF (find_rmid (rmid_mgr g) core [0..<unat (num_cores (rmid_mgr g))]) (\<lambda>r.
         Inr (r, mbm_guard_exit g)))"

definition zero_rmid_manager :: rmid_manager where
  "zero_rmid_manager = \<lparr>num_cores = 0, rmid_table = None,
     core_to_rmid_map = replicate MAX_CORES 0, lock = False\<rparr>"

definition mbm_rmid_init ::
  "mbm_manager \<Rightarrow> machine \<Rightarrow> kheap \<Rightarrow> (ret \<times> mbm_manager \<times> machine \<times> kheap) may" where
  "mbm_rmid_init g m h =
     (let g = g\<lparr>rmid_mgr := zero_rmid_manager\<rparr> in
      case kalloc KObj h of
        (None, h) \<Rightarrow> Inr (Neg ENOMEM, g, m, h)
      | (Some p, h) \<Rightarrow>
          (let g = g\<lparr>rmid_mgr := (rmid_mgr g)\<lparr>rmid_table := Some (p, replicate MAX_CORES zero_rmid_info)\<rparr>\<rparr> in
           bindF (mbm_rmid_clear_assoc g m) (\<lambda>(ret, g, m).
             bindF (mbm_rmid_allocate_all_cores g m) (\<lambda>(ret, g, m). Inr (Ok0, g, m, h)))))"

definition mbm_rmid_deinit :: "mbm_manager \<Rightarrow> machine \<Rightarrow> kheap \<Rightarrow> (mbm_manager \<times> machine \<times> kheap) may" where
  "mbm_rmid_deinit g m h =
     bindF (mbm_rmid_deallocate_all g m) (\<lambda>(g, m).
       case rmid_table (rmid_mgr g) of
         None \<Rightarrow> Inr (g, m, h)
       | Some (p, tab) \<Rightarrow>
           bindF (krelease KObj p h) (\<lambda>h. Inr (g\<lparr>rmid_mgr := (rmid_mgr g)\<lparr>rmid_table := None\<rparr>\<rparr>, m, h)))"

section \<open>Capabilities (mbm.c)\<close>

text \<open>The \<open>cpuid\<close> instruction is a parameter: the registers it yields for a leaf and a subleaf.\<close>

record cpuid_regs =
  eax :: u32
  ebx :: u32
  ecx :: u32
  edx :: u32

type_synonym cpuid_fn = "u32 \<Rightarrow> u32 \<Rightarrow> cpuid_regs"

definition mbm_is_supported :: "cpuid_fn \<Rightarrow> bool" where
  "mbm_is_supported cpuid =
     (if eax (cpuid 0 0) < 7 then False
      else if ebx (cpuid 7 0) AND push_bit 12 1 = 0 then False
      else if edx (cpuid 0xF 0) AND push_bit 1 1 = 0 then False
      else True)"

definition mbm_init_cap :: "cpuid_fn \<Rightarrow> mbm_manager \<Rightarrow> mbm_manager" where
  "mbm_init_cap cpuid g =
     (let r = cpuid 0xF 1;
          c = \<lparr>l3_cmt = (edx r AND push_bit 0 1 \<noteq> 0), l3_mbm_total = (edx r AND push_bit 1 1 \<noteq> 0),
               l3_mbm_local = (edx r AND push_bit 2 1 \<noteq> 0), non_cpu_l3_cmt = (eax r AND push_bit 9 1 \<noteq> 0),
               non_cpu_l3_mbm = (eax r AND push_bit 10 1 \<noteq> 0), overflow_bit = (eax r AND push_bit 8 1 \<noteq> 0),
               counter_width = 24 + (eax r AND 0xFF)\<rparr>;
          mr = ecx r in
      g\<lparr>cap := c, scaling_factor := ebx r,
        max_rmid := (if mr = 0 \<or> MAX_RMID < mr then DEFAULT_MAX_RMID else mr)\<rparr>)"

definition mbm_init ::
  "cpuid_fn \<Rightarrow> mbm_manager \<Rightarrow> machine \<Rightarrow> kheap \<Rightarrow> (ret \<times> mbm_manager \<times> machine \<times> kheap) may" where
  "mbm_init cpuid g m h =
     (if \<not> mbm_is_supported cpuid then Inr (Neg ENODEV, g, m, h)
      else bindF (mbm_rmid_init (mbm_init_cap cpuid g) m h) (\<lambda>(ret, g, m, h). Inr (Ok0, g, m, h)))"

definition mbm_deinit :: "mbm_manager \<Rightarrow> machine \<Rightarrow> kheap \<Rightarrow> (ret \<times> mbm_manager \<times> machine \<times> kheap) may" where
  "mbm_deinit g m h = bindF (mbm_rmid_deinit g m h) (\<lambda>(g, m, h). Inr (Ok0, g, m, h))"

section \<open>Register lemmas\<close>

lemma rmid_mask: "PQR_ASSOC_RMID_MASK = Bit_Operations.mask 10" "QM_EVTSEL_RMID_MASK = Bit_Operations.mask 10"
  "QM_CTR_DATA_MASK = Bit_Operations.mask 62" "QM_EVTSEL_EVENT_MASK = Bit_Operations.mask 8"
  by (simp_all add: PQR_ASSOC_RMID_MASK_def QM_EVTSEL_RMID_MASK_def QM_CTR_DATA_MASK_def
      QM_EVTSEL_EVENT_MASK_def mask_eq_exp_minus_1)

lemma split_halves: "push_bit 32 (ucast (UPPER_32 v)) OR ucast (LOWER_32 v) = (v :: u64)"
proof -
  have m: "(0xFFFFFFFF :: u64) = Bit_Operations.mask 32" by (simp add: mask_eq_exp_minus_1)
  show ?thesis unfolding UPPER_32_def LOWER_32_def m
    by (rule bit_word_eqI) (auto simp: bit_simps)
qed

lemma wrmsr_halves: "wrmsr cpu a (LOWER_32 v) (UPPER_32 v) m = wrmsrl cpu a v m"
  by (simp add: wrmsr_def split_halves)

text \<open>The association register with a new RMID: the low ten bits change, the rest (the class of service) stays.\<close>

definition pqr_with :: "u32 \<Rightarrow> u64 \<Rightarrow> u64" where
  "pqr_with r v = (v AND NOT PQR_ASSOC_RMID_MASK) OR (ucast r AND PQR_ASSOC_RMID_MASK)"

lemma pqr_with_fields:
  "take_bit 10 (pqr_with r v) = ucast (take_bit 10 r)"
  "drop_bit 10 (pqr_with r v) = drop_bit 10 v"
  unfolding pqr_with_def rmid_mask
  by (rule bit_word_eqI; auto simp: bit_simps dest: bit_imp_le_length)+

lemma pqr_with_twice [simp]: "pqr_with r (pqr_with q v) = pqr_with r v"
  unfolding pqr_with_def rmid_mask by (rule bit_word_eqI) (auto simp: bit_simps)

lemma MSR_distinct [simp]: "MSR_IA32_PQR_ASSOC \<noteq> MSR_IA32_QM_CTR" "MSR_IA32_QM_CTR \<noteq> MSR_IA32_PQR_ASSOC"
  by (simp_all add: MSR_IA32_PQR_ASSOC_def MSR_IA32_QM_CTR_def)

lemma mbm_set_rmid_eq:
  "mbm_set_rmid r cpu m = wrmsrl cpu MSR_IA32_PQR_ASSOC (pqr_with r (msr m cpu MSR_IA32_PQR_ASSOC)) m"
  by (simp add: mbm_set_rmid_def rdmsrl_def pqr_with_def Let_def)

lemma smp_frame:
  assumes "f cpu m = m\<lparr>msr := x\<rparr>"
  shows "cpu_online (smp_call_function_single cpu f m) = cpu_online m"
    "qm_ctr (smp_call_function_single cpu f m) = qm_ctr m" "cr4 (smp_call_function_single cpu f m) = cr4 m"
  using assms by (simp_all add: smp_call_function_single_def)

lemma smp_set_rmid [simp]:
  "msr (smp_call_function_single cpu (mbm_set_rmid r) m) c a =
     (if c = cpu \<and> cpu \<in> set (cpu_online m) \<and> a = MSR_IA32_PQR_ASSOC
      then pqr_with r (msr m c a) else msr m c a)"
  "cpu_online (smp_call_function_single cpu (mbm_set_rmid r) m) = cpu_online m"
  "qm_ctr (smp_call_function_single cpu (mbm_set_rmid r) m) = qm_ctr m"
  "cr4 (smp_call_function_single cpu (mbm_set_rmid r) m) = cr4 m"
  by (auto simp: smp_call_function_single_def mbm_set_rmid_eq)

lemma mbm_reset_rmid_eq: "mbm_reset_rmid = mbm_set_rmid RMID0"
  by (rule ext)+ (simp add: mbm_reset_rmid_def)

lemma ctr_masks:
  "v AND QM_CTR_ERROR_MASK = 0 \<longleftrightarrow> \<not> bit v 63"
  "v AND QM_CTR_UNAVAIL_MASK = 0 \<longleftrightarrow> \<not> bit v 62"
  "v AND QM_CTR_DATA_MASK = take_bit 62 v"
  "ucast r AND QM_EVTSEL_RMID_MASK = ucast (take_bit 10 (r :: u32))"
proof -
  show "v AND QM_CTR_ERROR_MASK = 0 \<longleftrightarrow> \<not> bit v 63" "v AND QM_CTR_UNAVAIL_MASK = 0 \<longleftrightarrow> \<not> bit v 62"
    unfolding QM_CTR_ERROR_MASK_def QM_CTR_UNAVAIL_MASK_def bit_iff_and_push_bit_not_eq_0 by simp_all
  show "v AND QM_CTR_DATA_MASK = take_bit 62 v" unfolding rmid_mask by (rule take_bit_eq_mask [symmetric])
  show "ucast r AND QM_EVTSEL_RMID_MASK = ucast (take_bit 10 r)" unfolding rmid_mask
    by (rule bit_word_eqI) (auto simp: bit_simps)
qed

section \<open>The table invariant\<close>

text \<open>
  The table and the map have their fixed sizes, the first \<open>num_cores\<close> entries and no other are
  in use, and the map leads from the core of each such entry back to the entry.
\<close>

definition rmid_tab_wf :: "rmid_info list \<Rightarrow> u8 list \<Rightarrow> nat \<Rightarrow> bool" where
  "rmid_tab_wf tab mp n \<longleftrightarrow>
     length tab = MAX_CORES \<and> length mp = MAX_CORES \<and> n \<le> MAX_CORES \<and>
     (\<forall>i < MAX_CORES. in_use (tab ! i) \<longleftrightarrow> i < n) \<and>
     (\<forall>i < n. unat (core_id (tab ! i)) < MAX_CORES \<and> mp ! unat (core_id (tab ! i)) = word_of_nat i)"

definition rmid_wf :: "mbm_manager \<Rightarrow> bool" where
  "rmid_wf g \<longleftrightarrow> \<not> lock (rmid_mgr g) \<and>
     (case rmid_table (rmid_mgr g) of
        None \<Rightarrow> False
      | Some (p, tab) \<Rightarrow> rmid_tab_wf tab (core_to_rmid_map (rmid_mgr g)) (unat (num_cores (rmid_mgr g))))"

text \<open>What the constant-time lookup finds, as the RMID of the entry (0 when there is none).\<close>

definition rmid_by_map :: "mbm_manager \<Rightarrow> u32 \<Rightarrow> u32 may" where
  "rmid_by_map g core =
     bindF (mbm_get_rmid_info_for_core g core) (\<lambda>info.
       case info of None \<Rightarrow> Inr RMID0 | Some i \<Rightarrow> bindF (table_get (rmid_mgr g) i) (\<lambda>e. Inr (rmid e)))"

lemma table_get_Some: "rmid_table r = Some (p, tab) \<Longrightarrow> i < length tab \<Longrightarrow> table_get r i = Inr (tab ! i)"
  by (simp add: table_get_def)

lemma table_put_Some:
  "rmid_table r = Some (p, tab) \<Longrightarrow> i < length tab \<Longrightarrow>
   table_put i x r = Inr (r\<lparr>rmid_table := Some (p, tab[i := x])\<rparr>)"
  by (simp add: table_put_def)

lemma find_rmid_eq:
  "rmid_table r = Some (p, tab) \<Longrightarrow> set is \<subseteq> {..<length tab} \<Longrightarrow>
   find_rmid r core is =
     Inr (case find (\<lambda>i. in_use (tab ! i) \<and> core_id (tab ! i) = core) is of None \<Rightarrow> RMID0 | Some i \<Rightarrow> rmid (tab ! i))"
  by (induction "is") (auto simp: table_get_Some)

lemma rmid_tab_wf_unique:
  assumes "rmid_tab_wf tab mp n" and "i < n" and "j < n" and "core_id (tab ! i) = core_id (tab ! j)"
  shows "i = j"
proof -
  have "word_of_nat i = (word_of_nat j :: u8)" using assms by (metis rmid_tab_wf_def)
  moreover have "unat (word_of_nat i :: u8) = i" "unat (word_of_nat j :: u8) = j"
    using assms by (auto simp: rmid_tab_wf_def MAX_CORES_def unat_of_nat)
  ultimately show ?thesis by metis
qed

lemma lookup_hit:
  assumes "rmid_wf g" and "rmid_table (rmid_mgr g) = Some (p, tab)" and "i < unat (num_cores (rmid_mgr g))"
  shows "mbm_get_rmid_info_for_core g (core_id (tab ! i)) = Inr (Some i)"
proof -
  have wf: "rmid_tab_wf tab (core_to_rmid_map (rmid_mgr g)) (unat (num_cores (rmid_mgr g)))"
    using assms by (simp add: rmid_wf_def)
  have i: "i < MAX_CORES" "unat (word_of_nat i :: u8) = i"
    using wf assms(3) by (auto simp: rmid_tab_wf_def MAX_CORES_def unat_of_nat)
  show ?thesis
    using wf i assms(2,3)
    by (auto simp: mbm_get_rmid_info_for_core_def Let_def rmid_tab_wf_def table_get_Some not_le)
qed

lemma lookup_eq_find:
  assumes "rmid_wf g" and "rmid_table (rmid_mgr g) = Some (p, tab)"
  shows "mbm_get_rmid_info_for_core g core =
    Inr (find (\<lambda>i. core_id (tab ! i) = core) [0..<unat (num_cores (rmid_mgr g))])"
proof (cases "find (\<lambda>i. core_id (tab ! i) = core) [0..<unat (num_cores (rmid_mgr g))]")
  case (Some i)
  then have "i < unat (num_cores (rmid_mgr g))" "core_id (tab ! i) = core"
    by (auto simp: find_Some_iff)
  with Some lookup_hit [OF assms this(1)] show ?thesis by simp
next
  case None
  have wf: "length tab = MAX_CORES" "\<And>i. i < MAX_CORES \<Longrightarrow> in_use (tab ! i) \<longleftrightarrow> i < unat (num_cores (rmid_mgr g))"
    using assms by (auto simp: rmid_wf_def rmid_tab_wf_def)
  have "\<not> (in_use (tab ! i) \<and> core_id (tab ! i) = core)" if "i < MAX_CORES" for i
    using None wf(2) [OF that] by (auto simp: find_None_iff)
  then show ?thesis
    using None wf(1) assms(2)
    by (auto simp: mbm_get_rmid_info_for_core_def Let_def table_get_Some)
qed

lemma rmid_wf_table: "rmid_wf g \<Longrightarrow> \<exists>p tab. rmid_table (rmid_mgr g) = Some (p, tab) \<and> length tab = MAX_CORES"
  by (auto simp: rmid_wf_def rmid_tab_wf_def split: option.splits)

section \<open>Loops over the table\<close>

lemma clear_slots:
  assumes "rmid_table r = Some (p, tab)" and "length tab = MAX_CORES" and "length (core_to_rmid_map r) = MAX_CORES"
    and "n \<le> MAX_CORES"
  shows "\<exists>r' tab'. foldF clear_slot [0..<n] r = Inr r' \<and> rmid_table r' = Some (p, tab') \<and>
    length tab' = MAX_CORES \<and> length (core_to_rmid_map r') = MAX_CORES \<and> lock r' = lock r \<and>
    (\<forall>i < n. \<not> in_use (tab' ! i))"
  using assms(4)
proof (induction n)
  case 0
  then show ?case using assms by simp
next
  case (Suc n)
  then obtain r' tab' where IH: "foldF clear_slot [0..<n] r = Inr r'" "rmid_table r' = Some (p, tab')"
    "length tab' = MAX_CORES" "length (core_to_rmid_map r') = MAX_CORES" "lock r' = lock r"
    "\<forall>i < n. \<not> in_use (tab' ! i)" by auto
  have "clear_slot n r' = Inr (r'\<lparr>rmid_table := Some (p, tab'[n := (tab' ! n)\<lparr>in_use := False, rmid := 0\<rparr>]),
      core_to_rmid_map := (core_to_rmid_map r')[n := word_of_nat (MAX_CORES - 1)]\<rparr>)"
    using IH Suc.prems by (simp add: clear_slot_def table_get_Some table_put_Some map_put_def)
  with IH Suc.prems show ?case
    by (simp add: foldF_upt_Suc nth_list_update del: upt_Suc)
qed

text \<open>
  The state of the assignment loop after the CPUs \<open>done\<close>: the invariant of the table with
  \<open>length done\<close> entries, and the association register of exactly these CPUs set.
\<close>

definition assigned :: "nat \<Rightarrow> machine \<Rightarrow> nat list \<Rightarrow> rmid_manager \<Rightarrow> machine \<Rightarrow> bool" where
  "assigned p m0 cs r m \<longleftrightarrow>
     (\<exists>tab. rmid_table r = Some (p, tab) \<and> rmid_tab_wf tab (core_to_rmid_map r) (length cs) \<and>
        (\<forall>i < length cs. core_id (tab ! i) = word_of_nat (cs ! i) \<and> rmid (tab ! i) = word_of_nat (cs ! i) + 1)) \<and>
     lock r \<and> cpu_online m = cpu_online m0 \<and> qm_ctr m = qm_ctr m0 \<and> cr4 m = cr4 m0 \<and>
     (\<forall>c a. msr m c a = (if c \<in> set cs \<and> a = MSR_IA32_PQR_ASSOC
                         then pqr_with (word_of_nat c + 1) (msr m0 c a) else msr m0 c a))"

text \<open>A new entry for a core that has none extends the table.\<close>

lemma rmid_tab_wf_extend:
  assumes "rmid_tab_wf tab mp n" and "n < MAX_CORES" and "c < MAX_CORES" and "\<And>i. i < n \<Longrightarrow> unat (core_id (tab ! i)) \<noteq> c"
    and "unat (core_id e) = c" and "in_use e"
  shows "rmid_tab_wf (tab[n := e]) (mp[c := word_of_nat n]) (Suc n)"
proof -
  have wf: "length tab = MAX_CORES" "length mp = MAX_CORES" "\<And>i. i < MAX_CORES \<Longrightarrow> in_use (tab ! i) \<longleftrightarrow> i < n"
    "\<And>i. i < n \<Longrightarrow> unat (core_id (tab ! i)) < MAX_CORES \<and> mp ! unat (core_id (tab ! i)) = word_of_nat i"
    using assms(1) by (auto simp: rmid_tab_wf_def)
  have "unat (core_id (tab[n := e] ! i)) < MAX_CORES \<and> mp[c := word_of_nat n] ! unat (core_id (tab[n := e] ! i)) = word_of_nat i"
    if "i < Suc n" for i
    using that wf(1,2) wf(4) [of i] assms(2,3,5) assms(4) [of i] by (cases "i = n") simp_all
  then show ?thesis using wf(1-3) assms(2,6) by (auto simp: rmid_tab_wf_def nth_list_update)
qed

lemma assigned_step:
  assumes a: "assigned p m0 cs r m" and c: "distinct (cs @ [c])" "set (cs @ [c]) \<subseteq> {..<MAX_CORES}" "c \<in> set (cpu_online m0)"
    and n: "unat n = length cs" and le: "n \<le> mx"
  shows "\<exists>r' m'. assign_cores mx (c # rest) n r m = assign_cores mx rest (n + 1) r' m' \<and>
    assigned p m0 (cs @ [c]) r' m' \<and> unat (n + 1) = length (cs @ [c])"
proof -
  from a obtain tab where tab: "rmid_table r = Some (p, tab)" "rmid_tab_wf tab (core_to_rmid_map r) (length cs)"
    "\<And>i. i < length cs \<Longrightarrow> core_id (tab ! i) = word_of_nat (cs ! i) \<and> rmid (tab ! i) = word_of_nat (cs ! i) + 1"
    by (auto simp: assigned_def)
  have "card (set (cs @ [c])) \<le> card {..<MAX_CORES}" using c(2) by (intro card_mono) auto
  then have lt: "length cs < MAX_CORES" using c(1) by (simp add: distinct_card card_insert_if)
  have wf: "length tab = MAX_CORES" "length (core_to_rmid_map r) = MAX_CORES" "lock r"
    using a tab(2) by (auto simp: assigned_def rmid_tab_wf_def)
  have u: "unat (word_of_nat x :: u32) = x" if "x \<in> set (cs @ [c])" for x
    using c(2) that by (auto simp: MAX_CORES_def unat_of_nat)
  let ?e = "(tab ! length cs)\<lparr>rmid := word_of_nat c + 1, core_id := word_of_nat c, in_use := True,
    last_total_bw := 0, last_local_bw := 0\<rparr>"
  let ?tab = "tab[length cs := ?e]" and ?map = "(core_to_rmid_map r)[c := ucast n]"
  let ?m = "smp_call_function_single c (mbm_set_rmid (word_of_nat c + 1)) m"
  let ?r = "r\<lparr>rmid_table := Some (p, ?tab), core_to_rmid_map := ?map\<rparr>"
  have cl: "c < MAX_CORES" using c(2) by simp
  have eq: "assign_cores mx (c # rest) n r m = assign_cores mx rest (n + 1) ?r ?m"
    using le lt wf(1,2) tab(1) cl by (simp add: table_get_Some table_put_Some map_put_def n not_less [symmetric] Let_def)
  have nc: "ucast n = (word_of_nat (length cs) :: u8)" by (simp add: word_unat_eq_iff unsigned_ucast_eq unat_of_nat n take_bit_eq_mod)
  have "unat (core_id (tab ! i)) \<noteq> c" if "i < length cs" for i
    using c(1) tab(3) [OF that] u [of "cs ! i"] nth_mem [OF that] by auto
  then have tw: "rmid_tab_wf ?tab ?map (length (cs @ [c]))"
    using rmid_tab_wf_extend [OF tab(2) lt cl, of ?e] u [of c] by (simp add: nc)
  have "assigned p m0 (cs @ [c]) ?r ?m"
    using a tw tab lt wf(1,3) c(1,3)
    by (auto simp: assigned_def nth_append nth_list_update less_Suc_eq)
  moreover have "unat (n + 1) = length cs + 1"
    using n lt by (simp add: unat_word_ariths MAX_CORES_def)
  ultimately show ?thesis using eq by (intro exI [of _ ?r] exI [of _ ?m]) simp
qed

lemma assign_cores_spec:
  assumes "assigned p m0 cs r m" and "distinct (cs @ cpus)" and "set (cs @ cpus) \<subseteq> {..<MAX_CORES}"
    and "set cpus \<subseteq> set (cpu_online m0)" and "unat n = length cs"
  shows "\<exists>n' r' m'. assign_cores mx cpus n r m = Inr (n', r', m') \<and>
    assigned p m0 (cs @ take (Suc (unat mx) - length cs) cpus) r' m' \<and>
    unat n' = length (cs @ take (Suc (unat mx) - length cs) cpus)"
  using assms
proof (induction cpus arbitrary: cs n r m)
  case Nil
  then show ?case by simp
next
  case (Cons c cpus)
  show ?case
  proof (cases "mx < n")
    case True
    then have "Suc (unat mx) - length cs = 0" using Cons.prems(5) by (simp add: word_less_nat_alt)
    with True Cons.prems show ?thesis by simp
  next
    case False
    then have k: "Suc (unat mx) - length cs = Suc (Suc (unat mx) - length (cs @ [c]))"
      using Cons.prems(5) by (auto simp: word_less_nat_alt not_less)
    from False have "n \<le> mx" by simp
    then obtain r' m' where step: "assign_cores mx (c # cpus) n r m = assign_cores mx cpus (n + 1) r' m'"
      "assigned p m0 (cs @ [c]) r' m'" "unat (n + 1) = length (cs @ [c])"
      using assigned_step [OF Cons.prems(1), of c n mx cpus] Cons.prems by auto
    from Cons.IH [OF step(2) _ _ _ step(3)] Cons.prems(2-4) step(1) k show ?thesis by simp
  qed
qed

lemma reset_all:
  "set cs \<subseteq> set (cpu_online m) \<Longrightarrow>
   msr (fold (\<lambda>cpu. smp_call_function_single cpu mbm_reset_rmid) cs m) c a =
     (if c \<in> set cs \<and> a = MSR_IA32_PQR_ASSOC then pqr_with 0 (msr m c a) else msr m c a)"
  by (induction cs arbitrary: m) (auto simp: mbm_reset_rmid_eq RMID0_def)

lemma reset_all_frame [simp]:
  "cpu_online (fold (\<lambda>cpu. smp_call_function_single cpu mbm_reset_rmid) cs m) = cpu_online m"
  "qm_ctr (fold (\<lambda>cpu. smp_call_function_single cpu mbm_reset_rmid) cs m) = qm_ctr m"
  "cr4 (fold (\<lambda>cpu. smp_call_function_single cpu mbm_reset_rmid) cs m) = cr4 m"
  by (induction cs arbitrary: m) (auto simp: mbm_reset_rmid_eq)

text \<open>One pass of the outer loop already clears every association; the further passes change nothing.\<close>

lemma clear_assoc_eq:
  assumes "\<not> lock (rmid_mgr g)"
  shows "\<exists>m'. mbm_rmid_clear_assoc g m = Inr (Ok0, g, m') \<and> cpu_online m' = cpu_online m \<and> qm_ctr m' = qm_ctr m \<and>
    cr4 m' = cr4 m \<and>
    (\<forall>c a. msr m' c a = (if c \<in> set (cpu_online m) \<and> a = MSR_IA32_PQR_ASSOC then pqr_with 0 (msr m c a) else msr m c a))"
proof -
  let ?F = "\<lambda>_ m. fold (\<lambda>cpu. smp_call_function_single cpu mbm_reset_rmid) (cpu_online m) m"
  let ?P = "\<lambda>m'. cpu_online m' = cpu_online m \<and> qm_ctr m' = qm_ctr m \<and> cr4 m' = cr4 m \<and>
    (\<forall>c a. msr m' c a = (if c \<in> set (cpu_online m) \<and> a = MSR_IA32_PQR_ASSOC then pqr_with 0 (msr m c a) else msr m c a))"
  have "?P (fold ?F [0..<Suc k] m)" for k
  proof (induction k)
    case 0
    then show ?case by (simp add: reset_all)
  next
    case (Suc k)
    have "fold ?F [0..<Suc (Suc k)] m = ?F () (fold ?F [0..<Suc k] m)" by simp
    with Suc.IH show ?case by (simp add: reset_all del: upt_Suc)
  qed
  moreover have "mbm_guard_exit (g\<lparr>rmid_mgr := (rmid_mgr g)\<lparr>lock := True\<rparr>\<rparr>) = g"
    using assms by (simp add: mbm_guard_exit_def)
  ultimately show ?thesis
    using assms by (simp add: mbm_rmid_clear_assoc_def mbm_guard_enter_def Let_def del: upt_Suc)
qed

lemma allocate_spec:
  assumes "\<not> lock (rmid_mgr g)" and "rmid_table (rmid_mgr g) = Some (p, tab)" and "length tab = MAX_CORES"
    and "length (core_to_rmid_map (rmid_mgr g)) = MAX_CORES"
    and "distinct (cpu_online m)" and "set (cpu_online m) \<subseteq> {..<MAX_CORES}"
  shows "\<exists>n r m'. mbm_rmid_allocate_all_cores g m = Inr (Ok0, g\<lparr>rmid_mgr := r\<lparr>num_cores := n, lock := False\<rparr>\<rparr>, m') \<and>
    unat n = length (take (Suc (unat (max_rmid g))) (cpu_online m)) \<and>
    assigned p m (take (Suc (unat (max_rmid g))) (cpu_online m)) r m'"
proof -
  let ?r0 = "(rmid_mgr g)\<lparr>lock := True\<rparr>"
  obtain r1 tab1 where r1: "foldF clear_slot [0..<MAX_CORES] ?r0 = Inr r1" "rmid_table r1 = Some (p, tab1)"
    "length tab1 = MAX_CORES" "length (core_to_rmid_map r1) = MAX_CORES" "lock r1"
    "\<forall>i < MAX_CORES. \<not> in_use (tab1 ! i)"
    using clear_slots [of ?r0 p tab MAX_CORES] assms(2-4) by auto
  then have "assigned p m [] r1 m" by (auto simp: assigned_def rmid_tab_wf_def)
  then obtain n r2 m2 where "assign_cores (max_rmid g) (cpu_online m) 0 r1 m = Inr (n, r2, m2)"
    "assigned p m (take (Suc (unat (max_rmid g))) (cpu_online m)) r2 m2"
    "unat n = length (take (Suc (unat (max_rmid g))) (cpu_online m))"
    using assign_cores_spec [of p m "[]" r1 m "cpu_online m" 0 "max_rmid g"] assms(5,6) by auto
  then show ?thesis
    using assms(1) r1(1)
    by (intro exI [of _ n] exI [of _ r2] exI [of _ m2])
      (simp add: mbm_rmid_allocate_all_cores_def mbm_guard_enter_def mbm_guard_exit_def)
qed

lemma rmid_init_spec:
  assumes "alloc_ok h (n_req h)" and "distinct (cpu_online m)" and "set (cpu_online m) \<subseteq> {..<MAX_CORES}"
  shows "\<exists>n r m1 m'. mbm_rmid_init g m h =
      Inr (Ok0, g\<lparr>rmid_mgr := r\<lparr>num_cores := n, lock := False\<rparr>\<rparr>, m', snd (kalloc KObj h)) \<and>
    unat n = length (take (Suc (unat (max_rmid g))) (cpu_online m)) \<and>
    assigned (n_req h) m1 (take (Suc (unat (max_rmid g))) (cpu_online m)) r m' \<and>
    (\<forall>c a. msr m1 c a = (if c \<in> set (cpu_online m) \<and> a = MSR_IA32_PQR_ASSOC then pqr_with 0 (msr m c a) else msr m c a))"
proof -
  let ?g = "g\<lparr>rmid_mgr := zero_rmid_manager\<lparr>rmid_table := Some (n_req h, replicate MAX_CORES zero_rmid_info)\<rparr>\<rparr>"
  obtain m1 where m1: "mbm_rmid_clear_assoc ?g m = Inr (Ok0, ?g, m1)" "cpu_online m1 = cpu_online m"
    "\<forall>c a. msr m1 c a = (if c \<in> set (cpu_online m) \<and> a = MSR_IA32_PQR_ASSOC then pqr_with 0 (msr m c a) else msr m c a)"
    using clear_assoc_eq [of ?g m] by (auto simp: zero_rmid_manager_def)
  obtain n r m' where "mbm_rmid_allocate_all_cores ?g m1 = Inr (Ok0, g\<lparr>rmid_mgr := r\<lparr>num_cores := n, lock := False\<rparr>\<rparr>, m')"
    "unat n = length (take (Suc (unat (max_rmid g))) (cpu_online m))"
    "assigned (n_req h) m1 (take (Suc (unat (max_rmid g))) (cpu_online m)) r m'"
    using allocate_spec [of ?g "n_req h" "replicate MAX_CORES zero_rmid_info" m1] assms(2,3) m1(2)
    by (auto simp: zero_rmid_manager_def)
  then show ?thesis
    using assms(1) m1
    by (intro exI [of _ n] exI [of _ r] exI [of _ m1] exI [of _ m']) (simp add: mbm_rmid_init_def Let_def kalloc_def)
qed

lemma get_for_core_eq:
  assumes "rmid_wf g"
  shows "mbm_rmid_get_for_core g core = bindF (rmid_by_map g core) (\<lambda>r. Inr (r, g))"
proof -
  obtain p tab where t: "rmid_table (rmid_mgr g) = Some (p, tab)" "length tab = MAX_CORES"
    using rmid_wf_table [OF assms] by blast
  let ?n = "unat (num_cores (rmid_mgr g))" and ?r = "(rmid_mgr g)\<lparr>lock := True\<rparr>"
  have wf: "rmid_tab_wf tab (core_to_rmid_map (rmid_mgr g)) ?n" and l: "\<not> lock (rmid_mgr g)"
    using assms t by (auto simp: rmid_wf_def)
  then have n: "?n \<le> MAX_CORES" "\<And>i. i < ?n \<Longrightarrow> in_use (tab ! i)" by (auto simp: rmid_tab_wf_def)
  have f: "find (\<lambda>i. in_use (tab ! i) \<and> core_id (tab ! i) = core) [0..<?n] =
      find (\<lambda>i. core_id (tab ! i) = core) [0..<?n]"
    using n(2) by (intro find_cong) auto
  have "find_rmid ?r core [0..<?n] =
      Inr (case find (\<lambda>i. core_id (tab ! i) = core) [0..<?n] of None \<Rightarrow> RMID0 | Some i \<Rightarrow> rmid (tab ! i))"
    using find_rmid_eq [of ?r p tab "[0..<?n]" core] t n(1) f by (simp add: subset_iff)
  moreover have "rmid_by_map g core =
      Inr (case find (\<lambda>i. core_id (tab ! i) = core) [0..<?n] of None \<Rightarrow> RMID0 | Some i \<Rightarrow> rmid (tab ! i))"
  proof (cases "find (\<lambda>i. core_id (tab ! i) = core) [0..<?n]")
    case (Some i)
    then have "i < MAX_CORES" using n(1) by (auto simp: find_Some_iff)
    with Some t show ?thesis by (simp add: rmid_by_map_def lookup_eq_find [OF assms t(1)] table_get_Some)
  qed (simp add: rmid_by_map_def lookup_eq_find [OF assms t(1)])
  ultimately show ?thesis
    using l by (simp add: mbm_rmid_get_for_core_def mbm_guard_enter_def mbm_guard_exit_def)
qed

lemma release_slots:
  assumes "rmid_table r = Some (p, tab)" and "length tab = MAX_CORES" and "k \<le> n" and "n \<le> MAX_CORES"
    and "\<And>i. i < n \<Longrightarrow> in_use (tab ! i)"
  shows "\<exists>tab' m'. foldF release_slot [0..<k] (r, m) = Inr (r\<lparr>rmid_table := Some (p, tab')\<rparr>, m') \<and>
    length tab' = MAX_CORES \<and> (\<forall>i. k \<le> i \<longrightarrow> tab' ! i = tab ! i) \<and> (\<forall>i < k. tab' ! i = (tab ! i)\<lparr>in_use := False\<rparr>) \<and>
    cpu_online m' = cpu_online m \<and>
    (\<forall>c a. msr m' c a = (if c \<in> set (cpu_online m) \<and> (\<exists>i < k. c = unat (core_id (tab ! i))) \<and> a = MSR_IA32_PQR_ASSOC
                         then pqr_with 0 (msr m c a) else msr m c a))"
  using assms(3)
proof (induction k)
  case 0
  then show ?case using assms by (intro exI [of _ tab] exI [of _ m]) simp
next
  case (Suc k)
  then obtain tab' m' where IH: "foldF release_slot [0..<k] (r, m) = Inr (r\<lparr>rmid_table := Some (p, tab')\<rparr>, m')"
    "length tab' = MAX_CORES" "\<And>i. k \<le> i \<Longrightarrow> tab' ! i = tab ! i" "\<forall>i < k. tab' ! i = (tab ! i)\<lparr>in_use := False\<rparr>"
    "cpu_online m' = cpu_online m"
    "\<forall>c a. msr m' c a = (if c \<in> set (cpu_online m) \<and> (\<exists>i < k. c = unat (core_id (tab ! i))) \<and> a = MSR_IA32_PQR_ASSOC
                         then pqr_with 0 (msr m c a) else msr m c a)"
    by auto
  let ?tab = "tab'[k := (tab ! k)\<lparr>in_use := False\<rparr>]"
  let ?m = "smp_call_function_single (unat (core_id (tab ! k))) (mbm_set_rmid 0) m'"
  have "release_slot k (r\<lparr>rmid_table := Some (p, tab')\<rparr>, m') = Inr (r\<lparr>rmid_table := Some (p, ?tab)\<rparr>, ?m)"
    using Suc.prems assms(4,5) IH(2,3)
    by (simp add: release_slot_def table_get_def table_put_def mbm_reset_rmid_eq RMID0_def)
  then have "foldF release_slot [0..<Suc k] (r, m) = Inr (r\<lparr>rmid_table := Some (p, ?tab)\<rparr>, ?m)"
    by (simp add: foldF_upt_Suc IH(1) del: upt_Suc)
  then show ?case
    using IH(2-6) Suc.prems assms(4)
    by (intro exI [of _ ?tab] exI [of _ ?m]) (auto simp: nth_list_update less_Suc_eq)
qed

lemma poll_core_keeps:
  assumes "rmid_table r = Some (p, tab)" and "i < length tab"
  shows "\<exists>e m'. poll_core cfg cpu junk i (r, m) = Inr (r\<lparr>rmid_table := Some (p, tab[i := e])\<rparr>, m') \<and>
    rmid e = rmid (tab ! i) \<and> core_id e = core_id (tab ! i) \<and> in_use e = in_use (tab ! i)"
proof -
  have same: "r\<lparr>rmid_table := Some (p, tab[i := tab ! i])\<rparr> = r" using assms by simp
  let ?d = "junk\<lparr>cd_status := MBM_COUNTER_READ_SUCCESS, cd_rmid := rmid (tab ! i)\<rparr>"
  let ?rd = "mbm_read_counters cfg cpu ?d m"
  consider "\<not> in_use (tab ! i)" | "in_use (tab ! i)" "cd_status (fst ?rd) \<noteq> MBM_COUNTER_READ_SUCCESS"
    | "in_use (tab ! i)" "cd_status (fst ?rd) = MBM_COUNTER_READ_SUCCESS" by blast
  then show ?thesis
  proof cases
    case 1
    then show ?thesis using assms same
      by (intro exI [of _ "tab ! i"] exI [of _ m]) (simp add: poll_core_def table_get_Some)
  next
    case 2
    then show ?thesis using assms same
      by (intro exI [of _ "tab ! i"] exI [of _ "snd ?rd"]) (simp add: poll_core_def table_get_Some split_beta Let_def)
  next
    case 3
    then show ?thesis using assms
      by (simp add: poll_core_def table_get_Some table_put_Some split_beta Let_def) fastforce
  qed
qed

text \<open>The table behind the pointer, with counters that may have changed.\<close>

definition same_ids :: "rmid_manager \<Rightarrow> nat \<Rightarrow> rmid_info list \<Rightarrow> rmid_manager \<Rightarrow> bool" where
  "same_ids r0 p tab r \<longleftrightarrow> (\<exists>tab'. r = r0\<lparr>rmid_table := Some (p, tab')\<rparr> \<and> length tab' = length tab \<and>
     (\<forall>i < length tab. rmid (tab' ! i) = rmid (tab ! i) \<and> core_id (tab' ! i) = core_id (tab ! i) \<and>
        in_use (tab' ! i) = in_use (tab ! i)))"

lemma poll_core_same_ids:
  assumes "same_ids r0 p tab r" and "i < length tab"
  shows "\<exists>r' m'. poll_core cfg cpu junk i (r, m) = Inr (r', m') \<and> same_ids r0 p tab r'"
proof -
  from assms(1) obtain tab' where t': "r = r0\<lparr>rmid_table := Some (p, tab')\<rparr>" "length tab' = length tab"
    "\<And>i. i < length tab \<Longrightarrow> rmid (tab' ! i) = rmid (tab ! i) \<and> core_id (tab' ! i) = core_id (tab ! i) \<and>
      in_use (tab' ! i) = in_use (tab ! i)"
    by (auto simp: same_ids_def)
  obtain e m' where "poll_core cfg cpu junk i (r, m) = Inr (r\<lparr>rmid_table := Some (p, tab'[i := e])\<rparr>, m')"
    "rmid e = rmid (tab' ! i)" "core_id e = core_id (tab' ! i)" "in_use e = in_use (tab' ! i)"
    using poll_core_keeps [of r p tab' i cfg cpu junk m] t'(1,2) assms(2) by auto
  moreover from this have "same_ids r0 p tab (r\<lparr>rmid_table := Some (p, tab'[i := e])\<rparr>)"
    using t' assms(2) unfolding same_ids_def by (intro exI [of _ "tab'[i := e]"]) (auto simp: nth_list_update)
  ultimately show ?thesis by blast
qed

lemma poll_cores_keep:
  assumes "rmid_table r = Some (p, tab)" and "length tab = MAX_CORES"
  shows "\<exists>r' m'. foldF (poll_core cfg cpu junk) [0..<MAX_CORES] (r, m) = Inr (r', m') \<and> same_ids r p tab r'"
proof -
  have "\<exists>s'. foldF (poll_core cfg cpu junk) [0..<MAX_CORES] (r, m) = Inr s' \<and> (\<lambda>(r', _). same_ids r p tab r') s'"
  proof (rule foldF_inv)
    show "(\<lambda>(r', _). same_ids r p tab r') (r, m)"
      using assms by (auto simp: same_ids_def intro!: exI [of _ tab])
  qed (use assms poll_core_same_ids in fastforce)
  then show ?thesis by auto
qed

lemma rmid_tab_wf_update:
  assumes "rmid_tab_wf tab mp n" and "core_id e = core_id (tab ! i)" and "in_use e = in_use (tab ! i)"
  shows "rmid_tab_wf (tab[i := e]) mp n"
  using assms by (cases "i < length tab") (auto simp: rmid_tab_wf_def nth_list_update)

lemma assigned_wf:
  assumes "assigned p m0 cs r m" and "unat n = length cs"
  shows "rmid_wf (g\<lparr>rmid_mgr := r\<lparr>num_cores := n, lock := False\<rparr>\<rparr>)"
  using assms by (auto simp: assigned_def rmid_wf_def)

lemma assigned_lookup:
  assumes a: "assigned p m0 cs r m" and n: "unat n = length cs" and c: "c \<in> set cs"
  shows "rmid_by_map (g\<lparr>rmid_mgr := r\<lparr>num_cores := n, lock := False\<rparr>\<rparr>) (word_of_nat c) = Inr (word_of_nat c + 1)"
proof -
  let ?g = "g\<lparr>rmid_mgr := r\<lparr>num_cores := n, lock := False\<rparr>\<rparr>"
  obtain tab i where t: "rmid_table (rmid_mgr ?g) = Some (p, tab)" "length tab = MAX_CORES" "length cs \<le> MAX_CORES"
    and i: "i < length cs" "core_id (tab ! i) = word_of_nat c" "rmid (tab ! i) = word_of_nat c + 1"
    using a c by (fastforce simp: assigned_def in_set_conv_nth rmid_tab_wf_def)
  have "mbm_get_rmid_info_for_core ?g (word_of_nat c) = Inr (Some i)"
    using lookup_hit [OF assigned_wf [OF a n], where i = i] t i n by simp
  then show ?thesis using t i by (simp add: rmid_by_map_def table_get_Some)
qed

lemma take_bit_10_small: "c < MAX_CORES \<Longrightarrow> take_bit 10 (word_of_nat c + 1 :: u32) = word_of_nat (Suc c)"
  by (simp add: MAX_CORES_def word_unat_eq_iff unsigned_take_bit_eq unat_word_ariths unat_of_nat take_bit_eq_mod)

lemma ucast_small: "c < MAX_CORES \<Longrightarrow> ucast (word_of_nat (Suc c) :: u32) = (word_of_nat (Suc c) :: u64)"
  by (simp add: MAX_CORES_def word_unat_eq_iff unsigned_ucast_eq unat_of_nat take_bit_eq_mod del: of_nat_Suc)

lemma mbm_init_outcome:
  assumes "mbm_is_supported cpuid" and "alloc_ok h (n_req h)"
    and "distinct (cpu_online m)" and "set (cpu_online m) \<subseteq> {..<MAX_CORES}"
  shows "\<exists>g' m' h'. mbm_init cpuid g m h = Inr (Ok0, g', m', h') \<and> rmid_wf g' \<and> max_rmid g' = max_rmid (mbm_init_cap cpuid g) \<and>
    max_rmid g' \<le> MAX_RMID \<and> 0 < max_rmid g' \<and>
    (\<forall>c \<in> set (take (Suc (unat (max_rmid g'))) (cpu_online m)).
       mbm_rmid_get_for_core g' (word_of_nat c) = Inr (word_of_nat c + 1, g') \<and>
       take_bit 10 (msr m' c MSR_IA32_PQR_ASSOC) = word_of_nat (Suc c)) \<and>
    (\<forall>c \<in> set (drop (Suc (unat (max_rmid g'))) (cpu_online m)). take_bit 10 (msr m' c MSR_IA32_PQR_ASSOC) = 0) \<and>
    (\<forall>c. drop_bit 10 (msr m' c MSR_IA32_PQR_ASSOC) = drop_bit 10 (msr m c MSR_IA32_PQR_ASSOC))"
proof -
  let ?g = "mbm_init_cap cpuid g"
  let ?cs = "take (Suc (unat (max_rmid ?g))) (cpu_online m)"
  obtain n r m1 m' where init: "mbm_rmid_init ?g m h =
      Inr (Ok0, ?g\<lparr>rmid_mgr := r\<lparr>num_cores := n, lock := False\<rparr>\<rparr>, m', snd (kalloc KObj h))"
    and n: "unat n = length ?cs" and a: "assigned (n_req h) m1 ?cs r m'"
    and m1: "\<And>c a. msr m1 c a = (if c \<in> set (cpu_online m) \<and> a = MSR_IA32_PQR_ASSOC then pqr_with 0 (msr m c a) else msr m c a)"
    using rmid_init_spec [OF assms(2-4), of ?g] by blast
  let ?g' = "?g\<lparr>rmid_mgr := r\<lparr>num_cores := n, lock := False\<rparr>\<rparr>"
  have mx: "max_rmid ?g \<le> MAX_RMID" "0 < max_rmid ?g"
    by (auto simp: mbm_init_cap_def Let_def MAX_RMID_def DEFAULT_MAX_RMID_def word_gt_0)
  have m': "msr m' c MSR_IA32_PQR_ASSOC = (if c \<in> set ?cs then pqr_with (word_of_nat c + 1) (msr m1 c MSR_IA32_PQR_ASSOC)
      else msr m1 c MSR_IA32_PQR_ASSOC)" for c
    using a by (simp add: assigned_def)
  have in_cs: "mbm_rmid_get_for_core ?g' (word_of_nat c) = Inr (word_of_nat c + 1, ?g') \<and>
      take_bit 10 (msr m' c MSR_IA32_PQR_ASSOC) = word_of_nat (Suc c)" if "c \<in> set ?cs" for c
  proof -
    have "c < MAX_CORES" using that assms(4) by (auto dest: in_set_takeD)
    then show ?thesis
      using that assigned_lookup [OF a n that, of ?g] get_for_core_eq [OF assigned_wf [OF a n, of ?g]]
      by (simp add: m' pqr_with_fields take_bit_10_small ucast_small del: of_nat_Suc)
  qed
  have "take_bit 10 (msr m' c MSR_IA32_PQR_ASSOC) = 0" if "c \<in> set (drop (Suc (unat (max_rmid ?g))) (cpu_online m))" for c
  proof -
    have "c \<notin> set ?cs" using that assms(3) set_take_disj_set_drop_if_distinct by fastforce
    then show ?thesis using that by (auto simp: m' m1 pqr_with_fields dest: in_set_dropD)
  qed
  moreover have "drop_bit 10 (msr m' c MSR_IA32_PQR_ASSOC) = drop_bit 10 (msr m c MSR_IA32_PQR_ASSOC)" for c
    by (simp add: m' m1 pqr_with_fields)
  moreover have "mbm_init cpuid g m h = Inr (Ok0, ?g', m', snd (kalloc KObj h))"
    using assms(1) init by (simp add: mbm_init_def)
  ultimately show ?thesis
    using in_cs mx assigned_wf [OF a n, of ?g] by (intro exI [of _ ?g'] exI [of _ m'] exI [of _ "snd (kalloc KObj h)"]) simp
qed

section \<open>Properties\<close>

text \<open>
  C32. Initialising the monitor on a machine that supports it gives each of the first
  \<open>max_rmid + 1\<close> online cores the RMID \<open>cpu + 1\<close>, in the table and in the core's association
  register, leaves RMID 0 on the other online cores, keeps the class-of-service bits of every
  core, and establishes the table invariant with the lock released.
\<close>

theorem mbm_init_assigns_rmids:
  assumes "mbm_is_supported cpuid" and "alloc_ok h (n_req h)"
    and "distinct (cpu_online m)" and "set (cpu_online m) \<subseteq> {..<MAX_CORES}"
  shows "\<exists>g' m' h'. mbm_init cpuid g m h = Inr (Ok0, g', m', h') \<and> rmid_wf g' \<and>
    max_rmid g' \<le> MAX_RMID \<and> 0 < max_rmid g' \<and>
    (\<forall>c \<in> set (take (Suc (unat (max_rmid g'))) (cpu_online m)).
       mbm_rmid_get_for_core g' (word_of_nat c) = Inr (word_of_nat c + 1, g') \<and>
       take_bit 10 (msr m' c MSR_IA32_PQR_ASSOC) = word_of_nat (Suc c)) \<and>
    (\<forall>c \<in> set (drop (Suc (unat (max_rmid g'))) (cpu_online m)). take_bit 10 (msr m' c MSR_IA32_PQR_ASSOC) = 0) \<and>
    (\<forall>c. drop_bit 10 (msr m' c MSR_IA32_PQR_ASSOC) = drop_bit 10 (msr m c MSR_IA32_PQR_ASSOC))"
  using mbm_init_outcome [OF assms, of g] by blast

text \<open>
  The guard of the assignment loop is off by one: on a machine with more online cores than
  the highest RMID, the core whose number is the highest RMID gets an RMID that the hardware
  does not have.
\<close>

theorem mbm_init_exceeds_max_rmid:
  assumes "mbm_is_supported cpuid" and "alloc_ok h (n_req h)" and "cpu_online m = [0..<k]" and "k \<le> MAX_CORES"
    and "unat (max_rmid (mbm_init_cap cpuid g)) < k"
  shows "\<exists>g' m' h' r. mbm_init cpuid g m h = Inr (Ok0, g', m', h') \<and>
    mbm_rmid_get_for_core g' (max_rmid g') = Inr (r, g') \<and> max_rmid g' < r"
proof -
  have "distinct (cpu_online m)" "set (cpu_online m) \<subseteq> {..<MAX_CORES}" using assms(3,4) by auto
  from mbm_init_outcome [OF assms(1,2) this, of g] obtain g' m' h' where
    i: "mbm_init cpuid g m h = Inr (Ok0, g', m', h')" and mx: "max_rmid g' = max_rmid (mbm_init_cap cpuid g)"
    and get: "\<And>c. c \<in> set (take (Suc (unat (max_rmid g'))) (cpu_online m)) \<Longrightarrow>
       mbm_rmid_get_for_core g' (word_of_nat c) = Inr (word_of_nat c + 1, g')" by blast
  have lt: "unat (max_rmid g') < k" using assms(5) mx by simp
  have "take (Suc (unat (max_rmid g'))) [0..<k] = [0..<Suc (unat (max_rmid g'))]" using lt by (simp del: upt_Suc)
  then have "mbm_rmid_get_for_core g' (max_rmid g') = Inr (max_rmid g' + 1, g')"
    using get [of "unat (max_rmid g')"] assms(3) by simp
  moreover have "max_rmid g' < max_rmid g' + 1"
    using lt assms(4) by (simp add: word_less_nat_alt unat_word_ariths MAX_CORES_def)
  ultimately show ?thesis using i by blast
qed

text \<open>
  The constant-time lookup through \<open>core_to_rmid_map\<close> agrees with the linear search of
  \<open>mbm_rmid_get_for_core\<close> for every core id, also for cores without an entry and for ids that
  are out of range; the search releases the lock and changes nothing.
\<close>

theorem mbm_lookup_agrees:
  assumes "rmid_wf g"
  shows "\<exists>r. mbm_rmid_get_for_core g core = Inr (r, g) \<and>
    bindF (mbm_get_rmid_info_for_core g core) (\<lambda>info.
      case info of None \<Rightarrow> Inr RMID0 | Some i \<Rightarrow> bindF (table_get (rmid_mgr g) i) (\<lambda>e. Inr (rmid e))) = Inr r"
proof (cases "rmid_by_map g core")
  case (Inr r)
  then show ?thesis using get_for_core_eq [OF assms, of core] by (auto simp: rmid_by_map_def)
next
  case (Inl e)
  obtain p tab where t: "rmid_table (rmid_mgr g) = Some (p, tab)" "length tab = MAX_CORES"
    using rmid_wf_table [OF assms] by blast
  have "unat (num_cores (rmid_mgr g)) \<le> MAX_CORES"
    using assms t by (simp add: rmid_wf_def rmid_tab_wf_def)
  with Inl t show ?thesis
    by (auto simp: rmid_by_map_def lookup_eq_find [OF assms t(1)] table_get_def find_Some_iff split: option.splits if_splits)
qed

text \<open>
  A counter read programs the event selector with the RMID (ten bits) and the event, and
  reports what the counter register says: an error when bit 63 is set, unavailable when bit 62
  is set, otherwise the low 62 bits; on failure the caller's data is left alone. An unknown event
  touches no register.
\<close>

theorem mbm_read_event_outcome:
  "mbm_read_event cpu r event data m =
     (if event \<in> {1, 2, 3} then
        (let sel = push_bit 32 (ucast (take_bit 10 r)) OR ucast event; ctr = qm_ctr m cpu sel;
             m' = wrmsrl cpu MSR_IA32_QM_EVTSEL sel m in
         if bit ctr 63 then (MBM_COUNTER_READ_ERROR, data, m')
         else if bit ctr 62 then (MBM_COUNTER_READ_UNAVAIL, data, m')
         else (MBM_COUNTER_READ_SUCCESS, take_bit 62 ctr, m'))
      else (MBM_COUNTER_READ_INVALID, data, m))"
proof (cases "event \<in> {1, 2, 3}")
  case False
  then show ?thesis by (auto simp: mbm_read_event_def mbm_events)
next
  case True
  have e: "ucast event AND QM_EVTSEL_EVENT_MASK = (ucast event :: u64)"
    using True by (auto simp: QM_EVTSEL_EVENT_MASK_def)
  from True show ?thesis
    by (auto simp: mbm_read_event_def mbm_events QM_EVTSEL_RMID_SHIFT_def e ctr_masks wrmsr_halves rdmsrl_def Let_def)
qed

text \<open>
  Polling all cores never faults on a well-formed table and keeps the table invariant and
  the assignment of RMIDs to cores, whatever the counters report.
\<close>

theorem mbm_poll_all_cores_keeps_table:
  assumes "rmid_wf g"
  shows "\<exists>g' m'. mbm_poll_all_cores cfg cpu junk g m = Inr (g', m') \<and> rmid_wf g' \<and>
    (\<forall>core. mbm_get_rmid_info_for_core g' core = mbm_get_rmid_info_for_core g core \<and>
            rmid_by_map g' core = rmid_by_map g core)"
proof -
  obtain p tab where t: "rmid_table (rmid_mgr g) = Some (p, tab)" "length tab = MAX_CORES"
    using rmid_wf_table [OF assms] by blast
  obtain tab' m' where t': "foldF (poll_core cfg cpu junk) [0..<MAX_CORES] (rmid_mgr g, m) =
      Inr ((rmid_mgr g)\<lparr>rmid_table := Some (p, tab')\<rparr>, m')" "length tab' = MAX_CORES"
    "\<And>i. i < MAX_CORES \<Longrightarrow> rmid (tab' ! i) = rmid (tab ! i) \<and> core_id (tab' ! i) = core_id (tab ! i) \<and> in_use (tab' ! i) = in_use (tab ! i)"
    using poll_cores_keep [OF t, of cfg cpu junk m] t(2) by (auto simp: same_ids_def)
  let ?g' = "g\<lparr>rmid_mgr := (rmid_mgr g)\<lparr>rmid_table := Some (p, tab')\<rparr>\<rparr>"
  have "rmid_wf ?g'" using assms t t'(2,3) by (auto simp: rmid_wf_def rmid_tab_wf_def)
  moreover have info: "mbm_get_rmid_info_for_core ?g' core = mbm_get_rmid_info_for_core g core" for core
    using t t'(2,3) by (simp add: mbm_get_rmid_info_for_core_def table_get_Some Let_def)
  moreover have "rmid_by_map ?g' core = rmid_by_map g core" for core
    unfolding rmid_by_map_def info using t t'(2,3)
    by (auto simp: table_get_def fault_simps intro!: arg_cong [where f = "bindF _"] split: option.splits)
  moreover have "mbm_poll_all_cores cfg cpu junk g m = Inr (?g', m')"
    using t'(1) by (simp add: mbm_poll_all_cores_def)
  ultimately show ?thesis by blast
qed

text \<open>
  C40. Reassigning a core's RMID (the ioctl path): for a core that has a table entry, the entry
  and the register of an online core change together and the invariant stays; for any other core
  id, which the caller of the ioctl may pass, the code dereferences NULL.
\<close>

theorem mbm_set_rmid_for_core_outcome:
  assumes "rmid_wf g"
  shows "(mbm_get_rmid_info_for_core g core = Inr None \<and> mbm_set_rmid_for_core core r g m = Inl NullDeref) \<or>
    (\<exists>i g' m'. mbm_get_rmid_info_for_core g core = Inr (Some i) \<and>
       mbm_set_rmid_for_core core r g m = Inr (g', m') \<and> rmid_wf g' \<and>
       mbm_rmid_get_for_core g' core = Inr (r, g') \<and>
       (unat core \<in> set (cpu_online m) \<longrightarrow>
          take_bit 10 (msr m' (unat core) MSR_IA32_PQR_ASSOC) = ucast (take_bit 10 r)))"
proof (cases "mbm_get_rmid_info_for_core g core = Inr None")
  case True
  then show ?thesis by (simp add: mbm_set_rmid_for_core_def)
next
  case False
  obtain p tab where t: "rmid_table (rmid_mgr g) = Some (p, tab)" "length tab = MAX_CORES"
    using rmid_wf_table [OF assms] by blast
  with False obtain i where l: "mbm_get_rmid_info_for_core g core = Inr (Some i)"
    by (auto simp: lookup_eq_find [OF assms t(1)])
  have wf: "rmid_tab_wf tab (core_to_rmid_map (rmid_mgr g)) (unat (num_cores (rmid_mgr g)))"
    using assms t by (simp add: rmid_wf_def)
  have i: "i < unat (num_cores (rmid_mgr g))" "core_id (tab ! i) = core" "i < length tab" "in_use (tab ! i)"
    using l wf by (auto simp: lookup_eq_find [OF assms t(1)] find_Some_iff rmid_tab_wf_def)
  let ?e = "(tab ! i)\<lparr>rmid := r, in_use := True\<rparr>"
  let ?g' = "g\<lparr>rmid_mgr := (rmid_mgr g)\<lparr>rmid_table := Some (p, tab[i := ?e])\<rparr>\<rparr>"
  let ?m' = "smp_call_function_single (unat core) (mbm_set_rmid r) m"
  have g': "rmid_wf ?g'" using assms t i rmid_tab_wf_update [OF wf, of ?e i] by (simp add: rmid_wf_def)
  have "rmid_by_map ?g' core = Inr r"
    using lookup_hit [OF g', of p "tab[i := ?e]" i] i by (simp add: rmid_by_map_def table_get_def)
  then have "mbm_rmid_get_for_core ?g' core = Inr (r, ?g')" by (simp add: get_for_core_eq [OF g'])
  moreover have "mbm_set_rmid_for_core core r g m = Inr (?g', ?m')"
    using l t i by (simp add: mbm_set_rmid_for_core_def table_get_Some table_put_Some)
  ultimately show ?thesis
    using g' l by (intro disjI2 exI [of _ i] exI [of _ ?g'] exI [of _ ?m']) (simp add: pqr_with_fields)
qed

text \<open>
  Deinitialising a well-formed monitor frees the table exactly once, clears the RMID of
  every online core that had one, leaves every other register alone, and releases the lock.
\<close>

theorem mbm_deinit_undoes:
  assumes "rmid_wf g" and "rmid_table (rmid_mgr g) = Some (p, tab)" and "(KObj, p) \<in> live h"
  shows "\<exists>g' m' h'. mbm_deinit g m h = Inr (Ok0, g', m', h') \<and> live h' = live h - {(KObj, p)} \<and>
    rmid_table (rmid_mgr g') = None \<and> num_cores (rmid_mgr g') = 0 \<and> \<not> lock (rmid_mgr g') \<and>
    (\<forall>c a. msr m' c a =
       (if c \<in> set (cpu_online m) \<and> a = MSR_IA32_PQR_ASSOC \<and>
           (\<exists>i < unat (num_cores (rmid_mgr g)). unat (core_id (tab ! i)) = c)
        then pqr_with RMID0 (msr m c a) else msr m c a))"
proof -
  let ?n = "unat (num_cores (rmid_mgr g))" and ?r = "(rmid_mgr g)\<lparr>lock := True\<rparr>"
  have wf: "length tab = MAX_CORES" "?n \<le> MAX_CORES" "\<And>i. i < ?n \<Longrightarrow> in_use (tab ! i)" "\<not> lock (rmid_mgr g)"
    using assms(1,2) by (auto simp: rmid_wf_def rmid_tab_wf_def)
  obtain tab' m' where rel: "foldF release_slot [0..<?n] (?r, m) = Inr (?r\<lparr>rmid_table := Some (p, tab')\<rparr>, m')"
    "\<forall>c a. msr m' c a = (if c \<in> set (cpu_online m) \<and> (\<exists>i < ?n. c = unat (core_id (tab ! i))) \<and> a = MSR_IA32_PQR_ASSOC
                         then pqr_with 0 (msr m c a) else msr m c a)"
    using release_slots [of ?r p tab ?n ?n m] wf assms(2) by auto
  have "mbm_rmid_deallocate_all g m =
      Inr (g\<lparr>rmid_mgr := (rmid_mgr g)\<lparr>rmid_table := Some (p, tab'), num_cores := 0, lock := False\<rparr>\<rparr>, m')"
    using wf(4) rel(1) by (simp add: mbm_rmid_deallocate_all_def mbm_guard_enter_def mbm_guard_exit_def)
  then show ?thesis
    using assms(3) rel(2)
    by (auto simp: mbm_deinit_def mbm_rmid_deinit_def krelease_def RMID0_def)
qed

section \<open>Witnesses\<close>

text \<open>Three online cores, and a processor that reports two as its highest RMID.\<close>

definition cpuid2 :: cpuid_fn where
  "cpuid2 leaf sub = \<lparr>eax = 31, ebx = 0x1000, ecx = 2, edx = 7\<rparr>"

definition mach3 :: machine where
  "mach3 = \<lparr>msr = (\<lambda>_ _. 0), cr4 = (\<lambda>_. 0), qm_ctr = (\<lambda>_ _. 0), cpu_online = [0, 1, 2]\<rparr>"

definition mgr0 :: mbm_manager where
  "mgr0 = \<lparr>rmid_mgr = zero_rmid_manager, cap = \<lparr>l3_cmt = False, l3_mbm_total = False, l3_mbm_local = False,
     non_cpu_l3_cmt = False, non_cpu_l3_mbm = False, overflow_bit = False, counter_width = 0\<rparr>,
     scaling_factor = 0, max_rmid = 0\<rparr>"

definition heap0 :: kheap where
  "heap0 = \<lparr>alloc_ok = (\<lambda>_. True), n_req = 0, live = {}\<rparr>"

text \<open>A well-formed manager: one entry, for core 0.\<close>

definition mgr1 :: mbm_manager where
  "mgr1 = mgr0\<lparr>rmid_mgr := \<lparr>num_cores = 1,
     rmid_table = Some (0, (zero_rmid_info\<lparr>rmid := 1, in_use := True\<rparr>) # replicate 254 zero_rmid_info),
     core_to_rmid_map = replicate MAX_CORES 0, lock = False\<rparr>\<rparr>"

lemma cpuid2_supported: "mbm_is_supported cpuid2"
  by (simp add: mbm_is_supported_def cpuid2_def)

lemma mach3_online: "distinct (cpu_online mach3)" "set (cpu_online mach3) \<subseteq> {..<MAX_CORES}"
  by (simp_all add: mach3_def MAX_CORES_def)

lemma max_rmid2: "max_rmid (mbm_init_cap cpuid2 g) = 2"
  by (simp add: mbm_init_cap_def cpuid2_def MAX_RMID_def Let_def)

lemma mgr1_wf: "rmid_wf mgr1"
  by (auto simp: rmid_wf_def rmid_tab_wf_def mgr1_def mgr0_def MAX_CORES_def zero_rmid_info_def nth_Cons split: nat.splits)

theorem mbm_init_assigns_rmids_witness:
  "mbm_is_supported cpuid2 \<and> distinct (cpu_online mach3) \<and>
   (\<exists>g' m' h'. mbm_init cpuid2 mgr0 mach3 heap0 = Inr (Ok0, g', m', h') \<and> rmid_wf g')"
proof -
  have "alloc_ok heap0 (n_req heap0)" by (simp add: heap0_def)
  then show ?thesis
    using mbm_init_assigns_rmids [OF cpuid2_supported _ mach3_online] cpuid2_supported mach3_online by blast
qed

theorem mbm_init_exceeds_max_rmid_witness:
  "\<exists>g' m' h' r. mbm_init cpuid2 mgr0 mach3 heap0 = Inr (Ok0, g', m', h') \<and>
    mbm_rmid_get_for_core g' (max_rmid g') = Inr (r, g') \<and> max_rmid g' < r"
  by (rule mbm_init_exceeds_max_rmid [where k = 3])
    (simp_all add: cpuid2_supported heap0_def max_rmid2 MAX_CORES_def mach3_def upt_rec)

theorem mbm_lookup_agrees_witness:
  "rmid_wf mgr1 \<and> (\<exists>r. mbm_rmid_get_for_core mgr1 7 = Inr (r, mgr1))"
  using mbm_lookup_agrees [OF mgr1_wf, of 7] mgr1_wf by blast

theorem mbm_poll_all_cores_keeps_table_witness:
  "rmid_wf mgr1 \<and> (\<exists>g' m'. mbm_poll_all_cores config_h 0
     \<lparr>cd_rmid = 0, cd_total_bw = 0, cd_local_bw = 0, cd_occupancy = 0, cd_status = MBM_COUNTER_READ_ERROR\<rparr>
     mgr1 mach3 = Inr (g', m') \<and> rmid_wf g')"
  using mbm_poll_all_cores_keeps_table [OF mgr1_wf] mgr1_wf by blast

theorem mbm_set_rmid_for_core_outcome_witness:
  "rmid_wf mgr1 \<and> mbm_get_rmid_info_for_core mgr1 7 = Inr None \<and> mbm_set_rmid_for_core 7 5 mgr1 mach3 = Inl NullDeref"
proof -
  have "mbm_get_rmid_info_for_core mgr1 7 = Inr None"
    by (simp add: mbm_get_rmid_info_for_core_def table_get_def mgr1_def MAX_CORES_def zero_rmid_info_def)
  then show ?thesis using mbm_set_rmid_for_core_outcome [OF mgr1_wf, of 7 5 mach3] mgr1_wf by simp
qed

theorem mbm_deinit_undoes_witness:
  "rmid_wf mgr1 \<and> (\<exists>g' m' h'. mbm_deinit mgr1 mach3 (heap0\<lparr>live := {(KObj, 0)}\<rparr>) = Inr (Ok0, g', m', h') \<and> live h' = {})"
proof -
  have t: "rmid_table (rmid_mgr mgr1) = Some (0, (zero_rmid_info\<lparr>rmid := 1, in_use := True\<rparr>) # replicate 254 zero_rmid_info)"
    by (simp add: mgr1_def)
  from mbm_deinit_undoes [OF mgr1_wf t, of "heap0\<lparr>live := {(KObj, 0)}\<rparr>" mach3] mgr1_wf show ?thesis
    by (auto simp: heap0_def)
qed

end
