(* ===== verification/Mmio.thy ===== *)
theory Mmio
  imports Kernel
begin

text \<open>
  Memory-mapped registers: \<open>src/include/mmio.h\<close>, \<open>src/src/mmio.c\<close>,
  \<open>src/include/cpucounters.h\<close> and \<open>src/src/cpucounters.c\<close>. The device behind the mapping is
  a parameter: a \<open>bus\<close> gives the 32-bit word at a physical address, the effect of writing one,
  and how the device changes on its own while its memory is being copied. A mapping remembers the physical base it was created for, so that an access is an access
  at a physical address; a range, a register and a mapping are allocations of the kernel heap.

  The lemmas show that an access is performed when it lies in its mapping, is skipped when it does
  not, and leaves the mapping only when the offset wraps around, that a copy out of device memory reads every word once and releases its mapping
  on every path, and that creating and destroying a register balances the heap.
\<close>

section \<open>The bus\<close>

text \<open>
  \<open>drift n k\<close> is the device as the \<open>k\<close>th word of a copy finds it, where \<open>n\<close> is the number of allocation
  requests made before the copy: every copy maps its source first, so no two copies that read
  have the same number, and every word of every copy may be read from another state of the device.
\<close>

record 'd bus =
  rd32 :: "u64 \<Rightarrow> 'd \<Rightarrow> u32"
  wr32 :: "u64 \<Rightarrow> u32 \<Rightarrow> 'd \<Rightarrow> 'd"
  drift :: "nat \<Rightarrow> nat \<Rightarrow> 'd \<Rightarrow> 'd"

text \<open>\<open>ioread64_lo_hi\<close> and \<open>iowrite64_lo_hi\<close> access the low word first.\<close>

definition ioread64_lo_hi :: "'d bus \<Rightarrow> u64 \<Rightarrow> 'd \<Rightarrow> u64" where
  "ioread64_lo_hi b a d = ucast (rd32 b a d) OR push_bit 32 (ucast (rd32 b (a + 4) d))"

definition iowrite64_lo_hi :: "'d bus \<Rightarrow> u64 \<Rightarrow> u64 \<Rightarrow> 'd \<Rightarrow> 'd" where
  "iowrite64_lo_hi b v a d = wr32 b (a + 4) (ucast (drop_bit 32 v)) (wr32 b a (ucast v) d)"

section \<open>Ranges (mmio.h, mmio.c)\<close>

record mmio_range =
  mr_ptr :: nat
  mmap_addr :: nat
  mr_base :: u64
  mr_size :: u64
  mr_silent :: bool
  mr_core :: int

definition mmio_range_create :: "u64 \<Rightarrow> u64 \<Rightarrow> bool \<Rightarrow> int \<Rightarrow> kheap \<Rightarrow> (mmio_range option \<times> kheap) may" where
  "mmio_range_create base_addr sz silent core h =
     (case kalloc KObj h of
        (None, h) \<Rightarrow> Inr (None, h)
      | (Some p, h) \<Rightarrow>
          (case kalloc KIomap h of
             (None, h) \<Rightarrow> bindF (krelease KObj p h) (\<lambda>h. Inr (None, h))
           | (Some a, h) \<Rightarrow>
               Inr (Some \<lparr>mr_ptr = p, mmap_addr = a, mr_base = base_addr, mr_size = sz, mr_silent = silent,
                          mr_core = core\<rparr>, h)))"

definition mmio_range_destroy :: "mmio_range option \<Rightarrow> kheap \<Rightarrow> kheap may" where
  "mmio_range_destroy r h =
     (case r of
        None \<Rightarrow> Inr h
      | Some r \<Rightarrow> bindF (krelease KIomap (mmap_addr r) h) (krelease KObj (mr_ptr r)))"

text \<open>
  The accessors compare \<open>offset + size\<close>, computed in 64 bits, with the size of the range. An
  access that passes the check but lies outside the range is a fault.
\<close>

definition in_range :: "mmio_range \<Rightarrow> u64 \<Rightarrow> nat \<Rightarrow> bool" where
  "in_range r offset n \<longleftrightarrow> unat offset + n \<le> unat (mr_size r)"

definition mmio_read32 :: "'d bus \<Rightarrow> 'd \<Rightarrow> mmio_range \<Rightarrow> u64 \<Rightarrow> u32 may" where
  "mmio_read32 b d r offset =
     (if mr_size r < offset + 4 then Inr 0
      else if in_range r offset 4 then Inr (rd32 b (mr_base r + offset) d)
      else Inl OutOfBounds)"

definition mmio_read64 :: "'d bus \<Rightarrow> 'd \<Rightarrow> mmio_range \<Rightarrow> u64 \<Rightarrow> u64 may" where
  "mmio_read64 b d r offset =
     (if mr_size r < offset + 8 then Inr 0
      else if in_range r offset 8 then Inr (ioread64_lo_hi b (mr_base r + offset) d)
      else Inl OutOfBounds)"

definition mmio_write32 :: "'d bus \<Rightarrow> mmio_range \<Rightarrow> u64 \<Rightarrow> u32 \<Rightarrow> 'd \<Rightarrow> 'd may" where
  "mmio_write32 b r offset v d =
     (if mr_size r < offset + 4 then Inr d
      else if in_range r offset 4 then Inr (wr32 b (mr_base r + offset) v d)
      else Inl OutOfBounds)"

definition mmio_write64 :: "'d bus \<Rightarrow> mmio_range \<Rightarrow> u64 \<Rightarrow> u64 \<Rightarrow> 'd \<Rightarrow> 'd may" where
  "mmio_write64 b r offset v d =
     (if mr_size r < offset + 8 then Inr d
      else if in_range r offset 8 then Inr (iowrite64_lo_hi b v (mr_base r + offset) d)
      else Inl OutOfBounds)"

text \<open>
  The copy loop of \<open>mmio_memcpy\<close>, over the values of \<open>i\<close>: the words read so far, and whether
  a word read as all ones. The \<open>k\<close>th word is read from the state \<open>d k\<close> of the device.
\<close>

fun copy_words ::
  "'d bus \<Rightarrow> (nat \<Rightarrow> 'd) \<Rightarrow> mmio_range \<Rightarrow> u64 \<Rightarrow> bool \<Rightarrow> u64 list \<Rightarrow> u32 list \<Rightarrow> (bool \<times> u32 list) may" where
  "copy_words b d r off check [] ws = Inr (True, ws)"
| "copy_words b d r off check (i # is) ws =
     bindF (mmio_read32 b (d (length ws)) r (off + i)) (\<lambda>v.
       if check \<and> v = 0xFFFFFFFF then Inr (False, ws) else copy_words b d r off check is (ws @ [v]))"

definition mmio_memcpy ::
  "'d bus \<Rightarrow> 'd \<Rightarrow> u64 \<Rightarrow> u64 \<Rightarrow> bool \<Rightarrow> bool \<Rightarrow> kheap \<Rightarrow> (ret \<times> u32 list \<times> kheap) may" where
  "mmio_memcpy b d src n check_failures silent h =
     (if src AND 3 \<noteq> 0 \<or> n AND 3 \<noteq> 0 then Inr (Neg EINVAL, [], h)
      else
        (let map_begin = src AND PAGE_MASK; map_size = PAGE_ALIGN (src + n) - map_begin; n_0 = n_req h in
         bindF (mmio_range_create map_begin map_size silent (-1) h) (\<lambda>(range, h).
           case range of
             None \<Rightarrow> Inr (Neg ENOMEM, [], h)
           | Some r \<Rightarrow>
               bindF (copy_words b (\<lambda>k. drift b n_0 k d) r (src - map_begin) check_failures
                        (map (\<lambda>k. word_of_nat (4 * k)) [0..<unat n div 4]) []) (\<lambda>(ok, ws).
                 bindF (mmio_range_destroy range h) (\<lambda>h.
                   Inr (if ok then Ok0 else Neg EIO, ws, h))))))"

section \<open>Registers (cpucounters.h, cpucounters.c)\<close>

definition HW_REG_MAGIC :: string where "HW_REG_MAGIC = ''DEADBEEF''"

datatype EventPosition = EVENT_READ | EVENT_WRITE | EVENT_READ2 | EVENT_WRITE2

fun event_index :: "EventPosition \<Rightarrow> nat" where
  "event_index EVENT_READ = 0"
| "event_index EVENT_WRITE = 1"
| "event_index EVENT_READ2 = 2"
| "event_index EVENT_WRITE2 = 3"

datatype SupportedCPUModels = SPR | END_OF_MODEL_LIST

text \<open>The two tables of operations, and a register with the common header and its own fields.\<close>

datatype hw_reg_ops = vt_mmio_reg32_ops | vt_mmio_reg64_ops

record hw_reg =
  reg_ptr :: nat
  magic :: "string option"
  ops :: "hw_reg_ops option"
  handle :: "mmio_range option"
  offset :: u64

definition mmio_reg32_read :: "'d bus \<Rightarrow> 'd \<Rightarrow> hw_reg \<Rightarrow> u64 may" where
  "mmio_reg32_read b d reg =
     (case handle reg of None \<Rightarrow> Inl NullDeref
      | Some r \<Rightarrow> bindF (mmio_read32 b d r (offset reg)) (\<lambda>v. Inr (ucast v)))"

definition mmio_reg32_write :: "'d bus \<Rightarrow> hw_reg \<Rightarrow> u64 \<Rightarrow> 'd \<Rightarrow> 'd may" where
  "mmio_reg32_write b reg v d =
     (case handle reg of None \<Rightarrow> Inl NullDeref | Some r \<Rightarrow> mmio_write32 b r (offset reg) (ucast v) d)"

definition mmio_reg64_read :: "'d bus \<Rightarrow> 'd \<Rightarrow> hw_reg \<Rightarrow> u64 may" where
  "mmio_reg64_read b d reg =
     (case handle reg of None \<Rightarrow> Inl NullDeref | Some r \<Rightarrow> mmio_read64 b d r (offset reg))"

definition mmio_reg64_write :: "'d bus \<Rightarrow> hw_reg \<Rightarrow> u64 \<Rightarrow> 'd \<Rightarrow> 'd may" where
  "mmio_reg64_write b reg v d =
     (case handle reg of None \<Rightarrow> Inl NullDeref | Some r \<Rightarrow> mmio_write64 b r (offset reg) v d)"

definition mmio_reg32_create :: "mmio_range option \<Rightarrow> u64 \<Rightarrow> kheap \<Rightarrow> hw_reg option \<times> kheap" where
  "mmio_reg32_create hnd off h =
     (case kalloc KObj h of
        (None, h) \<Rightarrow> (None, h)
      | (Some p, h) \<Rightarrow> (Some \<lparr>reg_ptr = p, magic = Some HW_REG_MAGIC, ops = Some vt_mmio_reg32_ops,
                              handle = hnd, offset = off\<rparr>, h))"

definition mmio_reg64_create :: "mmio_range option \<Rightarrow> u64 \<Rightarrow> kheap \<Rightarrow> hw_reg option \<times> kheap" where
  "mmio_reg64_create hnd off h =
     (case kalloc KObj h of
        (None, h) \<Rightarrow> (None, h)
      | (Some p, h) \<Rightarrow> (Some \<lparr>reg_ptr = p, magic = Some HW_REG_MAGIC, ops = Some vt_mmio_reg64_ops,
                              handle = hnd, offset = off\<rparr>, h))"

definition mmio_reg32_destroy :: "hw_reg \<Rightarrow> kheap \<Rightarrow> kheap may" where
  "mmio_reg32_destroy reg h =
     bindF (case handle reg of None \<Rightarrow> Inr h | Some r \<Rightarrow> mmio_range_destroy (Some r) h) (krelease KObj (reg_ptr reg))"

definition mmio_reg64_destroy :: "hw_reg \<Rightarrow> kheap \<Rightarrow> kheap may" where
  "mmio_reg64_destroy reg h =
     bindF (case handle reg of None \<Rightarrow> Inr h | Some r \<Rightarrow> mmio_range_destroy (Some r) h) (krelease KObj (reg_ptr reg))"

definition hw_reg_write :: "'d bus \<Rightarrow> hw_reg option \<Rightarrow> u64 \<Rightarrow> 'd \<Rightarrow> 'd may" where
  "hw_reg_write b self v d =
     (case self of
        None \<Rightarrow> Inr d
      | Some reg \<Rightarrow>
          (case ops reg of
             None \<Rightarrow> Inr d
           | Some vt_mmio_reg32_ops \<Rightarrow> mmio_reg32_write b reg v d
           | Some vt_mmio_reg64_ops \<Rightarrow> mmio_reg64_write b reg v d))"

definition hw_reg_read :: "'d bus \<Rightarrow> 'd \<Rightarrow> hw_reg option \<Rightarrow> u64 may" where
  "hw_reg_read b d self =
     (case self of
        None \<Rightarrow> Inr 0
      | Some reg \<Rightarrow>
          (case ops reg of
             None \<Rightarrow> Inr 0
           | Some vt_mmio_reg32_ops \<Rightarrow> mmio_reg32_read b d reg
           | Some vt_mmio_reg64_ops \<Rightarrow> mmio_reg64_read b d reg))"

definition hw_reg_is_valid :: "hw_reg option \<Rightarrow> bool" where
  "hw_reg_is_valid self = (case self of None \<Rightarrow> False | Some reg \<Rightarrow> magic reg = Some HW_REG_MAGIC)"

definition hw_reg_destroy :: "hw_reg option \<Rightarrow> kheap \<Rightarrow> kheap may" where
  "hw_reg_destroy self h =
     (if \<not> hw_reg_is_valid self then Inr h
      else
        (case self of
           None \<Rightarrow> Inr h
         | Some reg \<Rightarrow>
             (case ops reg of
                None \<Rightarrow> Inr h
              | Some vt_mmio_reg32_ops \<Rightarrow> mmio_reg32_destroy reg h
              | Some vt_mmio_reg64_ops \<Rightarrow> mmio_reg64_destroy reg h)))"

section \<open>Bounds\<close>

text \<open>Below the wrap-around, the check of the accessors is exactly the containment in the range.\<close>

lemma bounds_check:
  assumes "unat off + unat k < 2 ^ 64"
  shows "mr_size r < off + k \<longleftrightarrow> \<not> in_range r off (unat k)"
proof -
  have "unat (off + k) = unat off + unat k"
    using assms by (simp add: unat_word_ariths)
  then show ?thesis by (simp add: word_less_nat_alt in_range_def not_le)
qed

lemma small_offset: "unat (off :: u64) < 4096 \<Longrightarrow> unat off + unat (4 :: u64) < 2 ^ 64 \<and> unat off + unat (8 :: u64) < 2 ^ 64"
  by simp

lemma mmio_read32_in_range:
  "in_range r off 4 \<Longrightarrow> unat off + 4 < 2 ^ 64 \<Longrightarrow> mmio_read32 b d r off = Inr (rd32 b (mr_base r + off) d)"
  using bounds_check [of off 4 r] by (simp add: mmio_read32_def)

section \<open>Creating and destroying a range\<close>

lemma mmio_range_create_spec:
  assumes "heap_wf h"
  shows "\<exists>r h'. mmio_range_create base sz silent core h = Inr (r, h') \<and> heap_wf h' \<and> alloc_ok h' = alloc_ok h \<and>
    n_req h \<le> n_req h' \<and>
    (case r of
       None \<Rightarrow> live h' = live h \<and> (\<exists>k. \<not> alloc_ok h k)
     | Some r \<Rightarrow> mr_base r = base \<and> mr_size r = sz \<and> mr_ptr r \<ge> n_req h \<and> mmap_addr r \<ge> n_req h \<and>
         mr_ptr r < n_req h' \<and> mmap_addr r < n_req h' \<and>
         live h' = live h \<union> {(KObj, mr_ptr r), (KIomap, mmap_addr r)})"
  using assms
  by (auto simp: mmio_range_create_def kalloc_def krelease_def heap_wf_def less_SucI split: if_splits)

lemma mmio_range_destroy_spec:
  assumes "heap_wf h" and "(KObj, mr_ptr r) \<in> live h" and "(KIomap, mmap_addr r) \<in> live h"
  shows "\<exists>h'. mmio_range_destroy (Some r) h = Inr h' \<and> heap_wf h' \<and> alloc_ok h' = alloc_ok h \<and> n_req h' = n_req h \<and>
    live h' = live h - {(KObj, mr_ptr r), (KIomap, mmap_addr r)}"
  using assms by (auto simp: mmio_range_destroy_def krelease_def heap_wf_def)

section \<open>Copying out of device memory\<close>

lemma copy_words_eq:
  assumes "\<And>k. k < length is \<Longrightarrow> mmio_read32 b (d (length ws + k)) r (off + is ! k) = Inr (vs ! k)" and "length vs = length is"
  shows "copy_words b d r off check is ws =
    Inr (if check \<and> 0xFFFFFFFF \<in> set vs then (False, ws @ takeWhile (\<lambda>v. v \<noteq> 0xFFFFFFFF) vs) else (True, ws @ vs))"
  using assms
proof (induction "is" arbitrary: ws vs)
  case Nil
  then show ?case by simp
next
  case (Cons i "is")
  obtain v vs1 where vs: "vs = v # vs1" "length vs1 = length is" using Cons.prems(2) by (cases vs) auto
  have "mmio_read32 b (d (length ws)) r (off + i) = Inr v" using Cons.prems(1) [of 0] vs by simp
  moreover have "mmio_read32 b (d (length (ws @ [v]) + k)) r (off + is ! k) = Inr (vs1 ! k)" if "k < length is" for k
    using Cons.prems(1) [of "Suc k"] vs that by simp
  ultimately show ?case using Cons.IH [of "ws @ [v]" vs1] vs by auto
qed

lemma unat_page_floor: "unat (x AND PAGE_MASK) = unat x - unat x mod 4096"
proof -
  have "x AND PAGE_MASK = push_bit 12 (drop_bit 12 x)"
  proof -
    have m: "PAGE_SIZE - 1 = Bit_Operations.mask 12" by (simp add: PAGE_SIZE_def mask_eq_exp_minus_1)
    show ?thesis unfolding PAGE_MASK_def m by (rule bit_word_eqI) (auto simp: bit_simps)
  qed
  then have "unat (x AND PAGE_MASK) = take_bit 64 (unat x div 4096 * 4096)"
    by (simp add: push_bit_eq_mult drop_bit_eq_div unat_word_ariths unat_div take_bit_eq_mod mod_simps)
  also have "\<dots> = unat x div 4096 * 4096"
  proof -
    have "unat x < 2 ^ 64" using unsigned_less [of x] by simp
    then have "unat x div 4096 * 4096 < 2 ^ 64" by (meson div_times_less_eq_dividend order_le_less_trans)
    then show ?thesis by (simp add: take_bit_nat_eq_self)
  qed
  finally show ?thesis by (simp add: minus_mod_eq_div_mult)
qed

lemma page_window:
  assumes "unat src + unat n + 4096 \<le> 2 ^ 64"
  shows "unat (src - (src AND PAGE_MASK)) = unat src mod 4096"
    and "unat src mod 4096 + unat n \<le> unat (PAGE_ALIGN (src + n) - (src AND PAGE_MASK))"
proof -
  let ?b = "src AND PAGE_MASK"
  have b: "unat ?b = unat src - unat src mod 4096" by (rule unat_page_floor)
  then show "unat (src - ?b) = unat src mod 4096" by (subst unat_sub) (simp_all add: word_le_nat_alt)
  have s: "unat (src + n + (PAGE_SIZE - 1)) = unat src + unat n + 4095"
    using assms by (simp add: unat_word_ariths PAGE_SIZE_def)
  have a: "PAGE_ALIGN (src + n) = (src + n + (PAGE_SIZE - 1)) AND PAGE_MASK"
    by (simp add: PAGE_ALIGN_def PAGE_MASK_def)
  have "(unat src + unat n + 4095) mod 4096 \<le> 4095" by simp
  then have ge: "unat src + unat n \<le> unat (PAGE_ALIGN (src + n))"
    unfolding a unat_page_floor s by arith
  then have "?b \<le> PAGE_ALIGN (src + n)" using b by (simp add: word_le_nat_alt)
  then have "unat (PAGE_ALIGN (src + n) - ?b) = unat (PAGE_ALIGN (src + n)) - unat ?b" by (rule unat_sub)
  then show "unat src mod 4096 + unat n \<le> unat (PAGE_ALIGN (src + n) - ?b)"
    using ge b by (simp add: algebra_simps)
qed

lemma window_read:
  assumes "unat src + unat n + 4096 \<le> 2 ^ 64" and "mr_base r = src AND PAGE_MASK"
    and "mr_size r = PAGE_ALIGN (src + n) - (src AND PAGE_MASK)" and "k < unat n div 4"
  shows "mmio_read32 b d r (src - (src AND PAGE_MASK) + word_of_nat (4 * k)) = Inr (rd32 b (src + word_of_nat (4 * k)) d)"
proof -
  let ?b = "src AND PAGE_MASK" and ?i = "word_of_nat (4 * k) :: u64"
  have k4: "4 * k + 4 \<le> unat n" using assms(4) by simp
  then have ui: "unat ?i = 4 * k" using assms(1) by (simp add: unat_of_nat del: of_nat_mult)
  have m: "unat src mod 4096 < 4096" by simp
  have off: "unat (src - ?b + ?i) = unat src mod 4096 + 4 * k"
    using k4 assms(1) m by (simp add: unat_word_ariths page_window(1) [OF assms(1)] ui del: of_nat_mult)
  have "in_range r (src - ?b + ?i) 4"
    using page_window(2) [OF assms(1)] k4 off by (simp add: in_range_def assms(3))
  moreover have "unat (src - ?b + ?i) + 4 < 2 ^ 64" using off k4 assms(1) m by linarith
  ultimately show ?thesis by (simp add: mmio_read32_in_range assms(2))
qed

lemma mmio_memcpy_outcome:
  assumes "heap_wf h" and "src AND 3 = 0" and "n AND 3 = 0" and "unat src + unat n + 4096 \<le> 2 ^ 64"
  shows "\<exists>ret ws h'. mmio_memcpy b d src n check silent h = Inr (ret, ws, h') \<and>
    live h' = live h \<and> heap_wf h' \<and> alloc_ok h' = alloc_ok h \<and> n_req h \<le> n_req h' \<and>
    (let vals = map (\<lambda>k. rd32 b (src + word_of_nat (4 * k)) (drift b (n_req h) k d)) [0..<unat n div 4] in
     (ret = Neg ENOMEM \<and> ws = [] \<and> (\<exists>k. \<not> alloc_ok h k)) \<or>
     (ret = Neg EIO \<and> check \<and> 0xFFFFFFFF \<in> set vals \<and> ws = takeWhile (\<lambda>v. v \<noteq> 0xFFFFFFFF) vals) \<or>
     (ret = Ok0 \<and> (check \<longrightarrow> 0xFFFFFFFF \<notin> set vals) \<and> ws = vals))"
proof -
  let ?b = "src AND PAGE_MASK" and ?is = "map (\<lambda>k. word_of_nat (4 * k) :: u64) [0..<unat n div 4]"
  let ?sz = "PAGE_ALIGN (src + n) - (src AND PAGE_MASK)"
  obtain r h1 where c: "mmio_range_create ?b ?sz silent (-1) h = Inr (r, h1)" "heap_wf h1" "alloc_ok h1 = alloc_ok h"
    "n_req h \<le> n_req h1"
    "case r of None \<Rightarrow> live h1 = live h \<and> (\<exists>k. \<not> alloc_ok h k)
     | Some r \<Rightarrow> mr_base r = ?b \<and> mr_size r = ?sz \<and> mr_ptr r \<ge> n_req h \<and> mmap_addr r \<ge> n_req h \<and>
         mr_ptr r < n_req h1 \<and> mmap_addr r < n_req h1 \<and>
         live h1 = live h \<union> {(KObj, mr_ptr r), (KIomap, mmap_addr r)}"
    using mmio_range_create_spec [OF assms(1)] by blast
  show ?thesis
  proof (cases r)
    case None
    with c assms(2,3) show ?thesis by (simp add: mmio_memcpy_def Let_def)
  next
    case (Some rg)
    with c(5) have rg: "mr_base rg = ?b" "mr_size rg = ?sz" "n_req h \<le> mr_ptr rg" "n_req h \<le> mmap_addr rg"
      "live h1 = live h \<union> {(KObj, mr_ptr rg), (KIomap, mmap_addr rg)}" by auto
    let ?d = "\<lambda>k. drift b (n_req h) k d"
    let ?vs = "map (\<lambda>k. rd32 b (src + word_of_nat (4 * k)) (?d k)) [0..<unat n div 4]"
    have rd: "mmio_read32 b (?d (length [] + k)) rg (src - ?b + ?is ! k) = Inr (?vs ! k)" if "k < length ?is" for k
      using window_read [OF assms(4) rg(1,2)] that by simp
    obtain h2 where d: "mmio_range_destroy (Some rg) h1 = Inr h2" "heap_wf h2" "alloc_ok h2 = alloc_ok h1"
      "n_req h2 = n_req h1" "live h2 = live h1 - {(KObj, mr_ptr rg), (KIomap, mmap_addr rg)}"
      using mmio_range_destroy_spec [OF c(2), of rg] rg(5) by auto
    have "(KObj, mr_ptr rg) \<notin> live h" "(KIomap, mmap_addr rg) \<notin> live h"
      using assms(1) rg(3,4) by (auto simp: heap_wf_def dest: leD)
    then have live: "live h2 = live h" using d(5) rg(5) by auto
    show ?thesis
      using Some c(1,3,4) d live assms(2,3) copy_words_eq [of ?is b ?d "[]" rg "src - ?b" ?vs check, OF rd]
      by (auto simp: mmio_memcpy_def Let_def simp del: set_map)
  qed
qed

lemma access_faults_iff:
  fixes off k :: u64
  shows "(\<not> mr_size r < off + k \<and> \<not> in_range r off (unat k)) \<longleftrightarrow>
    2 ^ 64 \<le> unat off + unat k \<and> off + k \<le> mr_size r"
proof (cases "unat off + unat k < 2 ^ 64")
  case True
  then show ?thesis using bounds_check [OF True, of r] by (auto simp: not_less)
next
  case False
  have "unat (mr_size r) < 2 ^ 64" using unsigned_less [of "mr_size r"] by simp
  then show ?thesis using False by (auto simp: in_range_def not_less)
qed

text \<open>The check of the accessors in natural arithmetic, and the two halves of a 64-bit access.\<close>

lemma check_cases:
  fixes off k :: u64
  shows "mr_size r < off + k \<longleftrightarrow>
    \<not> (2 ^ 64 \<le> unat off + unat k \<and> off + k \<le> mr_size r) \<and> \<not> in_range r off (unat k)"
proof -
  have "unat (mr_size r) < 2 ^ 64" using unsigned_less [of "mr_size r"] by simp
  then have "in_range r off (unat k) \<Longrightarrow> unat off + unat k < 2 ^ 64" by (simp add: in_range_def)
  then show ?thesis using access_faults_iff [of r off k] bounds_check [of off k r] by (auto simp: not_less)
qed

lemma read32_cases:
  "mmio_read32 b d r off =
     (if 2 ^ 64 \<le> unat off + 4 \<and> off + 4 \<le> mr_size r then Inl OutOfBounds
      else if unat off + 4 \<le> unat (mr_size r) then Inr (rd32 b (mr_base r + off) d) else Inr 0)"
  using check_cases [of r off 4] access_faults_iff [of r off 4] by (auto simp: mmio_read32_def in_range_def not_less)

lemma write32_cases:
  "mmio_write32 b r off v d =
     (if 2 ^ 64 \<le> unat off + 4 \<and> off + 4 \<le> mr_size r then Inl OutOfBounds
      else if unat off + 4 \<le> unat (mr_size r) then Inr (wr32 b (mr_base r + off) v d) else Inr d)"
  using check_cases [of r off 4] access_faults_iff [of r off 4] by (auto simp: mmio_write32_def in_range_def not_less)

lemma read64_cases:
  "mmio_read64 b d r off =
     (if 2 ^ 64 \<le> unat off + 8 \<and> off + 8 \<le> mr_size r then Inl OutOfBounds
      else if unat off + 8 \<le> unat (mr_size r) then Inr (ioread64_lo_hi b (mr_base r + off) d) else Inr 0)"
  using check_cases [of r off 8] access_faults_iff [of r off 8] by (auto simp: mmio_read64_def in_range_def not_less)

lemma write64_cases:
  "mmio_write64 b r off v d =
     (if 2 ^ 64 \<le> unat off + 8 \<and> off + 8 \<le> mr_size r then Inl OutOfBounds
      else if unat off + 8 \<le> unat (mr_size r) then Inr (iowrite64_lo_hi b v (mr_base r + off) d) else Inr d)"
  using check_cases [of r off 8] access_faults_iff [of r off 8] by (auto simp: mmio_write64_def in_range_def not_less)

lemma ioread64_value:
  "ioread64_lo_hi b a d = word_of_nat (unat (rd32 b a d) + 2 ^ 32 * unat (rd32 b (a + 4) d))"
proof -
  have "ioread64_lo_hi b a d = ucast (rd32 b a d) + push_bit 32 (ucast (rd32 b (a + 4) d))"
    unfolding ioread64_lo_hi_def by (rule disjunctive_add [symmetric]) (auto simp: bit_simps dest: bit_imp_le_length)
  also have "\<dots> = word_of_nat (unat (rd32 b a d)) + 2 ^ 32 * word_of_nat (unat (rd32 b (a + 4) d))"
    by (simp add: push_bit_eq_mult mult.commute unsigned_ucast_eq)
  finally show ?thesis by simp
qed

lemma iowrite64_value:
  "iowrite64_lo_hi b v a d = wr32 b (a + 4) (word_of_nat (unat v div 2 ^ 32)) (wr32 b a (word_of_nat (unat v mod 2 ^ 32)) d)"
proof -
  have "ucast v = (word_of_nat (unat v mod 2 ^ 32) :: u32)"
    by (rule word_unat_eq_iff [THEN iffD2]) (simp add: unat_of_nat unsigned_ucast_eq take_bit_eq_mod)
  moreover have "ucast (drop_bit 32 v) = (word_of_nat (unat v div 2 ^ 32) :: u32)"
    by (rule word_unat_eq_iff [THEN iffD2]) (simp add: unat_of_nat unsigned_ucast_eq take_bit_eq_mod unat_drop_bit_eq drop_bit_eq_div unat_div)
  ultimately show ?thesis by (simp add: iowrite64_lo_hi_def)
qed

section \<open>Properties\<close>

text \<open>
  Copying out of device memory, for an aligned source that does not lie at the end of the
  address space, never faults and releases its mapping on every path. It returns either ENOMEM
  (only when an allocation failed), or EIO when failures are checked and some word reads as all
  ones (after delivering the words before it), or success with every word of the area read once,
  in order, each from the state the device is in when the copy comes to it.
\<close>

theorem mmio_memcpy_reads:
  assumes "heap_wf h" and "src AND 3 = 0" and "n AND 3 = 0" and "unat src + unat n + 4096 \<le> 2 ^ 64"
  shows "\<exists>ret ws h'. mmio_memcpy b d src n check silent h = Inr (ret, ws, h') \<and> live h' = live h \<and>
    (let vals = map (\<lambda>k. rd32 b (src + word_of_nat (4 * k)) (drift b (n_req h) k d)) [0..<unat n div 4] in
     (ret = Neg ENOMEM \<and> ws = [] \<and> (\<exists>k. \<not> alloc_ok h k)) \<or>
     (ret = Neg EIO \<and> check \<and> 0xFFFFFFFF \<in> set vals \<and> ws = takeWhile (\<lambda>v. v \<noteq> 0xFFFFFFFF) vals) \<or>
     (ret = Ok0 \<and> (check \<longrightarrow> 0xFFFFFFFF \<notin> set vals) \<and> ws = vals))"
  using mmio_memcpy_outcome [OF assms, of b d check silent] unfolding Let_def by blast

text \<open>
  C37. What the four accessors do, in natural arithmetic: an access whose bytes lie inside the
  mapping is performed, at the base plus the offset, a 64-bit one as two 32-bit ones with the low word
  first; an access outside it reads as zero or writes nothing; and the one exception is an offset so large
  that \<open>offset + size\<close> overflows 64 bits and the wrapped sum passes the comparison: then, and only
  then, the accessor leaves the mapping.
\<close>

theorem mmio_bounds_exact:
  "mmio_read32 b d r off =
     (if 2 ^ 64 \<le> unat off + 4 \<and> off + 4 \<le> mr_size r then Inl OutOfBounds
      else if unat off + 4 \<le> unat (mr_size r) then Inr (rd32 b (mr_base r + off) d) else Inr 0) \<and>
   mmio_read64 b d r off =
     (if 2 ^ 64 \<le> unat off + 8 \<and> off + 8 \<le> mr_size r then Inl OutOfBounds
      else if unat off + 8 \<le> unat (mr_size r)
      then Inr (word_of_nat (unat (rd32 b (mr_base r + off) d) + 2 ^ 32 * unat (rd32 b (mr_base r + off + 4) d)))
      else Inr 0) \<and>
   mmio_write32 b r off v d =
     (if 2 ^ 64 \<le> unat off + 4 \<and> off + 4 \<le> mr_size r then Inl OutOfBounds
      else if unat off + 4 \<le> unat (mr_size r) then Inr (wr32 b (mr_base r + off) v d) else Inr d) \<and>
   mmio_write64 b r off w d =
     (if 2 ^ 64 \<le> unat off + 8 \<and> off + 8 \<le> mr_size r then Inl OutOfBounds
      else if unat off + 8 \<le> unat (mr_size r)
      then Inr (wr32 b (mr_base r + off + 4) (word_of_nat (unat w div 2 ^ 32))
                  (wr32 b (mr_base r + off) (word_of_nat (unat w mod 2 ^ 32)) d))
      else Inr d)"
  by (simp add: read32_cases read64_cases write32_cases write64_cases ioread64_value iowrite64_value)

section \<open>Witnesses\<close>

definition mem_bus :: "(u64 \<Rightarrow> u32) bus" where
  "mem_bus = \<lparr>rd32 = (\<lambda>a d. d a), wr32 = (\<lambda>a v d. d(a := v)), drift = (\<lambda>_ _ d. d)\<rparr>"

definition heap_full :: kheap where
  "heap_full = \<lparr>alloc_ok = (\<lambda>_. True), n_req = 0, live = {}\<rparr>"

lemma heap_full_wf: "heap_wf heap_full"
  by (simp add: heap_wf_def heap_full_def)

theorem mmio_memcpy_reads_witness:
  "\<exists>h'. mmio_memcpy mem_bus (\<lambda>a. if a = 0x1004 then 9 else 7) 0x1000 8 True False heap_full = Inr (Ok0, [7, 9], h') \<and>
    live h' = {}"
proof -
  have "[0..<unat (8 :: u64) div 4] = [0, 1]" by (simp add: upt_rec)
  with mmio_memcpy_reads [where h = heap_full and src = "0x1000" and n = 8 and b = mem_bus and check = True and silent = False
      and d = "\<lambda>a. if a = 0x1004 then 9 else 7", OF heap_full_wf]
  show ?thesis by (auto simp: mem_bus_def heap_full_def Let_def)
qed

end
