(* ===== verification/Discovery.thy ===== *)
theory Discovery
  imports Mmio
begin

text \<open>
  Discovery of the uncore PMUs: \<open>src/include/pci.h\<close>,
  \<open>src/include/uncore_pmu_discovery.h\<close> and \<open>src/src/uncore_pmu_discovery.c\<close>. PCI configuration
  space is a parameter (what the kernel's PCI functions return for a device), the discovery table
  is read through the bus of theory Mmio. The C bit fields are decoded from the raw words.

  The lemmas show that the two passes over a socket's table fill each list with exactly the
  units of its box type, in table order, never write beyond an allocation even when the passes
  see different data, and that destroying the structure releases everything.
\<close>

section \<open>PCI capabilities (pci.h)\<close>

definition PCM_INTEL_PCI_VENDOR_ID :: u32 where "PCM_INTEL_PCI_VENDOR_ID = 0x8086"

definition PCI_STD_RESOURCE_END :: u64 where "PCI_STD_RESOURCE_END = 5"

text \<open>
  A device as the kernel presents it: the offsets of its DVSEC capabilities in the order
  \<open>pci_find_ext_capability\<close> and \<open>pci_find_next_ext_capability\<close> return them, its configuration
  dwords, the start of its resources and its NUMA node.
\<close>

record pci_dev =
  vendor :: u32
  dvsec_offsets :: "u32 list"
  config_dword :: "u32 \<Rightarrow> u32"
  resource_start :: "u64 \<Rightarrow> u64"
  dev_node :: int

record pcm_vsec =
  cap_id :: u64
  cap_version :: u64
  cap_next :: u64
  vsec_id :: u64
  vsec_version :: u64
  vsec_length :: u64
  entryID :: u64
  NumEntries :: u64
  EntrySize :: u64
  tBIR :: u64
  Address :: u64

definition dword_pair :: "u32 \<Rightarrow> u32 \<Rightarrow> u64" where
  "dword_pair lo hi = ucast lo OR push_bit 32 (ucast hi)"

definition vsec_of :: "u64 \<Rightarrow> u64 \<Rightarrow> pcm_vsec" where
  "vsec_of a b = \<lparr>cap_id = bits 0 16 a, cap_version = bits 16 4 a, cap_next = bits 20 12 a,
     vsec_id = bits 32 16 a, vsec_version = bits 48 4 a, vsec_length = bits 52 12 a,
     entryID = bits 0 16 b, NumEntries = bits 16 8 b, EntrySize = bits 24 8 b, tBIR = bits 32 3 b,
     Address = bits 35 29 b\<rparr>"

text \<open>The \<open>while\<close> loop over one device's capabilities; \<open>break\<close> ends it.\<close>

fun walk_dvsec ::
  "(pcm_vsec \<Rightarrow> bool) \<Rightarrow> (pci_dev \<Rightarrow> u64 \<Rightarrow> pcm_vsec \<Rightarrow> 's \<Rightarrow> 's may) \<Rightarrow> pci_dev \<Rightarrow> u32 list \<Rightarrow> 's \<Rightarrow> 's may" where
  "walk_dvsec matchFunc processFunc dev [] s = Inr s"
| "walk_dvsec matchFunc processFunc dev (off # offs) s =
     (let r0 = dword_pair (config_dword dev off) (config_dword dev (off + 4));
          r1 = dword_pair (config_dword dev (off + 8)) (config_dword dev (off + 12));
          vsec = vsec_of r0 r1 in
      if r0 = 0 \<and> r1 = 0 then Inr s
      else if matchFunc vsec then
        (if PCI_STD_RESOURCE_END < tBIR vsec then Inr s
         else
           (let bar_addr = resource_start dev (tBIR vsec) in
            if bar_addr = 0 then Inr s
            else bindF (processFunc dev (bar_addr + Address vsec) vsec s)
                   (walk_dvsec matchFunc processFunc dev offs)))
      else walk_dvsec matchFunc processFunc dev offs s)"

definition pcm_process_dvsec ::
  "(pcm_vsec \<Rightarrow> bool) \<Rightarrow> (pci_dev \<Rightarrow> u64 \<Rightarrow> pcm_vsec \<Rightarrow> 's \<Rightarrow> 's may) \<Rightarrow> pci_dev list \<Rightarrow> 's \<Rightarrow> 's may" where
  "pcm_process_dvsec matchFunc processFunc devs s =
     foldF (\<lambda>dev s. if vendor dev \<noteq> PCM_INTEL_PCI_VENDOR_ID then Inr s
                    else walk_dvsec matchFunc processFunc dev (dvsec_offsets dev) s) devs s"

section \<open>Discovery structures (uncore\_pmu\_discovery.h)\<close>

definition SPR_PCU_BOX_TYPE :: nat where "SPR_PCU_BOX_TYPE = 4"
definition SPR_IMC_BOX_TYPE :: nat where "SPR_IMC_BOX_TYPE = 6"
definition SPR_UPILL_BOX_TYPE :: nat where "SPR_UPILL_BOX_TYPE = 8"
definition SPR_MDF_BOX_TYPE :: nat where "SPR_MDF_BOX_TYPE = 11"
definition SPR_CXLCM_BOX_TYPE :: nat where "SPR_CXLCM_BOX_TYPE = 12"
definition SPR_CXLDP_BOX_TYPE :: nat where "SPR_CXLDP_BOX_TYPE = 13"

datatype access_type_enum = ACCESS_TYPE_MSR | ACCESS_TYPE_MMIO | ACCESS_TYPE_PCICFG | ACCESS_TYPE_UNKNOWN

text \<open>The conversion of the two-bit field to the enumeration; 3 is no enumerator.\<close>

definition access_type_of :: "u64 \<Rightarrow> access_type_enum" where
  "access_type_of v = (if v = 0 then ACCESS_TYPE_MSR else if v = 1 then ACCESS_TYPE_MMIO
     else if v = 2 then ACCESS_TYPE_PCICFG else ACCESS_TYPE_UNKNOWN)"

record pci_cfg_address =
  pa_offset :: u64
  pa_function :: u64
  pa_device :: u64
  pa_bus :: u64

definition pci_cfg_address_of :: "u64 \<Rightarrow> pci_cfg_address" where
  "pci_cfg_address_of raw = \<lparr>pa_offset = bits 0 12 raw, pa_function = bits 12 3 raw,
     pa_device = bits 15 5 raw, pa_bus = bits 20 8 raw\<rparr>"

record global_pmu =
  g_type :: u64
  stride :: u64
  max_units :: u64
  g_access_type :: u64
  global_ctrl_addr :: u64
  g_status_offset :: u64
  num_status :: u64

definition global_pmu_of :: "u64 list \<Rightarrow> global_pmu" where
  "global_pmu_of t = \<lparr>g_type = bits 0 8 (t ! 0), stride = bits 8 8 (t ! 0), max_units = bits 16 10 (t ! 0),
     g_access_type = bits 62 2 (t ! 0), global_ctrl_addr = t ! 1, g_status_offset = bits 0 8 (t ! 2),
     num_status = bits 8 16 (t ! 2)\<rparr>"

record box_pmu =
  num_regs :: u64
  ctrl_offset :: u64
  bit_width :: u64
  ctr_offset :: u64
  status_offset :: u64
  access_type :: u64
  box_ctrl_addr :: u64
  box_type :: u64
  box_id :: u64

definition box_pmu_of :: "u64 list \<Rightarrow> box_pmu" where
  "box_pmu_of t = \<lparr>num_regs = bits 0 8 (t ! 0), ctrl_offset = bits 8 8 (t ! 0), bit_width = bits 16 8 (t ! 0),
     ctr_offset = bits 24 8 (t ! 0), status_offset = bits 32 8 (t ! 0), access_type = bits 62 2 (t ! 0),
     box_ctrl_addr = t ! 1, box_type = bits 0 16 (t ! 2), box_id = bits 16 16 (t ! 2)\<rparr>"

definition zero_box :: box_pmu where
  "zero_box = box_pmu_of [0, 0, 0]"

text \<open>A pointer to an array is the allocation with the array's contents.\<close>

record box_pmu_list =
  pmus :: "(nat \<times> box_pmu list) option"
  count :: nat

definition MAX_BOX_TYPES :: nat where "MAX_BOX_TYPES = 32"

type_synonym box_pmu_map = "box_pmu_list list"

record uncore_pmu_discovery =
  d_ptr :: nat
  sm_ptr :: nat
  socket_maps :: "box_pmu_map list"
  num_sockets :: nat
  gp_ptr :: nat
  global_pmus :: "global_pmu list"

definition box_list :: "uncore_pmu_discovery \<Rightarrow> nat \<Rightarrow> nat \<Rightarrow> box_pmu_list" where
  "box_list d socket bt = socket_maps d ! socket ! bt"

definition valid_box :: "uncore_pmu_discovery \<Rightarrow> nat \<Rightarrow> nat \<Rightarrow> nat \<Rightarrow> bool" where
  "valid_box d socket bt pos =
     (if socket < num_sockets d \<and> bt < MAX_BOX_TYPES then pos < count (box_list d socket bt) else False)"

text \<open>The element \<open>socket_maps[socket].lists[box_type].pmus[pos]\<close>.\<close>

definition box_at :: "uncore_pmu_discovery \<Rightarrow> nat \<Rightarrow> nat \<Rightarrow> nat \<Rightarrow> box_pmu may" where
  "box_at d socket bt pos =
     (case pmus (box_list d socket bt) of
        None \<Rightarrow> Inl NullDeref
      | Some (p, xs) \<Rightarrow> if pos < length xs then Inr (xs ! pos) else Inl OutOfBounds)"

definition step_of_width :: "access_type_enum \<Rightarrow> u64 \<Rightarrow> u64" where
  "step_of_width t w =
     (case t of
        ACCESS_TYPE_MSR \<Rightarrow> if w \<le> 64 then 1 else 0
      | ACCESS_TYPE_UNKNOWN \<Rightarrow> 0
      | _ \<Rightarrow> if w \<le> 8 then 1 else if w \<le> 16 then 2 else if w \<le> 32 then 4 else if w \<le> 64 then 8 else 0)"

definition register_step :: "uncore_pmu_discovery \<Rightarrow> nat \<Rightarrow> nat \<Rightarrow> nat \<Rightarrow> u64 may" where
  "register_step d socket bt pos =
     bindF (box_at d socket bt pos) (\<lambda>pmu. Inr (step_of_width (access_type_of (access_type pmu)) (bit_width pmu)))"

definition access_type_to_str :: "access_type_enum \<Rightarrow> string" where
  "access_type_to_str t = (case t of ACCESS_TYPE_MSR \<Rightarrow> ''MSR'' | ACCESS_TYPE_MMIO \<Rightarrow> ''MMIO''
     | ACCESS_TYPE_PCICFG \<Rightarrow> ''PCICFG'' | ACCESS_TYPE_UNKNOWN \<Rightarrow> ''unknown'')"

definition get_num_boxes :: "uncore_pmu_discovery \<Rightarrow> nat \<Rightarrow> nat \<Rightarrow> nat" where
  "get_num_boxes d bt socket =
     (if socket < num_sockets d \<and> bt < MAX_BOX_TYPES then count (box_list d socket bt) else 0)"

definition get_box_ctl_addr :: "uncore_pmu_discovery \<Rightarrow> nat \<Rightarrow> nat \<Rightarrow> nat \<Rightarrow> u64 may" where
  "get_box_ctl_addr d bt socket pos =
     (if valid_box d socket bt pos then bindF (box_at d socket bt pos) (\<lambda>p. Inr (box_ctrl_addr p)) else Inr 0)"

definition get_box_ctl_addr_with_counter :: "uncore_pmu_discovery \<Rightarrow> nat \<Rightarrow> nat \<Rightarrow> nat \<Rightarrow> u64 \<Rightarrow> u64 may" where
  "get_box_ctl_addr_with_counter d bt socket pos c =
     (if valid_box d socket bt pos then
        bindF (box_at d socket bt pos) (\<lambda>p.
          if c < num_regs p then
            bindF (if bt = SPR_IMC_BOX_TYPE then Inr 4 else register_step d socket bt pos)
              (\<lambda>step. Inr (box_ctrl_addr p + ctrl_offset p + c * step))
          else Inr 0)
      else Inr 0)"

definition get_box_ctr_addr :: "uncore_pmu_discovery \<Rightarrow> nat \<Rightarrow> nat \<Rightarrow> nat \<Rightarrow> u64 \<Rightarrow> u64 may" where
  "get_box_ctr_addr d bt socket pos c =
     (if valid_box d socket bt pos then
        bindF (box_at d socket bt pos) (\<lambda>p.
          if c < num_regs p then
            bindF (register_step d socket bt pos) (\<lambda>step. Inr (box_ctrl_addr p + ctr_offset p + c * step))
          else Inr 0)
      else Inr 0)"

definition get_box_access_type :: "uncore_pmu_discovery \<Rightarrow> nat \<Rightarrow> nat \<Rightarrow> nat \<Rightarrow> access_type_enum may" where
  "get_box_access_type d bt socket pos =
     (if valid_box d socket bt pos
      then bindF (box_at d socket bt pos) (\<lambda>p. Inr (access_type_of (access_type p)))
      else Inr ACCESS_TYPE_UNKNOWN)"

definition get_box_num_regs :: "uncore_pmu_discovery \<Rightarrow> nat \<Rightarrow> nat \<Rightarrow> nat \<Rightarrow> u64 may" where
  "get_box_num_regs d bt socket pos =
     (if valid_box d socket bt pos then bindF (box_at d socket bt pos) (\<lambda>p. Inr (num_regs p)) else Inr 0)"

section \<open>Reading a socket's table (uncore\_pmu\_discovery.c)\<close>

text \<open>The six words that \<open>mmio_memcpy\<close> delivers, seen as the three 64-bit words of the union.\<close>

definition table64 :: "u32 list \<Rightarrow> u64 list" where
  "table64 ws = [dword_pair (ws ! 0) (ws ! 1), dword_pair (ws ! 2) (ws ! 3), dword_pair (ws ! 4) (ws ! 5)]"

definition unit_addr :: "u64 \<Rightarrow> u64 \<Rightarrow> nat \<Rightarrow> u64" where
  "unit_addr addr step u = addr + (word_of_nat u + 1) * step"

text \<open>First pass: count the units of each type.\<close>

definition count_unit ::
  "'d bus \<Rightarrow> 'd \<Rightarrow> u64 \<Rightarrow> u64 \<Rightarrow> nat \<Rightarrow> nat list \<times> kheap \<Rightarrow> (nat list \<times> kheap) may" where
  "count_unit b dev addr step u = (\<lambda>(counts, h).
     bindF (mmio_memcpy b dev (unit_addr addr step u) 24 True False h) (\<lambda>(ret, ws, h).
       if ret \<noteq> Ok0 then Inr (counts, h)
       else
         (let t = table64 ws; pmu = box_pmu_of t; bt = unat (box_type pmu) in
          if t ! 0 = 0 \<and> t ! 1 = 0 then Inr (counts, h)
          else if bt < MAX_BOX_TYPES then Inr (counts[bt := counts ! bt + 1], h)
          else Inr (counts, h))))"

text \<open>The allocation of the lists; it stops at the first failure.\<close>

fun alloc_lists :: "nat list \<Rightarrow> nat list \<Rightarrow> box_pmu_map \<Rightarrow> kheap \<Rightarrow> ret \<times> box_pmu_map \<times> kheap" where
  "alloc_lists counts [] ls h = (Ok0, ls, h)"
| "alloc_lists counts (i # is) ls h =
     (if 0 < counts ! i then
        (case kalloc KObj h of
           (None, h) \<Rightarrow> (Neg ENOMEM, ls[i := (ls ! i)\<lparr>pmus := None\<rparr>], h)
         | (Some p, h) \<Rightarrow>
             alloc_lists counts is (ls[i := \<lparr>pmus = Some (p, replicate (counts ! i) zero_box), count = 0\<rparr>]) h)
      else alloc_lists counts is ls h)"

text \<open>Second pass: store each unit at the end of the list of its type.\<close>

definition store_unit :: "nat list \<Rightarrow> box_pmu \<Rightarrow> box_pmu_map \<Rightarrow> box_pmu_map may" where
  "store_unit counts pmu ls =
     (let bt = unat (box_type pmu) in
      if bt < MAX_BOX_TYPES then
        (let l = ls ! bt in
         case pmus l of
           None \<Rightarrow> Inr ls
         | Some (p, xs) \<Rightarrow>
             if count l < counts ! bt then
               (if count l < length xs
                then Inr (ls[bt := \<lparr>pmus = Some (p, xs[count l := pmu]), count = count l + 1\<rparr>])
                else Inl OutOfBounds)
             else Inr ls)
      else Inr ls)"

definition fill_unit ::
  "'d bus \<Rightarrow> 'd \<Rightarrow> u64 \<Rightarrow> u64 \<Rightarrow> nat list \<Rightarrow> nat \<Rightarrow> box_pmu_map \<times> kheap \<Rightarrow> (box_pmu_map \<times> kheap) may" where
  "fill_unit b dev addr step counts u = (\<lambda>(ls, h).
     bindF (mmio_memcpy b dev (unit_addr addr step u) 24 True False h) (\<lambda>(ret, ws, h).
       if ret \<noteq> Ok0 then Inr (ls, h)
       else
         (let t = table64 ws in
          if t ! 0 = 0 \<and> t ! 1 = 0 then Inr (ls, h)
          else bindF (store_unit counts (box_pmu_of t) ls) (\<lambda>ls. Inr (ls, h)))))"

definition process_socket_discovery_table ::
  "'d bus \<Rightarrow> 'd \<Rightarrow> nat \<Rightarrow> u64 \<Rightarrow> uncore_pmu_discovery \<Rightarrow> kheap \<Rightarrow> (ret \<times> uncore_pmu_discovery \<times> kheap) may" where
  "process_socket_discovery_table b dev socket addr d h =
     bindF (mmio_memcpy b dev addr 24 True False h) (\<lambda>(ret, ws, h).
       if ret \<noteq> Ok0 then Inr (ret, d, h)
       else if length (global_pmus d) \<le> socket \<or> length (socket_maps d) \<le> socket then Inl OutOfBounds
       else
         (let g = global_pmu_of (table64 ws);
              d = d\<lparr>global_pmus := (global_pmus d)[socket := g]\<rparr>;
              step = stride g * 8;
              units = [0..<unat (max_units g)] in
          bindF (foldF (count_unit b dev addr step) units (replicate MAX_BOX_TYPES 0, h)) (\<lambda>(counts, h).
            case alloc_lists counts [0..<MAX_BOX_TYPES] (socket_maps d ! socket) h of
              (Neg e, ls, h) \<Rightarrow> Inr (Neg e, d\<lparr>socket_maps := (socket_maps d)[socket := ls]\<rparr>, h)
            | (Ok0, ls, h) \<Rightarrow>
                bindF (foldF (fill_unit b dev addr step counts) units (ls, h)) (\<lambda>(ls, h).
                  Inr (Ok0, d\<lparr>socket_maps := (socket_maps d)[socket := ls]\<rparr>, h)))))"

definition match_function :: "pcm_vsec \<Rightarrow> bool" where
  "match_function vsec \<longleftrightarrow> cap_id vsec = 0x23 \<and> entryID vsec = 1"

definition process_dvsec_callback ::
  "'d bus \<Rightarrow> 'd \<Rightarrow> pci_dev \<Rightarrow> u64 \<Rightarrow> pcm_vsec \<Rightarrow> uncore_pmu_discovery \<times> kheap \<Rightarrow> (uncore_pmu_discovery \<times> kheap) may" where
  "process_dvsec_callback b devmem dev bar vsec = (\<lambda>(d, h).
     (let socket = dev_node dev in
      if socket < 0 \<or> int (num_sockets d) \<le> socket then Inr (d, h)
      else bindF (process_socket_discovery_table b devmem (nat socket) bar d h) (\<lambda>(ret, d, h). Inr (d, h))))"

definition empty_map :: box_pmu_map where
  "empty_map = replicate MAX_BOX_TYPES \<lparr>pmus = None, count = 0\<rparr>"

definition zero_global :: global_pmu where
  "zero_global = global_pmu_of [0, 0, 0]"

definition uncore_pmu_discovery_create ::
  "'d bus \<Rightarrow> 'd \<Rightarrow> pci_dev list \<Rightarrow> nat \<Rightarrow> kheap \<Rightarrow> ((errno + uncore_pmu_discovery) \<times> kheap) may" where
  "uncore_pmu_discovery_create b devmem devs online_nodes h =
     (case kalloc KObj h of
        (None, h) \<Rightarrow> Inr (Inl ENOMEM, h)
      | (Some dp, h) \<Rightarrow>
          (case kalloc KObj h of
             (None, h) \<Rightarrow> bindF (krelease KObj dp h) (\<lambda>h. Inr (Inl ENOMEM, h))
           | (Some sp, h) \<Rightarrow>
               (case kalloc KObj h of
                  (None, h) \<Rightarrow> bindF (krelease KObj sp h) (\<lambda>h. bindF (krelease KObj dp h) (\<lambda>h. Inr (Inl ENOMEM, h)))
                | (Some gp, h) \<Rightarrow>
                    bindF (pcm_process_dvsec match_function (process_dvsec_callback b devmem) devs
                             (\<lparr>d_ptr = dp, sm_ptr = sp, socket_maps = replicate online_nodes empty_map,
                               num_sockets = online_nodes, gp_ptr = gp,
                               global_pmus = replicate online_nodes zero_global\<rparr>, h))
                      (\<lambda>(d, h). Inr (Inr d, h)))))"

definition free_list :: "box_pmu_list \<Rightarrow> kheap \<Rightarrow> kheap may" where
  "free_list l h = (case pmus l of None \<Rightarrow> Inr h | Some (p, xs) \<Rightarrow> krelease KObj p h)"

definition uncore_pmu_discovery_destroy :: "uncore_pmu_discovery \<Rightarrow> kheap \<Rightarrow> kheap may" where
  "uncore_pmu_discovery_destroy d h =
     bindF (foldF (foldF free_list) (take (num_sockets d) (socket_maps d)) h) (\<lambda>h.
       bindF (krelease KObj (sm_ptr d) h) (\<lambda>h.
         bindF (krelease KObj (gp_ptr d) h) (krelease KObj (d_ptr d))))"

section \<open>Reading one unit\<close>

text \<open>
  What the table holds at an address: nothing when a word reads as all ones or the first two
  64-bit words are zero, otherwise a unit.
\<close>

definition unit_words :: "'d bus \<Rightarrow> 'd \<Rightarrow> u64 \<Rightarrow> u32 list" where
  "unit_words b dev a = map (\<lambda>k. rd32 b (a + word_of_nat (4 * k)) dev) [0..<6]"

definition unit_at :: "'d bus \<Rightarrow> 'd \<Rightarrow> u64 \<Rightarrow> box_pmu option" where
  "unit_at b dev a =
     (let ws = unit_words b dev a; t = table64 ws in
      if 0xFFFFFFFF \<in> set ws \<or> t ! 0 = 0 \<and> t ! 1 = 0 then None else Some (box_pmu_of t))"

text \<open>The same when each of the six words is read from its own state of the device.\<close>

definition words_read :: "'d bus \<Rightarrow> (nat \<Rightarrow> 'd) \<Rightarrow> u64 \<Rightarrow> u32 list" where
  "words_read b d a = map (\<lambda>k. rd32 b (a + word_of_nat (4 * k)) (d k)) [0..<6]"

definition unit_read :: "'d bus \<Rightarrow> (nat \<Rightarrow> 'd) \<Rightarrow> u64 \<Rightarrow> box_pmu option" where
  "unit_read b d a =
     (let ws = words_read b d a; t = table64 ws in
      if 0xFFFFFFFF \<in> set ws \<or> t ! 0 = 0 \<and> t ! 1 = 0 then None else Some (box_pmu_of t))"

text \<open>A device that does not change by itself.\<close>

definition stays :: "'d bus \<Rightarrow> 'd \<Rightarrow> bool" where
  "stays b dev \<longleftrightarrow> (\<forall>n k. drift b n k dev = dev)"

lemma stays_read:
  "stays b dev \<Longrightarrow> words_read b (\<lambda>k. drift b n k dev) a = unit_words b dev a"
  "stays b dev \<Longrightarrow> unit_read b (\<lambda>k. drift b n k dev) a = unit_at b dev a"
  by (simp_all add: stays_def words_read_def unit_words_def unit_read_def unit_at_def)

text \<open>The heap after an operation that released everything it allocated.\<close>

definition heap_same :: "kheap \<Rightarrow> kheap \<Rightarrow> bool" where
  "heap_same h h' \<longleftrightarrow> live h' = live h \<and> heap_wf h' \<and> alloc_ok h' = alloc_ok h"

lemma heap_same_trans: "heap_same h h1 \<Longrightarrow> heap_same h1 h2 \<Longrightarrow> heap_same h h2"
  by (simp add: heap_same_def)

lemma and_3_iff: "(a :: u64) AND 3 = 0 \<longleftrightarrow> unat a mod 4 = 0"
proof -
  have "(3 :: u64) = Bit_Operations.mask 2" by (simp add: mask_eq_exp_minus_1)
  then have "a AND 3 = take_bit 2 a" by (simp add: take_bit_eq_mask)
  moreover have "take_bit 2 a = 0 \<longleftrightarrow> unat (take_bit 2 a) = 0" by (simp add: unat_eq_0)
  ultimately show ?thesis by (simp add: take_bit_eq_mod unat_mod)
qed

definition table_addr_ok :: "u64 \<Rightarrow> bool" where
  "table_addr_ok a \<longleftrightarrow> a AND 3 = 0 \<and> unat a + 2 ^ 22 \<le> 2 ^ 64"

lemma unit_addr_ok:
  assumes "table_addr_ok addr" and "u < 1024" and "unat s < 256"
  shows "unit_addr addr (s * 8) u AND 3 = 0" and "unat (unit_addr addr (s * 8) u) + 24 + 4096 \<le> 2 ^ 64"
proof -
  have us: "(u + 1) * (unat s * 8) \<le> 1024 * (255 * 8)" using assms(2,3) by (intro mult_le_mono) auto
  have "unat (word_of_nat u + 1 :: u64) = u + 1" using assms(2) by (simp add: unat_word_ariths unat_of_nat)
  moreover have "unat (s * 8) = unat s * 8" using assms(3) by (simp add: unat_word_ariths)
  ultimately have m: "unat ((word_of_nat u + 1) * (s * 8)) = (u + 1) * (unat s * 8)"
    using us by (subst unat_word_ariths) simp
  then have a: "unat (unit_addr addr (s * 8) u) = unat addr + (u + 1) * (unat s * 8)"
    using us assms(1) unfolding unit_addr_def table_addr_ok_def by (subst unat_word_ariths) simp
  show "unat (unit_addr addr (s * 8) u) + 24 + 4096 \<le> 2 ^ 64"
    unfolding a using us assms(1) by (simp add: table_addr_ok_def)
  have "(unat addr + (u + 1) * (unat s * 8)) mod 4 = unat addr mod 4"
    by (metis (no_types, opaque_lifting) mod_add_right_eq mod_mult_self2_is_0 mult.assoc add.right_neutral
        mult_2_right numeral_Bit0)
  then show "unit_addr addr (s * 8) u AND 3 = 0"
    using assms(1) unfolding and_3_iff a by (simp add: table_addr_ok_def and_3_iff)
qed

lemma read_table:
  assumes "heap_wf h" and "a AND 3 = 0" and "unat a + 24 + 4096 \<le> 2 ^ 64"
  shows "\<exists>ret h'. heap_same h h' \<and>
    (mmio_memcpy b dev a 24 True False h = Inr (ret, [], h') \<and> ret \<noteq> Ok0 \<and> (\<exists>k. \<not> alloc_ok h k) \<or>
     mmio_memcpy b dev a 24 True False h =
       Inr (Neg EIO, takeWhile (\<lambda>v. v \<noteq> 0xFFFFFFFF) (words_read b (\<lambda>k. drift b (n_req h) k dev) a), h') \<and> 0xFFFFFFFF \<in> set (words_read b (\<lambda>k. drift b (n_req h) k dev) a) \<or>
     mmio_memcpy b dev a 24 True False h = Inr (Ok0, words_read b (\<lambda>k. drift b (n_req h) k dev) a, h') \<and> 0xFFFFFFFF \<notin> set (words_read b (\<lambda>k. drift b (n_req h) k dev) a))"
proof -
  have "unat (24 :: u64) div 4 = 6" by simp
  with mmio_memcpy_outcome [OF assms(1,2), of 24 b dev True False] assms(3) show ?thesis
    unfolding Let_def words_read_def heap_same_def by (simp del: of_nat_mult) blast
qed

section \<open>The three phases\<close>

definition bump :: "box_pmu \<Rightarrow> nat list \<Rightarrow> nat list" where
  "bump p counts = (let bt = unat (box_type p) in
     if bt < MAX_BOX_TYPES then counts[bt := counts ! bt + 1] else counts)"

definition of_type :: "nat \<Rightarrow> box_pmu list \<Rightarrow> box_pmu list" where
  "of_type t ps = filter (\<lambda>p. unat (box_type p) = t) ps"

lemma of_type_simps [simp]:
  "of_type t [] = []"
  "of_type t (p # ps) = (if unat (box_type p) = t then p # of_type t ps else of_type t ps)"
  "of_type t (ps @ qs) = of_type t ps @ of_type t qs"
  by (simp_all add: of_type_def)

lemma length_fold_bump: "length (fold bump ps cs) = length cs"
  by (induction ps arbitrary: cs) (auto simp: bump_def Let_def)

lemma fold_bump_nth:
  "length cs = MAX_BOX_TYPES \<Longrightarrow> t < MAX_BOX_TYPES \<Longrightarrow> fold bump ps cs ! t = cs ! t + length (of_type t ps)"
proof (induction ps arbitrary: cs)
  case (Cons p ps)
  have "length (bump p cs) = MAX_BOX_TYPES" using Cons.prems(1) by (simp add: bump_def Let_def)
  with Cons show ?case by (auto simp: bump_def Let_def nth_list_update)
qed simp

text \<open>A unit read during a pass: every outcome keeps the heap, a failed allocation hides the unit.\<close>

lemma count_unit_step:
  assumes "heap_wf h" and "unit_addr addr step u AND 3 = 0" and "unat (unit_addr addr step u) + 24 + 4096 \<le> 2 ^ 64"
  shows "\<exists>h'. heap_same h h' \<and>
    (count_unit b dev addr step u (cs, h) =
       Inr (case unit_read b (\<lambda>k. drift b (n_req h) k dev) (unit_addr addr step u) of None \<Rightarrow> cs | Some p \<Rightarrow> bump p cs, h') \<or>
     count_unit b dev addr step u (cs, h) = Inr (cs, h') \<and> (\<exists>k. \<not> alloc_ok h k))"
  using read_table [OF assms, of b dev]
  by (fastforce simp: count_unit_def unit_read_def bump_def Let_def)

lemma fill_unit_step:
  assumes "heap_wf h" and "unit_addr addr step u AND 3 = 0" and "unat (unit_addr addr step u) + 24 + 4096 \<le> 2 ^ 64"
  shows "\<exists>h'. heap_same h h' \<and>
    (fill_unit b dev addr step counts u (ls, h) =
       (case unit_read b (\<lambda>k. drift b (n_req h) k dev) (unit_addr addr step u) of
          None \<Rightarrow> Inr (ls, h') | Some p \<Rightarrow> bindF (store_unit counts p ls) (\<lambda>ls. Inr (ls, h'))) \<or>
     fill_unit b dev addr step counts u (ls, h) = Inr (ls, h') \<and> (\<exists>k. \<not> alloc_ok h k))"
  using read_table [OF assms, of b dev]
  by (fastforce simp: fill_unit_def unit_read_def Let_def)

text \<open>
  Lists into which a pass with these counts may store. A list is sound when its units lie in its
  allocation; the flag says whether the lists of the socket were sound to begin with.
\<close>

definition list_sound :: "box_pmu_list \<Rightarrow> bool" where
  "list_sound l = (case pmus l of None \<Rightarrow> count l = 0 | Some (p, xs) \<Rightarrow> count l \<le> length xs)"

definition list_fits :: "bool \<Rightarrow> nat \<Rightarrow> box_pmu_list \<Rightarrow> bool" where
  "list_fits x n l = ((case pmus l of None \<Rightarrow> True | Some (p, xs) \<Rightarrow> 0 < n \<longrightarrow> length xs = n) \<and> (x \<longrightarrow> list_sound l))"

definition lists_ok :: "bool \<Rightarrow> nat list \<Rightarrow> box_pmu_map \<Rightarrow> bool" where
  "lists_ok x counts ls \<longleftrightarrow> length ls = MAX_BOX_TYPES \<and> (\<forall>t < MAX_BOX_TYPES. list_fits x (counts ! t) (ls ! t))"

lemma list_fits_0 [simp]: "list_fits x 0 l \<longleftrightarrow> (x \<longrightarrow> list_sound l)"
  by (simp add: list_fits_def split: option.splits)

lemma lists_ok_sound: "lists_ok x counts ls \<Longrightarrow> x \<Longrightarrow> \<forall>l \<in> set ls. list_sound l"
  by (auto simp: lists_ok_def list_fits_def in_set_conv_nth)

lemma lists_ok_update:
  "lists_ok x counts ls \<Longrightarrow> list_fits x (counts ! t) l \<Longrightarrow> lists_ok x counts (ls[t := l])"
  by (cases "t < MAX_BOX_TYPES") (auto simp: lists_ok_def nth_list_update)

lemma store_unit_ok:
  assumes "lists_ok x counts ls"
  shows "\<exists>ls'. store_unit counts p ls = Inr ls' \<and> lists_ok x counts ls'"
proof (cases "unat (box_type p) < MAX_BOX_TYPES")
  case True
  let ?t = "unat (box_type p)"
  have f: "list_fits x (counts ! ?t) (ls ! ?t)" using True assms by (simp add: lists_ok_def)
  show ?thesis
  proof (cases "pmus (ls ! ?t)")
    case None
    then show ?thesis using True assms by (simp add: store_unit_def)
  next
    case (Some q)
    obtain a xs where q: "pmus (ls ! ?t) = Some (a, xs)" using Some by (cases q) auto
    show ?thesis
    proof (cases "count (ls ! ?t) < counts ! ?t")
      case True
      then have l: "length xs = counts ! ?t" using f q by (simp add: list_fits_def)
      have "list_fits x (counts ! ?t) \<lparr>pmus = Some (a, xs[count (ls ! ?t) := p]), count = Suc (count (ls ! ?t))\<rparr>"
        using True l by (simp add: list_fits_def list_sound_def)
      from lists_ok_update [OF assms this] show ?thesis
        using True l q \<open>?t < MAX_BOX_TYPES\<close> by (simp add: store_unit_def Let_def)
    qed (use q assms in \<open>simp add: store_unit_def Let_def\<close>)
  qed
qed (use assms in \<open>simp add: store_unit_def\<close>)

lemma alloc_lists_ok:
  assumes "length ls = MAX_BOX_TYPES" and "set is \<subseteq> {..<MAX_BOX_TYPES}" and "heap_wf h"
    and "\<And>t. t < MAX_BOX_TYPES \<Longrightarrow> t \<notin> set is \<Longrightarrow> list_fits x (counts ! t) (ls ! t)"
    and "x \<Longrightarrow> \<forall>l \<in> set ls. list_sound l"
  shows "\<exists>ret ls' h'. alloc_lists counts is ls h = (ret, ls', h') \<and> heap_wf h' \<and> alloc_ok h' = alloc_ok h \<and>
    length ls' = MAX_BOX_TYPES \<and> (ret = Ok0 \<longrightarrow> lists_ok x counts ls')"
  using assms
proof (induction "is" arbitrary: ls h)
  case Nil
  then show ?case by (auto simp: lists_ok_def)
next
  case (Cons i "is")
  have i: "i < length ls" using Cons.prems(1,2) by auto
  consider "counts ! i = 0" | h1 where "0 < counts ! i" "kalloc KObj h = (None, h1)"
    | p h1 where "0 < counts ! i" "kalloc KObj h = (Some p, h1)"
    by (metis not_gr_zero option.exhaust surj_pair)
  then show ?case
  proof cases
    case 1
    have "x \<Longrightarrow> list_sound (ls ! i)" using Cons.prems(5) i by auto
    with 1 have "list_fits x (counts ! i) (ls ! i)" by simp
    then have "\<And>t. t < MAX_BOX_TYPES \<Longrightarrow> t \<notin> set is \<Longrightarrow> list_fits x (counts ! t) (ls ! t)"
      using Cons.prems(4) by (metis set_ConsD)
    with 1 Cons.IH [of ls h] Cons.prems show ?thesis by simp
  next
    case (2 h1)
    then show ?thesis using Cons.prems(1) kalloc_None [OF 2(2) Cons.prems(3)] by simp
  next
    case (3 p h1)
    let ?ls = "ls[i := \<lparr>pmus = Some (p, replicate (counts ! i) zero_box), count = 0\<rparr>]"
    have "\<And>t. t < MAX_BOX_TYPES \<Longrightarrow> t \<notin> set is \<Longrightarrow> list_fits x (counts ! t) (?ls ! t)"
      using Cons.prems by (auto simp: nth_list_update list_fits_def list_sound_def)
    moreover have "x \<Longrightarrow> \<forall>l \<in> set ?ls. list_sound l"
      using Cons.prems(5) set_update_subset_insert by (fastforce simp: list_sound_def)
    ultimately show ?thesis using 3 Cons.IH [of ?ls h1] Cons.prems kalloc_Some [OF 3(2) Cons.prems(3)] by simp
  qed
qed

text \<open>Both passes run to the end whatever is allocated, whatever the table holds and however it changes.\<close>

lemma count_unit_keeps:
  assumes "heap_wf h" and "unit_addr addr step u AND 3 = 0" and "unat (unit_addr addr step u) + 24 + 4096 \<le> 2 ^ 64"
  shows "\<exists>cs' h'. count_unit b dev addr step u (cs, h) = Inr (cs', h') \<and> heap_same h h' \<and> length cs' = length cs"
proof -
  let ?cs = "case unit_read b (\<lambda>k. drift b (n_req h) k dev) (unit_addr addr step u) of None \<Rightarrow> cs | Some p \<Rightarrow> bump p cs"
  have l: "length ?cs = length cs" by (simp add: bump_def Let_def split: option.splits)
  obtain h' where h': "heap_same h h'"
    "count_unit b dev addr step u (cs, h) = Inr (?cs, h') \<or> count_unit b dev addr step u (cs, h) = Inr (cs, h')"
    using count_unit_step [OF assms, of b dev cs] by blast
  then show ?thesis using l by (elim disjE) auto
qed

lemma fill_unit_keeps:
  assumes "heap_wf h" and "unit_addr addr step u AND 3 = 0" and "unat (unit_addr addr step u) + 24 + 4096 \<le> 2 ^ 64"
    and "lists_ok x counts ls"
  shows "\<exists>ls' h'. fill_unit b dev addr step counts u (ls, h) = Inr (ls', h') \<and> heap_same h h' \<and> lists_ok x counts ls'"
proof -
  obtain h' where h': "heap_same h h'" and d:
    "fill_unit b dev addr step counts u (ls, h) =
       (case unit_read b (\<lambda>k. drift b (n_req h) k dev) (unit_addr addr step u) of
          None \<Rightarrow> Inr (ls, h') | Some p \<Rightarrow> bindF (store_unit counts p ls) (\<lambda>ls. Inr (ls, h'))) \<or>
     fill_unit b dev addr step counts u (ls, h) = Inr (ls, h')"
    using fill_unit_step [OF assms(1-3), of b dev counts ls] by blast
  show ?thesis
  proof (cases "unit_read b (\<lambda>k. drift b (n_req h) k dev) (unit_addr addr step u)")
    case None
    then show ?thesis using h' d assms(4) by auto
  next
    case (Some p)
    obtain ls' where "store_unit counts p ls = Inr ls'" "lists_ok x counts ls'" using store_unit_ok [OF assms(4)] by blast
    then show ?thesis using Some h' d assms(4) by auto
  qed
qed

lemma count_pass_ok:
  assumes "heap_wf h" and "table_addr_ok addr" and "unat s < 256" and "n \<le> 1024"
  shows "\<exists>cs' h'. foldF (count_unit b dev addr (s * 8)) [0..<n] (cs, h) = Inr (cs', h') \<and> heap_same h h' \<and>
    length cs' = length cs"
  using assms(4)
proof (induction n)
  case 0
  then show ?case using assms(1) by (simp add: heap_same_def)
next
  case (Suc n)
  then obtain cs1 h1 where IH: "foldF (count_unit b dev addr (s * 8)) [0..<n] (cs, h) = Inr (cs1, h1)"
    "heap_same h h1" "length cs1 = length cs" by auto
  obtain cs2 h2 where "count_unit b dev addr (s * 8) n (cs1, h1) = Inr (cs2, h2)" "heap_same h1 h2" "length cs2 = length cs1"
    using count_unit_keeps [OF _ unit_addr_ok [OF assms(2) _ assms(3)], of h1 n b dev cs1] IH(2) Suc.prems
    by (auto simp: heap_same_def)
  then show ?case using IH heap_same_trans [OF IH(2)] by (simp add: foldF_upt_Suc del: upt_Suc)
qed

lemma fill_pass_ok:
  assumes "heap_wf h" and "table_addr_ok addr" and "unat s < 256" and "n \<le> 1024" and "lists_ok x counts ls"
  shows "\<exists>ls' h'. foldF (fill_unit b dev addr (s * 8) counts) [0..<n] (ls, h) = Inr (ls', h') \<and> heap_same h h' \<and>
    lists_ok x counts ls'"
  using assms(4)
proof (induction n)
  case 0
  then show ?case using assms(1,5) by (simp add: heap_same_def)
next
  case (Suc n)
  then obtain ls1 h1 where IH: "foldF (fill_unit b dev addr (s * 8) counts) [0..<n] (ls, h) = Inr (ls1, h1)"
    "heap_same h h1" "lists_ok x counts ls1" by auto
  obtain ls2 h2 where "fill_unit b dev addr (s * 8) counts n (ls1, h1) = Inr (ls2, h2)" "heap_same h1 h2" "lists_ok x counts ls2"
    using fill_unit_keeps [OF _ unit_addr_ok [OF assms(2) _ assms(3)] IH(3), of h1 n b dev] IH(2) Suc.prems
    by (auto simp: heap_same_def)
  then show ?case using IH heap_same_trans [OF IH(2)] by (simp add: foldF_upt_Suc del: upt_Suc)
qed

section \<open>What the passes compute\<close>

text \<open>The units of a table, in table order.\<close>

definition units_of :: "'d bus \<Rightarrow> 'd \<Rightarrow> u64 \<Rightarrow> u64 \<Rightarrow> nat \<Rightarrow> box_pmu list" where
  "units_of b dev addr step n = List.map_filter (\<lambda>u. unit_at b dev (unit_addr addr step u)) [0..<n]"

lemma units_of_Suc:
  "units_of b dev addr step (Suc n) = units_of b dev addr step n @
     (case unit_at b dev (unit_addr addr step n) of None \<Rightarrow> [] | Some p \<Rightarrow> [p])"
  by (simp add: units_of_def List.map_filter_def split: option.splits)

lemma units_of_0 [simp]: "units_of b dev addr step 0 = []"
  by (simp add: units_of_def List.map_filter_def)

lemma units_of_mono: "n \<le> m \<Longrightarrow> \<exists>rest. units_of b dev addr step m = units_of b dev addr step n @ rest"
  by (induction m) (auto simp: units_of_Suc le_Suc_eq)

lemma units_of_type_lt:
  assumes "unit_at b dev (unit_addr addr step n) = Some q" and "n < m"
  shows "length (of_type (unat (box_type q)) (units_of b dev addr step n))
    < length (of_type (unat (box_type q)) (units_of b dev addr step m))"
proof -
  obtain rest where "units_of b dev addr step m = units_of b dev addr step (Suc n) @ rest"
    using units_of_mono [of "Suc n" m b dev addr step] assms(2) by auto
  then show ?thesis using assms(1) by (simp add: units_of_Suc)
qed

lemma count_pass_exact:
  assumes "heap_wf h" and "alloc_ok h = (\<lambda>_. True)" and "table_addr_ok addr" and "unat s < 256" and "n \<le> 1024"
    and "stays b dev"
  shows "\<exists>h'. foldF (count_unit b dev addr (s * 8)) [0..<n] (cs, h) =
      Inr (fold bump (units_of b dev addr (s * 8) n) cs, h') \<and> heap_same h h'"
  using assms(5)
proof (induction n)
  case 0
  then show ?case using assms(1) by (simp add: heap_same_def)
next
  case (Suc n)
  then obtain h1 where IH: "foldF (count_unit b dev addr (s * 8)) [0..<n] (cs, h) =
      Inr (fold bump (units_of b dev addr (s * 8) n) cs, h1)" "heap_same h h1" by auto
  let ?cs = "fold bump (units_of b dev addr (s * 8) n) cs"
  obtain h2 where "heap_same h1 h2" "count_unit b dev addr (s * 8) n (?cs, h1) =
      Inr (case unit_at b dev (unit_addr addr (s * 8) n) of None \<Rightarrow> ?cs | Some p \<Rightarrow> bump p ?cs, h2)"
    using count_unit_step [OF _ unit_addr_ok [OF assms(3) _ assms(4)], of h1 n b dev ?cs] IH(2) Suc.prems assms(2)
    by (auto simp: heap_same_def stays_read [OF assms(6)])
  then show ?case
    using IH heap_same_trans [OF IH(2)]
    by (auto simp: foldF_upt_Suc units_of_Suc simp del: upt_Suc split: option.splits)
qed

lemma alloc_lists_exact:
  assumes "distinct is" and "set is \<subseteq> {..<length ls}" and "heap_wf h" and "alloc_ok h = (\<lambda>_. True)"
  shows "\<exists>ls' h'. alloc_lists counts is ls h = (Ok0, ls', h') \<and> heap_wf h' \<and> alloc_ok h' = (\<lambda>_. True) \<and>
    length ls' = length ls \<and>
    (\<forall>t < length ls. if t \<in> set is \<and> 0 < counts ! t
       then \<exists>p. ls' ! t = \<lparr>pmus = Some (p, replicate (counts ! t) zero_box), count = 0\<rparr> else ls' ! t = ls ! t)"
  using assms
proof (induction "is" arbitrary: ls h)
  case Nil
  then show ?case by simp
next
  case (Cons i "is")
  show ?case
  proof (cases "0 < counts ! i")
    case False
    with Cons.IH [of ls h] Cons.prems show ?thesis by (auto split: if_splits)
  next
    case True
    obtain h1 where k: "kalloc KObj h = (Some (n_req h), h1)" using Cons.prems(4) by (simp add: kalloc_def)
    let ?ls = "ls[i := \<lparr>pmus = Some (n_req h, replicate (counts ! i) zero_box), count = 0\<rparr>]"
    have "heap_wf h1" "alloc_ok h1 = (\<lambda>_. True)" using kalloc_Some [OF k Cons.prems(3)] Cons.prems(4) by simp_all
    then obtain ls' h' where r: "alloc_lists counts is ?ls h1 = (Ok0, ls', h')" "heap_wf h'" "alloc_ok h' = (\<lambda>_. True)"
      "length ls' = length ls" "\<And>t. t < length ls \<Longrightarrow> if t \<in> set is \<and> 0 < counts ! t
       then \<exists>p. ls' ! t = \<lparr>pmus = Some (p, replicate (counts ! t) zero_box), count = 0\<rparr> else ls' ! t = ?ls ! t"
      using Cons.IH [of ?ls h1] Cons.prems by auto
    have "if t \<in> set (i # is) \<and> 0 < counts ! t
       then \<exists>p. ls' ! t = \<lparr>pmus = Some (p, replicate (counts ! t) zero_box), count = 0\<rparr> else ls' ! t = ls ! t"
      if "t < length ls" for t
      using r(5) [OF that] Cons.prems(1,2) that True by (cases "t = i") auto
    then show ?thesis using True k r(1-4) by (intro exI [of _ ls'] exI [of _ h']) simp
  qed
qed

text \<open>The lists after the units \<open>ps\<close> have been stored.\<close>

definition filled :: "nat list \<Rightarrow> box_pmu list \<Rightarrow> box_pmu_map \<Rightarrow> bool" where
  "filled counts ps ls \<longleftrightarrow> length ls = MAX_BOX_TYPES \<and>
     (\<forall>t < MAX_BOX_TYPES. if 0 < counts ! t
        then \<exists>p. ls ! t = \<lparr>pmus = Some (p, of_type t ps @ replicate (counts ! t - length (of_type t ps)) zero_box),
                            count = length (of_type t ps)\<rparr>
        else ls ! t = \<lparr>pmus = None, count = 0\<rparr>)"

lemma store_unit_exact:
  assumes f: "filled counts ps ls"
    and room: "unat (box_type q) < MAX_BOX_TYPES \<Longrightarrow> length (of_type (unat (box_type q)) ps) < counts ! unat (box_type q)"
  shows "\<exists>ls'. store_unit counts q ls = Inr ls' \<and> filled counts (ps @ [q]) ls'"
proof (cases "unat (box_type q) < MAX_BOX_TYPES")
  case False
  then show ?thesis using f by (auto simp: store_unit_def filled_def)
next
  case True
  let ?t = "unat (box_type q)" and ?n = "length (of_type (unat (box_type q)) ps)"
  have lt: "?n < counts ! ?t" by (rule room [OF True])
  obtain p where l: "ls ! ?t = \<lparr>pmus = Some (p, of_type ?t ps @ replicate (counts ! ?t - ?n) zero_box), count = ?n\<rparr>"
    using f True lt by (auto simp: filled_def split: if_splits)
  have up: "(of_type ?t ps @ replicate (counts ! ?t - ?n) zero_box)[?n := q] =
      of_type ?t ps @ q # replicate (counts ! ?t - Suc ?n) zero_box"
    using lt by (cases "counts ! ?t - ?n") (auto simp: list_update_append)
  let ?ls = "ls[?t := \<lparr>pmus = Some (p, of_type ?t ps @ q # replicate (counts ! ?t - Suc ?n) zero_box), count = Suc ?n\<rparr>]"
  have "store_unit counts q ls = Inr ?ls" using True lt l up by (simp add: store_unit_def Let_def)
  moreover have "filled counts (ps @ [q]) ?ls"
    using f True lt by (auto simp: filled_def nth_list_update)
  ultimately show ?thesis by blast
qed

lemma fill_pass_exact:
  assumes "heap_wf h" and "alloc_ok h = (\<lambda>_. True)" and "table_addr_ok addr" and "unat s < 256" and "m \<le> 1024"
    and "\<And>t. t < MAX_BOX_TYPES \<Longrightarrow> counts ! t = length (of_type t (units_of b dev addr (s * 8) m))"
    and "filled counts [] ls" and "n \<le> m" and "stays b dev"
  shows "\<exists>ls' h'. foldF (fill_unit b dev addr (s * 8) counts) [0..<n] (ls, h) = Inr (ls', h') \<and> heap_same h h' \<and>
    filled counts (units_of b dev addr (s * 8) n) ls'"
  using assms(8)
proof (induction n)
  case 0
  then show ?case using assms(1,7) by (simp add: heap_same_def)
next
  case (Suc n)
  then obtain ls1 h1 where IH: "foldF (fill_unit b dev addr (s * 8) counts) [0..<n] (ls, h) = Inr (ls1, h1)"
    "heap_same h h1" "filled counts (units_of b dev addr (s * 8) n) ls1" by auto
  let ?ps = "units_of b dev addr (s * 8) n" and ?u = "unit_at b dev (unit_addr addr (s * 8) n)"
  obtain h2 where h2: "heap_same h1 h2" "fill_unit b dev addr (s * 8) counts n (ls1, h1) =
      (case ?u of None \<Rightarrow> Inr (ls1, h2) | Some p \<Rightarrow> bindF (store_unit counts p ls1) (\<lambda>ls. Inr (ls, h2)))"
    using fill_unit_step [OF _ unit_addr_ok [OF assms(3) _ assms(4)], of h1 n b dev counts ls1] IH(2) Suc.prems assms(2,5)
    by (auto simp: heap_same_def stays_read [OF assms(9)])
  show ?case
  proof (cases ?u)
    case None
    then show ?thesis using IH h2 heap_same_trans [OF IH(2)] by (simp add: foldF_upt_Suc units_of_Suc del: upt_Suc)
  next
    case (Some q)
    have "length (of_type (unat (box_type q)) ?ps) < counts ! unat (box_type q)" if "unat (box_type q) < MAX_BOX_TYPES"
      using units_of_type_lt [OF Some, of m] Suc.prems assms(6) [OF that] by simp
    then obtain ls2 where "store_unit counts q ls1 = Inr ls2" "filled counts (?ps @ [q]) ls2"
      using store_unit_exact [OF IH(3)] by blast
    then show ?thesis using Some IH h2 heap_same_trans [OF IH(2)] by (simp add: foldF_upt_Suc units_of_Suc del: upt_Suc)
  qed
qed

lemma global_bounds: "unat (stride (global_pmu_of t)) < 256" "unat (max_units (global_pmu_of t)) \<le> 1024"
  using bits_bound [of 8 8 "t ! 0"] bits_bound [of 10 16 "t ! 0"] by (simp_all add: global_pmu_of_def)

lemma table_addr_ok_read: "table_addr_ok a \<Longrightarrow> a AND 3 = 0 \<and> unat a + 24 + 4096 \<le> 2 ^ 64"
  by (simp add: table_addr_ok_def)

section \<open>Properties\<close>

text \<open>
  C34. Reading a socket's discovery table never writes outside an allocation and never
  dereferences NULL. The table is aligned and does not lie at the end of the address space; what it
  holds, which allocations fail and how the device changes its memory are arbitrary: the header, each
  unit in the first pass and each unit in the second are read from states of the device that need
  have nothing to do with each other, so that the second pass may find more units of a type than the
  first counted. The function returns all the same, and when it returns with success no list
  that was allocated holds more units than its allocation.
\<close>

theorem process_socket_never_faults:
  assumes "heap_wf h" and "table_addr_ok addr"
    and "socket < length (global_pmus d)" and "socket < length (socket_maps d)"
    and "length (socket_maps d ! socket) = MAX_BOX_TYPES"
  shows "\<exists>ret d' h'. process_socket_discovery_table b dev socket addr d h = Inr (ret, d', h') \<and> heap_wf h' \<and>
    length (socket_maps d' ! socket) = MAX_BOX_TYPES \<and> num_sockets d' = num_sockets d \<and>
    (ret = Ok0 \<and> (\<forall>l \<in> set (socket_maps d ! socket). list_sound l) \<longrightarrow> (\<forall>l \<in> set (socket_maps d' ! socket). list_sound l))"
proof -
  let ?x = "\<forall>l \<in> set (socket_maps d ! socket). list_sound l"
  obtain r ws h1 where h1: "heap_same h h1" "mmio_memcpy b dev addr 24 True False h = Inr (r, ws, h1)"
    using read_table [OF assms(1), of addr b dev] table_addr_ok_read [OF assms(2)] by blast
  show ?thesis
  proof (cases "r = Ok0")
    case False
    then show ?thesis using h1 assms by (auto simp: process_socket_discovery_table_def heap_same_def)
  next
    case True
    let ?g = "global_pmu_of (table64 ws)"
    let ?units = "[0..<unat (max_units ?g)]"
    have wf1: "heap_wf h1" using h1(1) by (simp add: heap_same_def)
    obtain cs h2 where c: "foldF (count_unit b dev addr (stride ?g * 8)) ?units (replicate MAX_BOX_TYPES 0, h1) = Inr (cs, h2)"
      "heap_same h1 h2"
      using count_pass_ok [OF wf1 assms(2) global_bounds [of "table64 ws"], of b dev "replicate MAX_BOX_TYPES 0"] by blast
    have wf2: "heap_wf h2" using c(2) by (simp add: heap_same_def)
    obtain ret ls h3 where a: "alloc_lists cs [0..<MAX_BOX_TYPES] (socket_maps d ! socket) h2 = (ret, ls, h3)"
      "heap_wf h3" "length ls = MAX_BOX_TYPES" "ret = Ok0 \<longrightarrow> lists_ok ?x cs ls"
      using alloc_lists_ok [OF assms(5) _ wf2, of "[0..<MAX_BOX_TYPES]" ?x cs] by (auto simp: lessThan_atLeast0)
    show ?thesis
    proof (cases ret)
      case (Neg e)
      then show ?thesis using True h1 c(1) a assms by (simp add: process_socket_discovery_table_def Let_def)
    next
      case Ok0
      then obtain ls' h4 where "foldF (fill_unit b dev addr (stride ?g * 8) cs) ?units (ls, h3) = Inr (ls', h4)"
        "heap_same h3 h4" "lists_ok ?x cs ls'"
        using fill_pass_ok [OF a(2) assms(2) global_bounds [of "table64 ws"], of ?x cs ls b dev] a(4) by blast
      moreover from this(3) have "?x \<Longrightarrow> \<forall>l \<in> set ls'. list_sound l" by (rule lists_ok_sound)
      ultimately show ?thesis using Ok0 True h1 c(1) a(1) assms
        by (simp add: process_socket_discovery_table_def Let_def heap_same_def lists_ok_def)
    qed
  qed
qed

text \<open>
  C33. The two passes are exact: when allocations succeed and the header of the table is
  readable and the table does not change while it is read, the list of each box type of a socket seen for the first time holds precisely the
  units of that type, in table order, skipping the unreadable and the empty ones.
\<close>

theorem discovery_lists_exact:
  assumes "heap_wf h" and "alloc_ok h = (\<lambda>_. True)" and "table_addr_ok addr"
    and "socket < num_sockets d" and "length (global_pmus d) = num_sockets d" and "length (socket_maps d) = num_sockets d"
    and "socket_maps d ! socket = empty_map" and "0xFFFFFFFF \<notin> set (unit_words b dev addr)"
    and "stays b dev"
  shows "\<exists>d' h'. process_socket_discovery_table b dev socket addr d h = Inr (Ok0, d', h') \<and>
    (let g = global_pmu_of (table64 (unit_words b dev addr));
         units = units_of b dev addr (stride g * 8) (unat (max_units g)) in
     \<forall>t < MAX_BOX_TYPES. get_num_boxes d' t socket = length (of_type t units) \<and>
       (\<forall>pos < length (of_type t units). box_at d' socket t pos = Inr (of_type t units ! pos)))"
proof -
  let ?g = "global_pmu_of (table64 (unit_words b dev addr))"
  let ?n = "unat (max_units ?g)"
  let ?us = "units_of b dev addr (stride ?g * 8) ?n"
  let ?cs = "fold bump ?us (replicate MAX_BOX_TYPES 0)"
  obtain h1 where h1: "heap_same h h1" "mmio_memcpy b dev addr 24 True False h = Inr (Ok0, unit_words b dev addr, h1)"
    using read_table [OF assms(1), of addr b dev] table_addr_ok_read [OF assms(3)] assms(2,8) by (auto simp: stays_read [OF assms(9)])
  then have wf1: "heap_wf h1" "alloc_ok h1 = (\<lambda>_. True)" using assms(2) by (simp_all add: heap_same_def)
  obtain h2 where c: "foldF (count_unit b dev addr (stride ?g * 8)) [0..<?n] (replicate MAX_BOX_TYPES 0, h1) = Inr (?cs, h2)"
    "heap_same h1 h2"
    using count_pass_exact [OF wf1 assms(3) global_bounds [of "table64 (unit_words b dev addr)"] assms(9), of "replicate MAX_BOX_TYPES 0"] by blast
  then have wf2: "heap_wf h2" "alloc_ok h2 = (\<lambda>_. True)" using wf1 by (simp_all add: heap_same_def)
  have cs: "?cs ! t = length (of_type t ?us)" if "t < MAX_BOX_TYPES" for t
    using fold_bump_nth [of "replicate MAX_BOX_TYPES 0" t ?us] that by simp
  obtain ls h3 where a: "alloc_lists ?cs [0..<MAX_BOX_TYPES] empty_map h2 = (Ok0, ls, h3)" "heap_wf h3"
    "alloc_ok h3 = (\<lambda>_. True)" "filled ?cs [] ls"
    using alloc_lists_exact [of "[0..<MAX_BOX_TYPES]" empty_map h2 ?cs] wf2
    by (auto simp: empty_map_def filled_def lessThan_atLeast0)
  obtain ls' h4 where f: "foldF (fill_unit b dev addr (stride ?g * 8) ?cs) [0..<?n] (ls, h3) = Inr (ls', h4)"
    "filled ?cs ?us ls'"
    using fill_pass_exact [OF a(2,3) assms(3) global_bounds [of "table64 (unit_words b dev addr)"] cs a(4) order_refl assms(9)] by blast
  let ?d' = "d\<lparr>global_pmus := (global_pmus d)[socket := ?g], socket_maps := (socket_maps d)[socket := ls']\<rparr>"
  have "process_socket_discovery_table b dev socket addr d h = Inr (Ok0, ?d', h4)"
    using h1(2) c(1) a(1) f(1) assms(4-7) by (simp add: process_socket_discovery_table_def Let_def)
  moreover have "get_num_boxes ?d' t socket = length (of_type t ?us) \<and>
      (\<forall>pos < length (of_type t ?us). box_at ?d' socket t pos = Inr (of_type t ?us ! pos))" if "t < MAX_BOX_TYPES" for t
    using f(2) that assms(4,6) cs [OF that]
    by (auto simp: filled_def get_num_boxes_def box_at_def box_list_def split: if_splits)
  ultimately show ?thesis unfolding Let_def by blast
qed

text \<open>
  The stride between the registers of a memory-mapped unit is the smallest power of two
  bytes that holds a counter: it covers the counter's width, and half of it would not.
\<close>

theorem register_step_fits:
  assumes "box_at d socket bt pos = Inr p" and "access_type_of (access_type p) \<in> {ACCESS_TYPE_MMIO, ACCESS_TYPE_PCICFG}"
    and "bit_width p \<le> 64"
  shows "\<exists>k. register_step d socket bt pos = Inr (2 ^ k) \<and> k \<le> 3 \<and> unat (bit_width p) \<le> 8 * 2 ^ k \<and>
    (0 < k \<longrightarrow> 8 * 2 ^ (k - 1) < unat (bit_width p))"
proof -
  let ?w = "bit_width p"
  have w: "unat ?w \<le> 64" using assms(3) by (simp add: word_le_nat_alt)
  have r: "register_step d socket bt pos =
      Inr (if unat ?w \<le> 8 then 1 else if unat ?w \<le> 16 then 2 else if unat ?w \<le> 32 then 4 else 8)"
    using assms w by (auto simp: register_step_def step_of_width_def word_le_nat_alt split: access_type_enum.splits)
  consider "unat ?w \<le> 8" | "8 < unat ?w" "unat ?w \<le> 16" | "16 < unat ?w" "unat ?w \<le> 32" | "32 < unat ?w" by linarith
  then show ?thesis
  proof cases
    case 1 then show ?thesis by (intro exI [of _ 0]) (simp add: r)
  next
    case 2 then show ?thesis by (intro exI [of _ 1]) (simp add: r)
  next
    case 3 then show ?thesis by (intro exI [of _ 2]) (simp add: r)
  next
    case 4 then show ?thesis using w by (intro exI [of _ 3]) (simp add: r)
  qed
qed

section \<open>Witnesses\<close>

text \<open>A table at \<open>0x1000\<close> with a stride of three words and one unit, of box type 6.\<close>

definition table1 :: "u64 \<Rightarrow> u32" where
  "table1 a = (if a = 0x1000 then 0x10300 else if a = 0x1018 then 4 else if a = 0x1028 then 6 else 0)"

definition disc1 :: uncore_pmu_discovery where
  "disc1 = \<lparr>d_ptr = 0, sm_ptr = 1, socket_maps = [empty_map], num_sockets = 1, gp_ptr = 2, global_pmus = [zero_global]\<rparr>"

lemma six: "[0..<6] = [0, 1, 2, 3, 4, 5 :: nat]"
  by (simp add: upt_rec)

lemma table1_words: "unit_words mem_bus table1 0x1000 = [0x10300, 0, 0, 0, 0, 0]"
  "unit_words mem_bus table1 0x1018 = [4, 0, 0, 0, 6, 0]"
  by (simp_all add: unit_words_def six mem_bus_def table1_def)

lemma table1_header: "stride (global_pmu_of (table64 [0x10300, 0, 0, 0, 0, 0])) = 3"
  "max_units (global_pmu_of (table64 [0x10300, 0, 0, 0, 0, 0])) = 1"
  by (simp_all add: global_pmu_of_def table64_def dword_pair_def bits_def drop_bit_eq_div take_bit_eq_mod)

lemma table1_units: "units_of mem_bus table1 0x1000 24 (Suc 0) = [box_pmu_of [4, 0, 6]]"
proof -
  have t: "table64 [4, 0, 0, 0, 6, 0] = [4, 0, 6]" by (simp add: table64_def dword_pair_def)
  have "unit_addr 0x1000 24 0 = 0x1018" by (simp add: unit_addr_def)
  then show ?thesis
    by (simp add: units_of_def List.map_filter_def unit_at_def table1_words t)
qed

text \<open>
  A device that turns a table with one unit of type 6 into one with two such units, from the
  \<open>n\<close>th allocation request on. With \<open>n = 6\<close> that is between the passes: the header and the two slots of
  the first pass take two requests each.
\<close>

definition changing_bus :: "nat \<Rightarrow> (u64 \<Rightarrow> u32) bus" where
  "changing_bus n = mem_bus\<lparr>drift := (\<lambda>m k d. if m < n then d else d(0x1018 := 4, 0x1028 := 6, 0x1030 := 4, 0x1040 := 6))\<rparr>"

definition table2 :: "u64 \<Rightarrow> u32" where
  "table2 a = (if a = 0x1000 then 0x20300 else if a = 0x1018 then 4 else if a = 0x1028 then 6 else 0)"

theorem process_socket_never_faults_witness:
  "\<exists>ret d' h'. process_socket_discovery_table (changing_bus 6) table2 0 0x1000 disc1 heap_full = Inr (ret, d', h') \<and>
    (ret = Ok0 \<longrightarrow> (\<forall>l \<in> set (socket_maps d' ! 0). list_sound l))"
proof -
  have "\<forall>l \<in> set (socket_maps disc1 ! 0). list_sound l" by (simp add: disc1_def empty_map_def list_sound_def)
  with process_socket_never_faults [where h = heap_full and addr = "0x1000" and d = disc1
      and socket = 0 and b = "changing_bus 6" and dev = table2, OF heap_full_wf]
  show ?thesis by (auto simp: table_addr_ok_def disc1_def empty_map_def)
qed

lemma mem_bus_stays: "stays mem_bus d"
  by (simp add: stays_def mem_bus_def)

theorem discovery_lists_exact_witness:
  "\<exists>d' h'. process_socket_discovery_table mem_bus table1 0 0x1000 disc1 heap_full = Inr (Ok0, d', h') \<and>
    get_num_boxes d' 6 0 = 1 \<and> box_at d' 0 6 0 = Inr (box_pmu_of [4, 0, 6])"
proof -
  have six: "unat (box_type (box_pmu_of [4, 0, 6])) = 6"
    by (simp add: box_pmu_of_def bits_def take_bit_eq_mod)
  have "\<exists>d' h'. process_socket_discovery_table mem_bus table1 0 0x1000 disc1 heap_full = Inr (Ok0, d', h') \<and>
    (\<forall>t < MAX_BOX_TYPES. get_num_boxes d' t 0 = length (of_type t [box_pmu_of [4, 0, 6]]) \<and>
       (\<forall>pos < length (of_type t [box_pmu_of [4, 0, 6]]). box_at d' 0 t pos = Inr (of_type t [box_pmu_of [4, 0, 6]] ! pos)))"
    using discovery_lists_exact [where h = heap_full and addr = "0x1000" and d = disc1 and socket = 0 and b = mem_bus
        and dev = table1, OF heap_full_wf]
    by (simp add: heap_full_def table_addr_ok_def disc1_def table1_words table1_header table1_units Let_def
        mem_bus_stays del: of_type_simps)
  then obtain d' h' where r: "process_socket_discovery_table mem_bus table1 0 0x1000 disc1 heap_full = Inr (Ok0, d', h')"
    "\<And>t. t < MAX_BOX_TYPES \<Longrightarrow> get_num_boxes d' t 0 = length (of_type t [box_pmu_of [4, 0, 6]]) \<and>
       (\<forall>pos < length (of_type t [box_pmu_of [4, 0, 6]]). box_at d' 0 t pos = Inr (of_type t [box_pmu_of [4, 0, 6]] ! pos))"
    by blast
  then show ?thesis using r(2) [of 6] six by (simp add: MAX_BOX_TYPES_def)
qed

definition disc48 :: uncore_pmu_discovery where
  "disc48 = disc1\<lparr>socket_maps := [\<lparr>pmus = Some (3, [zero_box\<lparr>bit_width := 48, access_type := 1\<rparr>]), count = 1\<rparr> # replicate 31 \<lparr>pmus = None, count = 0\<rparr>]\<rparr>"

theorem register_step_fits_witness:
  "\<exists>k. register_step disc48 0 0 0 = Inr (2 ^ k) \<and> k \<le> 3 \<and> 48 \<le> 8 * (2::nat) ^ k"
proof -
  have "box_at disc48 0 0 0 = Inr (zero_box\<lparr>bit_width := 48, access_type := 1\<rparr>)"
    by (simp add: box_at_def box_list_def disc48_def)
  from register_step_fits [OF this] show ?thesis by (auto simp: access_type_of_def)
qed

end
