(* ===== verification/Uncore_Pmu.thy ===== *)
theory Uncore_Pmu
  imports Discovery
begin

text \<open>
  The memory-controller PMUs: \<open>src/include/types.h\<close>, \<open>src/include/uncore_pmu.h\<close> and
  \<open>src/src/uncore_pmu.c\<close>. A PMU is its registers (theory Mmio) at the addresses that the
  discovery (theory Discovery) reports; programming and reading it are accesses on the bus. The
  global \<open>g_uncore_pmus\<close> is passed explicitly.

  The lemmas give the exact sequence of register writes that programs the controllers, show
  that a register reaches the physical address it was made for, that the totals are the sums of
  the counters, and that creating and destroying registers balances the heap.
\<close>

section \<open>Constants (types.h)\<close>

definition SERVER_MC_CH_PMON_SIZE :: u64 where "SERVER_MC_CH_PMON_SIZE = 0x1000"
definition SERVER_MC_CH_PMON_FIXED_CTL_OFFSET :: u64 where "SERVER_MC_CH_PMON_FIXED_CTL_OFFSET = 0x54"
definition SERVER_MC_CH_PMON_FIXED_CTR_OFFSET :: u64 where "SERVER_MC_CH_PMON_FIXED_CTR_OFFSET = 0x38"
definition UNC_PMON_UNIT_CTL_FRZ_EN :: u32 where "UNC_PMON_UNIT_CTL_FRZ_EN = push_bit 16 1"
definition SPR_UNC_PMON_UNIT_CTL_FRZ :: u64 where "SPR_UNC_PMON_UNIT_CTL_FRZ = push_bit 0 1"
definition SPR_UNC_PMON_UNIT_CTL_RST_CONTROL :: u64 where "SPR_UNC_PMON_UNIT_CTL_RST_CONTROL = push_bit 8 1"
definition SPR_UNC_PMON_UNIT_CTL_RST_COUNTERS :: u64 where "SPR_UNC_PMON_UNIT_CTL_RST_COUNTERS = push_bit 9 1"
definition MC_CH_PCI_PMON_FIXED_CTL_RST :: u64 where "MC_CH_PCI_PMON_FIXED_CTL_RST = push_bit 19 1"
definition MC_CH_PCI_PMON_FIXED_CTL_EN :: u64 where "MC_CH_PCI_PMON_FIXED_CTL_EN = push_bit 22 1"
definition MC_CH_PCI_PMON_CTL_EVENT :: "u32 \<Rightarrow> u32" where "MC_CH_PCI_PMON_CTL_EVENT x = push_bit 0 x"
definition MC_CH_PCI_PMON_CTL_UMASK :: "u32 \<Rightarrow> u32" where "MC_CH_PCI_PMON_CTL_UMASK x = push_bit 8 x"

section \<open>A PMU (uncore\_pmu.h)\<close>

definition MAX_IMC_PMUS :: nat where "MAX_IMC_PMUS = 32"
definition MAX_HW_REGS_PER_IMC_PMU :: nat where "MAX_HW_REGS_PER_IMC_PMU = 16"
definition SOCKET_ID :: nat where "SOCKET_ID = 0"
definition CPU_MODEL :: SupportedCPUModels where "CPU_MODEL = SPR"

record uncore_pmu =
  up_ptr :: nat
  unit_ctrl :: "hw_reg option"
  counter_ctrl :: "hw_reg option list"
  counter_val :: "hw_reg option list"
  fixed_counter_ctrl :: "hw_reg option"
  fixed_counter_val :: "hw_reg option"
  pmu_filter :: "hw_reg option list"

definition uncore_pmu_create ::
  "hw_reg option \<Rightarrow> hw_reg option list \<Rightarrow> hw_reg option list \<Rightarrow> hw_reg option \<Rightarrow> hw_reg option \<Rightarrow> hw_reg option list \<Rightarrow>
   kheap \<Rightarrow> uncore_pmu option \<times> kheap" where
  "uncore_pmu_create uc cc cv fc fv fl h =
     (case kalloc KObj h of
        (None, h) \<Rightarrow> (None, h)
      | (Some p, h) \<Rightarrow>
          (Some \<lparr>up_ptr = p, unit_ctrl = uc, counter_ctrl = cc, counter_val = cv, fixed_counter_ctrl = fc,
                 fixed_counter_val = fv, pmu_filter = fl\<rparr>, h))"

definition uncore_pmu_is_valid :: "uncore_pmu option \<Rightarrow> bool may" where
  "uncore_pmu_is_valid pmu =
     (case pmu of None \<Rightarrow> Inl NullDeref | Some p \<Rightarrow> Inr (unit_ctrl p \<noteq> None \<and> hw_reg_is_valid (unit_ctrl p)))"

text \<open>Continue with the PMU if it is valid, otherwise return the given result.\<close>

definition if_valid :: "uncore_pmu option \<Rightarrow> 'a may \<Rightarrow> (uncore_pmu \<Rightarrow> 'a may) \<Rightarrow> 'a may" where
  "if_valid pmu dflt f =
     bindF (uncore_pmu_is_valid pmu) (\<lambda>ok. case pmu of Some p \<Rightarrow> if ok then f p else dflt | None \<Rightarrow> dflt)"

definition uncore_pmu_init_freeze :: "'d bus \<Rightarrow> uncore_pmu option \<Rightarrow> 'd \<Rightarrow> (bool \<times> 'd) may" where
  "uncore_pmu_init_freeze b pmu d =
     if_valid pmu (Inr (False, d)) (\<lambda>p.
       if CPU_MODEL = SPR then
         bindF (hw_reg_write b (unit_ctrl p) SPR_UNC_PMON_UNIT_CTL_FRZ d) (\<lambda>d.
           bindF (hw_reg_write b (unit_ctrl p) (SPR_UNC_PMON_UNIT_CTL_FRZ + SPR_UNC_PMON_UNIT_CTL_RST_CONTROL) d) (\<lambda>d.
             Inr (True, d)))
       else Inr (False, d))"

definition uncore_pmu_reset_unfreeze :: "'d bus \<Rightarrow> uncore_pmu option \<Rightarrow> u32 \<Rightarrow> 'd \<Rightarrow> (bool \<times> 'd) may" where
  "uncore_pmu_reset_unfreeze b pmu extra d =
     if_valid pmu (Inr (False, d)) (\<lambda>p.
       if CPU_MODEL = SPR then
         bindF (hw_reg_write b (unit_ctrl p) (SPR_UNC_PMON_UNIT_CTL_FRZ + SPR_UNC_PMON_UNIT_CTL_RST_COUNTERS) d) (\<lambda>d.
           bindF (hw_reg_write b (unit_ctrl p) 0 d) (\<lambda>d. Inr (True, d)))
       else Inr (False, d))"

definition uncore_pmu_enable_and_reset_mc_fixed_counter ::
  "'d bus \<Rightarrow> uncore_pmu option \<Rightarrow> 'd \<Rightarrow> (bool \<times> 'd) may" where
  "uncore_pmu_enable_and_reset_mc_fixed_counter b pmu d =
     if_valid pmu (Inr (True, d)) (\<lambda>p.
       if fixed_counter_ctrl p \<noteq> None then
         bindF (hw_reg_write b (fixed_counter_ctrl p) MC_CH_PCI_PMON_FIXED_CTL_EN d) (\<lambda>d.
           bindF (hw_reg_write b (fixed_counter_ctrl p) (MC_CH_PCI_PMON_FIXED_CTL_EN + MC_CH_PCI_PMON_FIXED_CTL_RST) d) (\<lambda>d.
             Inr (True, d)))
       else Inr (False, d))"

definition uncore_pmu_freeze :: "'d bus \<Rightarrow> uncore_pmu option \<Rightarrow> u32 \<Rightarrow> 'd \<Rightarrow> 'd may" where
  "uncore_pmu_freeze b pmu extra d =
     if_valid pmu (Inr d) (\<lambda>p.
       if CPU_MODEL = SPR then hw_reg_write b (unit_ctrl p) SPR_UNC_PMON_UNIT_CTL_FRZ d else Inr d)"

definition uncore_pmu_unfreeze :: "'d bus \<Rightarrow> uncore_pmu option \<Rightarrow> u32 \<Rightarrow> 'd \<Rightarrow> 'd may" where
  "uncore_pmu_unfreeze b pmu extra d =
     if_valid pmu (Inr d) (\<lambda>p. if CPU_MODEL = SPR then hw_reg_write b (unit_ctrl p) 0 d else Inr d)"

text \<open>The count of leading non-NULL counter registers.\<close>

definition uncore_pmu_get_size :: "uncore_pmu \<Rightarrow> nat" where
  "uncore_pmu_get_size p = length (takeWhile (\<lambda>r. r \<noteq> None) (take MAX_HW_REGS_PER_IMC_PMU (counter_ctrl p)))"

definition destroy_reg :: "hw_reg option \<Rightarrow> kheap \<Rightarrow> kheap may" where
  "destroy_reg r h = (case r of None \<Rightarrow> Inr h | Some _ \<Rightarrow> hw_reg_destroy r h)"

definition uncore_pmu_destroy :: "uncore_pmu \<Rightarrow> kheap \<Rightarrow> kheap may" where
  "uncore_pmu_destroy p h =
     bindF (destroy_reg (unit_ctrl p) h) (\<lambda>h.
       bindF (foldF (\<lambda>i h. bindF (destroy_reg (counter_ctrl p ! i) h) (destroy_reg (counter_val p ! i)))
                [0..<MAX_HW_REGS_PER_IMC_PMU] h) (\<lambda>h.
         bindF (destroy_reg (fixed_counter_ctrl p) h) (\<lambda>h.
           bindF (destroy_reg (fixed_counter_val p) h) (\<lambda>h.
             bindF (destroy_reg (pmu_filter p ! 0) h) (destroy_reg (pmu_filter p ! 1))))))"

record uncore_pmus =
  imcs :: "uncore_pmu option list"
  num_imcs :: nat
  discovery :: "uncore_pmu_discovery option"

text \<open>\<open>g_uncore_pmus.imcs[i]\<close>: the array has \<open>MAX_IMC_PMUS\<close> elements.\<close>

definition imc_at :: "uncore_pmus \<Rightarrow> nat \<Rightarrow> uncore_pmu option may" where
  "imc_at g i = (if i < length (imcs g) then Inr (imcs g ! i) else Inl OutOfBounds)"

definition uncore_pmus_get_num_imcs :: "uncore_pmus \<Rightarrow> nat" where
  "uncore_pmus_get_num_imcs g = num_imcs g"

definition freeze_all_counters :: "'d bus \<Rightarrow> uncore_pmus \<Rightarrow> 'd \<Rightarrow> 'd may" where
  "freeze_all_counters b g d = foldF (\<lambda>i d. bindF (imc_at g i) (\<lambda>p. uncore_pmu_freeze b p 0 d)) [0..<num_imcs g] d"

definition unfreeze_all_counters :: "'d bus \<Rightarrow> uncore_pmus \<Rightarrow> 'd \<Rightarrow> 'd may" where
  "unfreeze_all_counters b g d = foldF (\<lambda>i d. bindF (imc_at g i) (\<lambda>p. uncore_pmu_unfreeze b p 0 d)) [0..<num_imcs g] d"

definition get_mc_counter :: "'d bus \<Rightarrow> 'd \<Rightarrow> uncore_pmus \<Rightarrow> nat \<Rightarrow> nat \<Rightarrow> u64 may" where
  "get_mc_counter b d g channel counter =
     (if MAX_IMC_PMUS \<le> channel \<or> 4 \<le> counter then Inr 0
      else
        bindF (imc_at g channel) (\<lambda>pmu.
          case pmu of
            None \<Rightarrow> Inr 0
          | Some p \<Rightarrow> (case counter_val p ! counter of None \<Rightarrow> Inr 0 | Some r \<Rightarrow> hw_reg_read b d (Some r))))"

definition get_imc_writes :: "'d bus \<Rightarrow> 'd \<Rightarrow> uncore_pmus \<Rightarrow> u64 may" where
  "get_imc_writes b d g =
     foldF (\<lambda>i total. bindF (get_mc_counter b d g i (event_index EVENT_WRITE)) (\<lambda>v. Inr (total + v))) [0..<num_imcs g] 0"

definition get_imc_reads :: "'d bus \<Rightarrow> 'd \<Rightarrow> uncore_pmus \<Rightarrow> u64 may" where
  "get_imc_reads b d g =
     foldF (\<lambda>i total. bindF (get_mc_counter b d g i (event_index EVENT_READ)) (\<lambda>v. Inr (total + v))) [0..<num_imcs g] 0"

text \<open>
  One round of \<open>pr_bw_in_loop\<close>: the values it prints (in hundredths of MB/s: reads, writes,
  total), if any, and the totals it keeps for the next round.
\<close>

definition pr_bw_round ::
  "'d bus \<Rightarrow> uncore_pmus \<Rightarrow> u64 \<times> u64 \<Rightarrow> 'd \<Rightarrow> ((u64 \<times> u64 \<times> u64) option \<times> (u64 \<times> u64) \<times> 'd) may" where
  "pr_bw_round b g before d =
     (let sleep_duration = 1000; (before_r, before_w) = before in
      bindF (freeze_all_counters b g d) (\<lambda>d.
        bindF (get_imc_reads b d g) (\<lambda>after_r.
          bindF (get_imc_writes b d g) (\<lambda>after_w.
            (let delta_r = after_r - before_r; delta_w = after_w - before_w;
                 denominator = 10 * sleep_duration;
                 r = delta_r * 64 div denominator; w = delta_w * 64 div denominator;
                 out = (if before_r \<noteq> 0 \<and> before_w \<noteq> 0 then Some (r, w, r + w) else None) in
             bindF (unfreeze_all_counters b g d) (\<lambda>d. Inr (out, (after_r, after_w), d)))))))"

section \<open>Setting the PMUs up (uncore\_pmu.c)\<close>

definition make_register :: "u64 \<Rightarrow> u32 \<Rightarrow> kheap \<Rightarrow> (hw_reg option \<times> kheap) may" where
  "make_register raw_addr width h =
     (let map_size = SERVER_MC_CH_PMON_SIZE;
          aligned_addr = raw_addr AND NOT 4095;
          align_delta = raw_addr AND 4095 in
      bindF (mmio_range_create aligned_addr map_size False (-1) h) (\<lambda>(hnd, h).
        if hnd = None then Inr (None, h)
        else if width = 32 then Inr (mmio_reg32_create hnd align_delta h)
        else if width = 64 then Inr (mmio_reg64_create hnd align_delta h)
        else bindF (mmio_range_destroy hnd h) (\<lambda>h. Inr (None, h))))"

text \<open>The loop over \<open>i < num_cters && i < conf_len\<close>; it stops at a NULL control register.\<close>

fun write_conf :: "'d bus \<Rightarrow> uncore_pmu \<Rightarrow> u32 list \<Rightarrow> nat list \<Rightarrow> 'd \<Rightarrow> (bool \<times> 'd) may" where
  "write_conf b p conf [] d = Inr (True, d)"
| "write_conf b p conf (i # is) d =
     (if counter_ctrl p ! i \<noteq> None
      then bindF (hw_reg_write b (counter_ctrl p ! i) (ucast (conf ! i)) d) (write_conf b p conf is)
      else Inr (False, d))"

definition program_counter_with_config ::
  "'d bus \<Rightarrow> uncore_pmu option \<Rightarrow> u32 list \<Rightarrow> nat \<Rightarrow> u32 \<Rightarrow> 'd \<Rightarrow> (bool \<times> 'd) may" where
  "program_counter_with_config b pmu conf conf_len extra d =
     (case pmu of
        None \<Rightarrow> Inr (False, d)
      | Some p \<Rightarrow>
          bindF (write_conf b p conf [0..<min (uncore_pmu_get_size p) conf_len] d) (\<lambda>(ok, d).
            if \<not> ok then Inr (False, d)
            else if extra \<noteq> 0 then
              bindF (uncore_pmu_reset_unfreeze b pmu extra d) (\<lambda>(ok, d). Inr (ok, d))
            else Inr (True, d)))"

definition program_one_imc :: "'d bus \<Rightarrow> u32 list \<Rightarrow> uncore_pmu option \<Rightarrow> 'd \<Rightarrow> (bool \<times> 'd) may" where
  "program_one_imc b conf pmu d =
     bindF (uncore_pmu_init_freeze b pmu d) (\<lambda>(ok, d).
       if \<not> ok then Inr (False, d)
       else
         bindF (uncore_pmu_enable_and_reset_mc_fixed_counter b pmu d) (\<lambda>(ok, d).
           if \<not> ok then Inr (False, d)
           else program_counter_with_config b pmu conf 4 UNC_PMON_UNIT_CTL_FRZ_EN d))"

fun program_imcs :: "'d bus \<Rightarrow> u32 list \<Rightarrow> uncore_pmus \<Rightarrow> nat list \<Rightarrow> 'd \<Rightarrow> (ret \<times> 'd) may" where
  "program_imcs b conf g [] d = Inr (Ok0, d)"
| "program_imcs b conf g (i # is) d =
     bindF (imc_at g i) (\<lambda>pmu.
       bindF (program_one_imc b conf pmu d) (\<lambda>(ok, d).
         if ok then program_imcs b conf g is d else Inr (Neg EINVAL, d)))"

definition program_imc :: "'d bus \<Rightarrow> u32 list \<Rightarrow> uncore_pmus \<Rightarrow> 'd \<Rightarrow> (ret \<times> 'd) may" where
  "program_imc b conf g d = program_imcs b conf g [0..<num_imcs g] d"

definition mccnt_conf :: "u32 list" where
  "mccnt_conf = [MC_CH_PCI_PMON_CTL_EVENT 0x05 + MC_CH_PCI_PMON_CTL_UMASK 0xcf,
     MC_CH_PCI_PMON_CTL_EVENT 0x05 + MC_CH_PCI_PMON_CTL_UMASK 0xf0,
     MC_CH_PCI_PMON_CTL_EVENT 0xe3, MC_CH_PCI_PMON_CTL_EVENT 0xe7]"

definition program_counters :: "'d bus \<Rightarrow> uncore_pmus \<Rightarrow> 'd \<Rightarrow> (ret \<times> 'd) may" where
  "program_counters b g d = (if CPU_MODEL = SPR then program_imc b mccnt_conf g d else Inr (Neg EINVAL, d))"

text \<open>The registers of one box: the control and the value register of each of its counters.\<close>

fun make_counter_regs ::
  "uncore_pmu_discovery \<Rightarrow> nat \<Rightarrow> nat list \<Rightarrow> hw_reg option list \<Rightarrow> hw_reg option list \<Rightarrow> kheap \<Rightarrow>
   (hw_reg option list \<times> hw_reg option list \<times> kheap) may" where
  "make_counter_regs d pos [] cc cv h = Inr (cc, cv, h)"
| "make_counter_regs d pos (r # rs) cc cv h =
     bindF (get_box_ctl_addr_with_counter d SPR_IMC_BOX_TYPE SOCKET_ID pos (word_of_nat r)) (\<lambda>a.
       bindF (make_register a 32 h) (\<lambda>(c, h).
         bindF (get_box_ctr_addr d SPR_IMC_BOX_TYPE SOCKET_ID pos (word_of_nat r)) (\<lambda>a.
           bindF (make_register a 64 h) (\<lambda>(v, h).
             make_counter_regs d pos rs (cc[r := c]) (cv[r := v]) h))))"

text \<open>The body of the loop over the boxes of the IMC type; the flag tells whether it goes on.\<close>

definition init_box ::
  "uncore_pmu_discovery \<Rightarrow> nat \<Rightarrow> uncore_pmus \<Rightarrow> kheap \<Rightarrow> (bool \<times> uncore_pmus \<times> kheap) may" where
  "init_box d pos g h =
     (let no_regs = replicate MAX_HW_REGS_PER_IMC_PMU None in
      bindF (get_box_access_type d SPR_IMC_BOX_TYPE SOCKET_ID pos) (\<lambda>t.
        if t = ACCESS_TYPE_MMIO then
          bindF (get_box_num_regs d SPR_IMC_BOX_TYPE SOCKET_ID pos) (\<lambda>n_regs.
            if word_of_nat MAX_HW_REGS_PER_IMC_PMU < n_regs then Inr (False, g, h)
            else
              bindF (get_box_ctl_addr d SPR_IMC_BOX_TYPE SOCKET_ID pos) (\<lambda>a.
                bindF (make_register a 32 h) (\<lambda>(ctl, h).
                  if ctl = None then Inr (True, g, h)
                  else
                    bindF (make_counter_regs d pos [0..<unat n_regs] no_regs no_regs h) (\<lambda>(cc, cv, h).
                      bindF (make_register (a + SERVER_MC_CH_PMON_FIXED_CTL_OFFSET) 32 h) (\<lambda>(fc, h).
                        bindF (make_register (a + SERVER_MC_CH_PMON_FIXED_CTR_OFFSET) 64 h) (\<lambda>(fv, h).
                          (let (pmu, h) = uncore_pmu_create ctl cc cv fc fv [None, None] h in
                           if pos < length (imcs g)
                           then Inr (True, g\<lparr>imcs := (imcs g)[pos := pmu], num_imcs := num_imcs g + 1\<rparr>, h)
                           else Inl OutOfBounds)))))))
        else Inr (True, g, h)))"

fun init_boxes ::
  "uncore_pmu_discovery \<Rightarrow> nat list \<Rightarrow> uncore_pmus \<Rightarrow> kheap \<Rightarrow> (bool \<times> uncore_pmus \<times> kheap) may" where
  "init_boxes d [] g h = Inr (True, g, h)"
| "init_boxes d (pos # ps) g h =
     bindF (init_box d pos g h) (\<lambda>(ok, g, h). if ok then init_boxes d ps g h else Inr (False, g, h))"

definition init_g_uncore_pmus ::
  "'d bus \<Rightarrow> pci_dev list \<Rightarrow> nat \<Rightarrow> uncore_pmus \<Rightarrow> 'd \<Rightarrow> kheap \<Rightarrow> (ret \<times> uncore_pmus \<times> 'd \<times> kheap) may" where
  "init_g_uncore_pmus b devs nodes g dev h =
     (let g = g\<lparr>num_imcs := 0, imcs := replicate MAX_IMC_PMUS None\<rparr> in
      bindF (uncore_pmu_discovery_create b dev devs nodes h) (\<lambda>(r, h).
        case r of
          Inl e \<Rightarrow> Inr (Neg EINVAL, g\<lparr>discovery := None\<rparr>, dev, h)
        | Inr d \<Rightarrow>
            (let g = g\<lparr>discovery := Some d\<rparr> in
             bindF (init_boxes d [0..<get_num_boxes d SPR_IMC_BOX_TYPE SOCKET_ID] g h) (\<lambda>(ok, g, h).
               if \<not> ok then Inr (Neg EINVAL, g, dev, h)
               else bindF (program_counters b g dev) (\<lambda>(ret, dev). Inr (ret, g, dev, h))))))"

definition destroy_imc :: "nat \<Rightarrow> uncore_pmus \<times> kheap \<Rightarrow> (uncore_pmus \<times> kheap) may" where
  "destroy_imc i = (\<lambda>(g, h).
     bindF (imc_at g i) (\<lambda>pmu.
       case pmu of
         None \<Rightarrow> Inr (g, h)
       | Some p \<Rightarrow>
           bindF (uncore_pmu_destroy p h) (\<lambda>h.
             bindF (krelease KObj (up_ptr p) h) (\<lambda>h. Inr (g\<lparr>imcs := (imcs g)[i := None]\<rparr>, h)))))"

definition destroy_g_uncore_pmus :: "uncore_pmus \<Rightarrow> kheap \<Rightarrow> (uncore_pmus \<times> kheap) may" where
  "destroy_g_uncore_pmus g h =
     bindF (foldF destroy_imc [0..<num_imcs g] (g, h)) (\<lambda>(g, h).
       (let g = g\<lparr>num_imcs := 0\<rparr> in
        case discovery g of
          None \<Rightarrow> Inr (g, h)
        | Some d \<Rightarrow> bindF (uncore_pmu_discovery_destroy d h) (\<lambda>h. Inr (g\<lparr>discovery := None\<rparr>, h))))"

section \<open>Registers as an interface\<close>

text \<open>
  What a client of registers relies on: a write to a good register does not fault and has the
  register's effect on the device. A sequence of writes then is the sequence of the effects.
\<close>

locale bus_register =
  fixes wr :: "'r \<Rightarrow> u64 \<Rightarrow> 'd \<Rightarrow> 'd may"
    and eff :: "'r \<Rightarrow> u64 \<Rightarrow> 'd \<Rightarrow> 'd"
    and good :: "'r \<Rightarrow> bool"
  assumes wr_good: "good r \<Longrightarrow> wr r v d = Inr (eff r v d)"
begin

lemma wr_seq:
  "(\<And>w. w \<in> set ws \<Longrightarrow> good (fst w)) \<Longrightarrow>
   foldF (\<lambda>w. wr (fst w) (snd w)) ws d = Inr (fold (\<lambda>w. eff (fst w) (snd w)) ws d)"
  by (induction ws arbitrary: d) (simp_all add: wr_good)

end

definition reg_addr :: "hw_reg \<Rightarrow> u64" where
  "reg_addr reg = (case handle reg of None \<Rightarrow> 0 | Some r \<Rightarrow> mr_base r + offset reg)"

definition reg_bytes :: "hw_reg_ops \<Rightarrow> nat" where
  "reg_bytes t = (case t of vt_mmio_reg32_ops \<Rightarrow> 4 | vt_mmio_reg64_ops \<Rightarrow> 8)"

definition reg_wf :: "hw_reg \<Rightarrow> bool" where
  "reg_wf reg \<longleftrightarrow> magic reg = Some HW_REG_MAGIC \<and> unat (offset reg) < 4096 \<and>
     (case (ops reg, handle reg) of (Some t, Some r) \<Rightarrow> in_range r (offset reg) (reg_bytes t) | _ \<Rightarrow> False)"

definition reg_good :: "hw_reg option \<Rightarrow> bool" where
  "reg_good r = (case r of None \<Rightarrow> False | Some reg \<Rightarrow> reg_wf reg)"

definition reg_effect :: "'d bus \<Rightarrow> hw_reg option \<Rightarrow> u64 \<Rightarrow> 'd \<Rightarrow> 'd" where
  "reg_effect b r v d =
     (case r of
        None \<Rightarrow> d
      | Some reg \<Rightarrow>
          if ops reg = Some vt_mmio_reg32_ops then wr32 b (reg_addr reg) (ucast v) d
          else iowrite64_lo_hi b v (reg_addr reg) d)"

definition reg_value :: "'d bus \<Rightarrow> 'd \<Rightarrow> hw_reg \<Rightarrow> u64" where
  "reg_value b d reg =
     (if ops reg = Some vt_mmio_reg32_ops then ucast (rd32 b (reg_addr reg) d) else ioread64_lo_hi b (reg_addr reg) d)"

lemma reg_wf_cases:
  assumes "reg_wf reg"
  obtains r where "handle reg = Some r" "ops reg = Some vt_mmio_reg32_ops" "in_range r (offset reg) 4"
    "\<not> mr_size r < offset reg + 4"
  | r where "handle reg = Some r" "ops reg = Some vt_mmio_reg64_ops" "in_range r (offset reg) 8"
    "\<not> mr_size r < offset reg + 8"
proof -
  obtain t r where tr: "ops reg = Some t" "handle reg = Some r" "in_range r (offset reg) (reg_bytes t)"
    using assms by (auto simp: reg_wf_def split: option.splits)
  have lt: "unat (offset reg) < 4096" using assms by (simp add: reg_wf_def)
  show thesis
  proof (cases t)
    case vt_mmio_reg32_ops
    then show thesis using that(1) tr bounds_check [of "offset reg" 4 r] lt by (simp add: reg_bytes_def)
  next
    case vt_mmio_reg64_ops
    then show thesis using that(2) tr bounds_check [of "offset reg" 8 r] lt by (simp add: reg_bytes_def)
  qed
qed

interpretation regs: bus_register "hw_reg_write b" "reg_effect b" reg_good for b :: "'d bus"
proof
  fix r v and d :: 'd
  assume "reg_good r"
  then obtain reg where "r = Some reg" "reg_wf reg" by (auto simp: reg_good_def split: option.splits)
  then show "hw_reg_write b r v d = Inr (reg_effect b r v d)"
    by (elim reg_wf_cases)
      (simp_all add: hw_reg_write_def mmio_reg32_write_def mmio_reg64_write_def mmio_write32_def mmio_write64_def
        reg_effect_def reg_addr_def)
qed

lemma hw_reg_read_good: "reg_wf reg \<Longrightarrow> hw_reg_read b d (Some reg) = Inr (reg_value b d reg)"
  by (elim reg_wf_cases)
    (simp_all add: hw_reg_read_def mmio_reg32_read_def mmio_reg64_read_def mmio_read32_def mmio_read64_def
      reg_value_def reg_addr_def)

section \<open>Making a register\<close>

lemma page_parts: "(a AND NOT 4095) + (a AND 4095) = (a :: u64)" "unat (a AND 4095) = unat a mod 4096"
proof -
  have m: "(4095 :: u64) = Bit_Operations.mask 12" by (simp add: mask_eq_exp_minus_1)
  show "unat (a AND 4095) = unat a mod 4096"
    unfolding m take_bit_eq_mask [symmetric] by (simp add: take_bit_eq_mod unat_mod)
  have "(a AND NOT 4095) AND (a AND 4095) = 0" by (rule bit_word_eqI) (auto simp: bit_simps)
  then have "(a AND NOT 4095) + (a AND 4095) = (a AND NOT 4095) OR (a AND 4095)"
    by (rule disjunctive_add_eq_or)
  also have "\<dots> = a" by (rule bit_word_eqI) (auto simp: bit_simps)
  finally show "(a AND NOT 4095) + (a AND 4095) = a" .
qed

lemma make_register_cases:
  assumes "heap_wf h"
  shows "\<exists>r h'. make_register a width h = Inr (r, h') \<and> heap_wf h' \<and> alloc_ok h' = alloc_ok h \<and>
    (case r of
       None \<Rightarrow> width \<notin> {32, 64} \<or> (\<exists>k. \<not> alloc_ok h k)
     | Some reg \<Rightarrow> width \<in> {32, 64} \<and> magic reg = Some HW_REG_MAGIC \<and> offset reg = a AND 4095 \<and>
         ops reg = Some (if width = 32 then vt_mmio_reg32_ops else vt_mmio_reg64_ops) \<and>
         (\<exists>rg. handle reg = Some rg \<and> mr_base rg = a AND NOT 4095 \<and> mr_size rg = 4096 \<and>
            live h' = live h \<union> {(KObj, reg_ptr reg), (KObj, mr_ptr rg), (KIomap, mmap_addr rg)} \<and>
            n_req h \<le> mr_ptr rg \<and> n_req h \<le> mmap_addr rg \<and> n_req h \<le> reg_ptr reg \<and> reg_ptr reg \<noteq> mr_ptr rg))"
proof -
  obtain r h1 where c: "mmio_range_create (a AND NOT 4095) 4096 False (-1) h = Inr (r, h1)" "heap_wf h1" "alloc_ok h1 = alloc_ok h"
    "n_req h \<le> n_req h1"
    "case r of None \<Rightarrow> live h1 = live h \<and> (\<exists>k. \<not> alloc_ok h k)
     | Some r \<Rightarrow> mr_base r = a AND NOT 4095 \<and> mr_size r = 4096 \<and> mr_ptr r \<ge> n_req h \<and> mmap_addr r \<ge> n_req h \<and>
         mr_ptr r < n_req h1 \<and> mmap_addr r < n_req h1 \<and>
         live h1 = live h \<union> {(KObj, mr_ptr r), (KIomap, mmap_addr r)}"
    using mmio_range_create_spec [OF assms, of "a AND NOT 4095" 4096 False "-1"] by blast
  have h2: "heap_wf (snd (kalloc KObj h1))" "alloc_ok (snd (kalloc KObj h1)) = alloc_ok h1"
    using c(2) by (auto simp: kalloc_def heap_wf_def less_SucI)
  show ?thesis
  proof (cases r)
    case None
    then show ?thesis using c by (simp add: make_register_def SERVER_MC_CH_PMON_SIZE_def)
  next
    case (Some rg)
    obtain h3 where "mmio_range_destroy (Some rg) h1 = Inr h3" "heap_wf h3" "alloc_ok h3 = alloc_ok h1"
      using mmio_range_destroy_spec [OF c(2), of rg] c(5) Some by auto
    with Some c h2 show ?thesis
      by (auto simp: make_register_def SERVER_MC_CH_PMON_SIZE_def mmio_reg32_create_def mmio_reg64_create_def kalloc_def)
  qed
qed

lemma page_room:
  assumes "k dvd 4096" and "0 < k" and "k dvd n"
  shows "n mod 4096 + k \<le> (4096 :: nat)"
proof -
  have "k dvd 4096 - n mod 4096" using assms by (simp add: dvd_diff_nat dvd_mod)
  moreover have "0 < 4096 - n mod 4096" by simp
  ultimately have "k \<le> 4096 - n mod 4096" by (rule dvd_imp_le)
  then show ?thesis by simp
qed

lemma made_register_wf:
  assumes "heap_wf h" and "make_register a width h = Inr (Some reg, h')" and "unat a mod (unat width div 8) = 0"
  shows "reg_wf reg" and "reg_addr reg = a" and "ops reg = Some (if width = 32 then vt_mmio_reg32_ops else vt_mmio_reg64_ops)"
    and "width \<in> {32, 64}"
proof -
  obtain rg where r: "width \<in> {32, 64}" "magic reg = Some HW_REG_MAGIC" "offset reg = a AND 4095"
    "ops reg = Some (if width = 32 then vt_mmio_reg32_ops else vt_mmio_reg64_ops)"
    "handle reg = Some rg" "mr_base rg = a AND NOT 4095" "mr_size rg = 4096"
    using make_register_cases [OF assms(1), of a width] assms(2) by auto
  then show "ops reg = Some (if width = 32 then vt_mmio_reg32_ops else vt_mmio_reg64_ops)" "width \<in> {32, 64}" by simp_all
  show "reg_addr reg = a" using r page_parts(1) [of a] by (simp add: reg_addr_def)
  have "unat a mod 4096 + reg_bytes (the (ops reg)) \<le> 4096"
    using r(1,4) assms(3) page_room [of 4 "unat a"] page_room [of 8 "unat a"] by (auto simp: reg_bytes_def mod_eq_0_iff_dvd)
  then show "reg_wf reg" using r by (auto simp: reg_wf_def in_range_def page_parts)
qed

section \<open>Programming the controllers\<close>

text \<open>The register writes that program one controller, in order.\<close>

definition imc_writes :: "u32 list \<Rightarrow> uncore_pmu \<Rightarrow> (hw_reg option \<times> u64) list" where
  "imc_writes conf p =
     [(unit_ctrl p, SPR_UNC_PMON_UNIT_CTL_FRZ),
      (unit_ctrl p, SPR_UNC_PMON_UNIT_CTL_FRZ + SPR_UNC_PMON_UNIT_CTL_RST_CONTROL),
      (fixed_counter_ctrl p, MC_CH_PCI_PMON_FIXED_CTL_EN),
      (fixed_counter_ctrl p, MC_CH_PCI_PMON_FIXED_CTL_EN + MC_CH_PCI_PMON_FIXED_CTL_RST)] @
     map (\<lambda>i. (counter_ctrl p ! i, ucast (conf ! i))) [0..<min (uncore_pmu_get_size p) 4] @
     [(unit_ctrl p, SPR_UNC_PMON_UNIT_CTL_FRZ + SPR_UNC_PMON_UNIT_CTL_RST_COUNTERS),
      (unit_ctrl p, 0)]"

definition apply_writes :: "'d bus \<Rightarrow> (hw_reg option \<times> u64) list \<Rightarrow> 'd \<Rightarrow> 'd" where
  "apply_writes b ws d = fold (\<lambda>w. reg_effect b (fst w) (snd w)) ws d"

lemma apply_writes_append: "apply_writes b (ws @ vs) d = apply_writes b vs (apply_writes b ws d)"
  by (simp add: apply_writes_def)

definition pmu_good :: "uncore_pmu \<Rightarrow> bool" where
  "pmu_good p \<longleftrightarrow> reg_good (unit_ctrl p) \<and> reg_good (fixed_counter_ctrl p) \<and>
     (\<forall>i < uncore_pmu_get_size p. reg_good (counter_ctrl p ! i))"

lemma reg_good_simps:
  assumes "reg_good r"
  shows "r \<noteq> None" "hw_reg_is_valid r"
  using assms by (auto simp: reg_good_def hw_reg_is_valid_def reg_wf_def split: option.splits)

lemma if_valid_good: "pmu_good p \<Longrightarrow> if_valid (Some p) x f = f p"
  using reg_good_simps [of "unit_ctrl p"] by (simp add: if_valid_def uncore_pmu_is_valid_def pmu_good_def)

lemma write_conf_good:
  assumes "\<And>i. i \<in> set is \<Longrightarrow> reg_good (counter_ctrl p ! i)"
  shows "write_conf b p conf is d = Inr (True, apply_writes b (map (\<lambda>i. (counter_ctrl p ! i, ucast (conf ! i))) is) d)"
  using assms
  by (induction "is" arbitrary: d) (auto simp: apply_writes_def regs.wr_good reg_good_simps)

lemma program_one_imc_good:
  assumes "pmu_good p"
  shows "program_one_imc b conf (Some p) d = Inr (True, apply_writes b (imc_writes conf p) d)"
proof -
  have g: "reg_good (unit_ctrl p)" "reg_good (fixed_counter_ctrl p)" "fixed_counter_ctrl p \<noteq> None"
    using assms reg_good_simps by (auto simp: pmu_good_def)
  have c: "write_conf b p conf [0..<min (uncore_pmu_get_size p) 4] x =
      Inr (True, apply_writes b (map (\<lambda>i. (counter_ctrl p ! i, ucast (conf ! i))) [0..<min (uncore_pmu_get_size p) 4]) x)" for x
    using assms by (intro write_conf_good) (auto simp: pmu_good_def)
  have x: "UNC_PMON_UNIT_CTL_FRZ_EN \<noteq> 0" by (simp add: UNC_PMON_UNIT_CTL_FRZ_EN_def)
  show ?thesis
    by (simp add: program_one_imc_def uncore_pmu_init_freeze_def uncore_pmu_enable_and_reset_mc_fixed_counter_def
        program_counter_with_config_def uncore_pmu_reset_unfreeze_def if_valid_good [OF assms] CPU_MODEL_def
        regs.wr_good [OF g(1)] regs.wr_good [OF g(2)] g(3) c x imc_writes_def apply_writes_append del: upt_Suc)
      (simp add: apply_writes_def)
qed

lemma program_imcs_good:
  assumes "\<And>i. i \<in> set is \<Longrightarrow> i < length (imcs g) \<and> (\<exists>p. imcs g ! i = Some p \<and> pmu_good p)"
  shows "program_imcs b conf g is d =
    Inr (Ok0, apply_writes b (concat (map (\<lambda>i. imc_writes conf (the (imcs g ! i))) is)) d)"
  using assms
proof (induction "is" arbitrary: d)
  case (Cons i "is")
  then obtain p where "imcs g ! i = Some p" "pmu_good p" "i < length (imcs g)" by auto
  then show ?case
    using Cons by (simp add: imc_at_def program_one_imc_good apply_writes_append)
qed (simp add: apply_writes_def)

section \<open>Summing the counters\<close>

definition mc_value :: "'d bus \<Rightarrow> 'd \<Rightarrow> uncore_pmus \<Rightarrow> nat \<Rightarrow> nat \<Rightarrow> u64" where
  "mc_value b d g channel counter =
     (case imcs g ! channel of
        None \<Rightarrow> 0
      | Some p \<Rightarrow> (case counter_val p ! counter of None \<Rightarrow> 0 | Some r \<Rightarrow> reg_value b d r))"

text \<open>The array has its size, and every value register that exists is well-formed.\<close>

definition imcs_wf :: "uncore_pmus \<Rightarrow> bool" where
  "imcs_wf g \<longleftrightarrow> length (imcs g) = MAX_IMC_PMUS \<and>
     (\<forall>i < MAX_IMC_PMUS. \<forall>c < 4. case imcs g ! i of None \<Rightarrow> True
        | Some p \<Rightarrow> (case counter_val p ! c of None \<Rightarrow> True | Some r \<Rightarrow> reg_wf r))"

lemma get_mc_counter_eq:
  assumes "imcs_wf g"
  shows "get_mc_counter b d g i c = Inr (if MAX_IMC_PMUS \<le> i \<or> 4 \<le> c then 0 else mc_value b d g i c)"
proof (cases "MAX_IMC_PMUS \<le> i \<or> 4 \<le> c")
  case False
  then have "i < length (imcs g)" "case imcs g ! i of None \<Rightarrow> True
        | Some p \<Rightarrow> (case counter_val p ! c of None \<Rightarrow> True | Some r \<Rightarrow> reg_wf r)"
    using assms by (auto simp: imcs_wf_def)
  with False show ?thesis
    by (auto simp: get_mc_counter_def imc_at_def mc_value_def hw_reg_read_good split: option.splits)
qed (simp add: get_mc_counter_def)

lemma sum_counters:
  assumes "\<And>i. i \<in> set is \<Longrightarrow> get_mc_counter b d g i c = Inr (f i)"
  shows "foldF (\<lambda>i total. bindF (get_mc_counter b d g i c) (\<lambda>v. Inr (total + v))) is t = Inr (t + sum_list (map f is))"
  using assms by (induction "is" arbitrary: t) (simp_all add: add.assoc)

lemma init_box_frame:
  assumes "init_box d pos g h = Inr (ok, g', h')" and "i \<noteq> pos"
  shows "imcs g' ! i = imcs g ! i \<and> length (imcs g') = length (imcs g)"
  using assms
  by (auto simp: init_box_def Let_def fault_simps split_beta split: if_splits)

lemma init_boxes_frame:
  "init_boxes d ps g h = Inr (ok, g', h') \<Longrightarrow> i \<notin> set ps \<Longrightarrow> imcs g' ! i = imcs g ! i \<and> length (imcs g') = length (imcs g)"
proof (induction ps arbitrary: g h)
  case (Cons pos ps)
  then obtain ok1 g1 h1 where b: "init_box d pos g h = Inr (ok1, g1, h1)"
    "(if ok1 then init_boxes d ps g1 h1 else Inr (False, g1, h1)) = Inr (ok, g', h')"
    by (auto simp: fault_simps)
  have "imcs g1 ! i = imcs g ! i \<and> length (imcs g1) = length (imcs g)" using init_box_frame [OF b(1), of i] Cons.prems(2) by simp
  then show ?case using b(2) Cons.IH [of g1 h1] Cons.prems(2) by (auto split: if_splits)
qed simp

section \<open>Properties\<close>

text \<open>
  A register made for a naturally aligned physical address reaches exactly that address:
  reading it through the operation table yields the device's 32- or 64-bit value there, writing
  it has the device's write effect there.
\<close>

theorem make_register_reaches:
  assumes "heap_wf h" and "make_register a width h = Inr (Some reg, h')" and "unat a mod (unat width div 8) = 0"
  shows "hw_reg_read b d (Some reg) = Inr (if width = 32 then ucast (rd32 b a d) else ioread64_lo_hi b a d) \<and>
    hw_reg_write b (Some reg) v d = Inr (if width = 32 then wr32 b a (ucast v) d else iowrite64_lo_hi b v a d)"
  using made_register_wf [OF assms] hw_reg_read_good [of reg b d] regs.wr_good [of "Some reg" b v d]
  by (auto simp: reg_good_def reg_value_def reg_effect_def)

text \<open>
  Destroying a register that \<open>make_register\<close> returned releases the register, the range and
  the mapping, each once: the heap is as before.
\<close>

theorem register_lifecycle:
  assumes "heap_wf h" and "make_register a width h = Inr (Some reg, h1)"
  shows "\<exists>h2. hw_reg_destroy (Some reg) h1 = Inr h2 \<and> live h2 = live h"
proof -
  obtain rg where r: "width \<in> {32, 64}" "magic reg = Some HW_REG_MAGIC"
    "ops reg = Some (if width = 32 then vt_mmio_reg32_ops else vt_mmio_reg64_ops)" "handle reg = Some rg"
    "live h1 = live h \<union> {(KObj, reg_ptr reg), (KObj, mr_ptr rg), (KIomap, mmap_addr rg)}"
    "n_req h \<le> mr_ptr rg" "n_req h \<le> mmap_addr rg" "n_req h \<le> reg_ptr reg" "reg_ptr reg \<noteq> mr_ptr rg"
    using make_register_cases [OF assms(1), of a width] assms(2) by auto
  have fresh: "(KObj, mr_ptr rg) \<notin> live h" "(KIomap, mmap_addr rg) \<notin> live h" "(KObj, reg_ptr reg) \<notin> live h"
    using assms(1) r(6-8) by (auto simp: heap_wf_def dest: leD)
  then show ?thesis
    using r by (auto simp: hw_reg_destroy_def hw_reg_is_valid_def mmio_reg32_destroy_def mmio_reg64_destroy_def
        mmio_range_destroy_def krelease_def)
qed

text \<open>
  When the mapping succeeds but the register object cannot be allocated, \<open>make_register\<close>
  returns NULL without releasing the range: the range and its mapping leak.
\<close>

theorem make_register_leaks:
  assumes "heap_wf h" and "alloc_ok h (n_req h)" and "alloc_ok h (n_req h + 1)" and "\<not> alloc_ok h (n_req h + 2)"
    and "width \<in> {32, 64}"
  shows "\<exists>h'. make_register a width h = Inr (None, h') \<and>
    live h' = live h \<union> {(KObj, n_req h), (KIomap, n_req h + 1)} \<and> live h' \<noteq> live h"
proof -
  have "(KObj, n_req h) \<notin> live h" using assms(1) by (auto simp: heap_wf_def)
  then show ?thesis
    using assms(2-5)
    by (auto simp: make_register_def mmio_range_create_def mmio_reg32_create_def mmio_reg64_create_def kalloc_def)
qed

text \<open>
  C35. Programming the counters of good controllers succeeds and performs exactly this sequence
  of register writes, controller by controller: freeze, freeze and reset the controls, enable the
  fixed counter, reset it, write the event of each existing counter (reads, writes, PMM reads, PMM
  writes), freeze and reset the counters, unfreeze.
\<close>

theorem program_counters_sequence:
  assumes "num_imcs g \<le> length (imcs g)" and "\<And>i. i < num_imcs g \<Longrightarrow> \<exists>p. imcs g ! i = Some p \<and> pmu_good p"
  shows "program_counters b g d =
    Inr (Ok0, apply_writes b (concat (map (\<lambda>i. imc_writes [0xCF05, 0xF005, 0xE3, 0xE7] (the (imcs g ! i))) [0..<num_imcs g])) d)"
proof -
  have "mccnt_conf = [0xCF05, 0xF005, 0xE3, 0xE7]"
    by (simp add: mccnt_conf_def MC_CH_PCI_PMON_CTL_EVENT_def MC_CH_PCI_PMON_CTL_UMASK_def)
  then show ?thesis
    using program_imcs_good [of "[0..<num_imcs g]" g b mccnt_conf d] assms
    by (simp add: program_counters_def CPU_MODEL_def program_imc_def)
qed

text \<open>
  C36. The read and write totals are the sums, modulo \<open>2 ^ 64\<close>, of counter 0 and counter 1 over
  the discovered controllers; an absent controller or counter contributes nothing, and reading
  never faults.
\<close>

theorem imc_totals:
  assumes "imcs_wf g" and "num_imcs g \<le> MAX_IMC_PMUS"
  shows "get_imc_reads b d g = Inr (sum_list (map (\<lambda>i. mc_value b d g i 0) [0..<num_imcs g])) \<and>
    get_imc_writes b d g = Inr (sum_list (map (\<lambda>i. mc_value b d g i 1) [0..<num_imcs g]))"
proof -
  have "get_mc_counter b d g i c = Inr (mc_value b d g i c)" if "i \<in> set [0..<num_imcs g]" "c < 4" for i c
    using that assms(2) by (simp add: get_mc_counter_eq [OF assms(1)])
  then have s: "foldF (\<lambda>i total. bindF (get_mc_counter b d g i c) (\<lambda>v. Inr (total + v))) [0..<num_imcs g] 0 =
      Inr (0 + sum_list (map (\<lambda>i. mc_value b d g i c) [0..<num_imcs g]))" if "c < 4" for c
    using that by (intro sum_counters) auto
  show ?thesis using s [of 0] s [of 1] by (simp add: get_imc_reads_def get_imc_writes_def)
qed

text \<open>
  The slots of the controllers are indexed by the position of the box, but the loops run up
  to the number of controllers: when the first box is not memory mapped and a later one is, slot
  0 stays NULL and programming the counters dereferences it.
\<close>

theorem sparse_imcs_fault:
  assumes "get_box_access_type d SPR_IMC_BOX_TYPE SOCKET_ID 0 = Inr t" and "t \<noteq> ACCESS_TYPE_MMIO"
    and "init_boxes d [0..<n] \<lparr>imcs = replicate MAX_IMC_PMUS None, num_imcs = 0, discovery = Some d\<rparr> h = Inr (True, g, h')"
    and "0 < num_imcs g"
  shows "program_counters b g dev = Inl NullDeref"
proof -
  let ?g0 = "\<lparr>imcs = replicate MAX_IMC_PMUS None, num_imcs = 0, discovery = Some d\<rparr>"
  have n: "0 < n" using assms(3,4) by (cases n) auto
  have box0: "init_box d 0 ?g0 h = Inr (True, ?g0, h)" using assms(1,2) by (simp add: init_box_def Let_def)
  have "init_boxes d [1..<n] ?g0 h = Inr (True, g, h')"
    using assms(3) n box0 by (simp add: upt_conv_Cons)
  then have "imcs g ! 0 = None" "length (imcs g) = MAX_IMC_PMUS"
    using init_boxes_frame [of d "[1..<n]" ?g0 h True g h' 0] by (auto simp: MAX_IMC_PMUS_def)
  then show ?thesis
    using assms(4)
    by (simp add: program_counters_def CPU_MODEL_def program_imc_def upt_conv_Cons imc_at_def MAX_IMC_PMUS_def
        program_one_imc_def uncore_pmu_init_freeze_def if_valid_def uncore_pmu_is_valid_def)
qed

section \<open>Witnesses\<close>

definition reg0 :: hw_reg where
  "reg0 = \<lparr>reg_ptr = 0, magic = Some HW_REG_MAGIC, ops = Some vt_mmio_reg32_ops,
     handle = Some \<lparr>mr_ptr = 1, mmap_addr = 2, mr_base = 0x1000, mr_size = 4096, mr_silent = False, mr_core = -1\<rparr>, offset = 0\<rparr>"

definition pmu0 :: uncore_pmu where
  "pmu0 = \<lparr>up_ptr = 3, unit_ctrl = Some reg0, counter_ctrl = Some reg0 # replicate 15 None,
     counter_val = Some reg0 # replicate 15 None, fixed_counter_ctrl = Some reg0, fixed_counter_val = None,
     pmu_filter = [None, None]\<rparr>"

definition pmus0 :: uncore_pmus where
  "pmus0 = \<lparr>imcs = Some pmu0 # replicate 31 None, num_imcs = 1, discovery = None\<rparr>"

text \<open>Two boxes of the IMC type, the first accessed through MSRs.\<close>

definition disc_sparse :: uncore_pmu_discovery where
  "disc_sparse = disc1\<lparr>socket_maps := [empty_map[6 := \<lparr>pmus = Some (3, [zero_box, zero_box\<lparr>access_type := 1\<rparr>]), count = 2\<rparr>]]\<rparr>"

lemma reg0_wf: "reg_wf reg0"
  by (simp add: reg_wf_def reg0_def in_range_def reg_bytes_def)

lemma pmu0_good: "pmu_good pmu0"
proof -
  have "uncore_pmu_get_size pmu0 = 1" by (simp add: uncore_pmu_get_size_def pmu0_def MAX_HW_REGS_PER_IMC_PMU_def)
  then show ?thesis by (simp add: pmu_good_def reg_good_def pmu0_def reg0_wf)
qed

lemma made_reg: "\<exists>reg h'. make_register 0x2008 32 heap_full = Inr (Some reg, h')"
  by (simp add: make_register_def mmio_range_create_def mmio_reg32_create_def kalloc_def heap_full_def)

theorem make_register_reaches_witness:
  "\<exists>reg h'. make_register 0x2008 32 heap_full = Inr (Some reg, h') \<and>
    hw_reg_read mem_bus (\<lambda>_. 5) (Some reg) = Inr 5"
proof -
  obtain reg h' where r: "make_register 0x2008 32 heap_full = Inr (Some reg, h')" using made_reg by blast
  have "hw_reg_read mem_bus (\<lambda>_. 5) (Some reg) = Inr 5"
    using make_register_reaches [OF heap_full_wf r, of mem_bus "\<lambda>_. 5"] by (simp add: mem_bus_def)
  with r show ?thesis by blast
qed

theorem register_lifecycle_witness:
  "\<exists>reg h1 h2. make_register 0x2008 32 heap_full = Inr (Some reg, h1) \<and> hw_reg_destroy (Some reg) h1 = Inr h2 \<and> live h2 = {}"
proof -
  obtain reg h1 where r: "make_register 0x2008 32 heap_full = Inr (Some reg, h1)" using made_reg by blast
  from register_lifecycle [OF heap_full_wf r] r show ?thesis by (auto simp: heap_full_def)
qed

theorem make_register_leaks_witness:
  "\<exists>h'. make_register 0x2008 32 (heap_full\<lparr>alloc_ok := \<lambda>n. n < 2\<rparr>) = Inr (None, h') \<and> live h' = {(KObj, 0), (KIomap, 1)}"
  using make_register_leaks [where h = "heap_full\<lparr>alloc_ok := \<lambda>n. n < 2\<rparr>" and width = 32 and a = "0x2008"]
  by (auto simp: heap_full_def heap_wf_def)

theorem program_counters_sequence_witness:
  "program_counters mem_bus pmus0 (\<lambda>_. 0) =
    Inr (Ok0, apply_writes mem_bus (imc_writes [0xCF05, 0xF005, 0xE3, 0xE7] pmu0) (\<lambda>_. 0))"
  using program_counters_sequence [of pmus0 mem_bus "\<lambda>_. 0"] pmu0_good by (simp add: pmus0_def)

theorem imc_totals_witness:
  "get_imc_reads mem_bus (\<lambda>_. 5) pmus0 = Inr 5 \<and> get_imc_writes mem_bus (\<lambda>_. 5) pmus0 = Inr 0"
proof -
  have "imcs_wf pmus0"
    unfolding imcs_wf_def
    by (auto simp: pmus0_def pmu0_def MAX_IMC_PMUS_def nth_Cons reg0_wf split: nat.splits option.splits)
  moreover have "num_imcs pmus0 \<le> MAX_IMC_PMUS" by (simp add: pmus0_def MAX_IMC_PMUS_def)
  ultimately show ?thesis
    using imc_totals [of pmus0 mem_bus "\<lambda>_. 5"]
    by (simp add: pmus0_def mc_value_def pmu0_def reg_value_def reg0_def mem_bus_def)
qed

lemma sparse_boxes:
  "get_box_access_type disc_sparse SPR_IMC_BOX_TYPE SOCKET_ID 0 = Inr ACCESS_TYPE_MSR"
  "get_box_access_type disc_sparse SPR_IMC_BOX_TYPE SOCKET_ID 1 = Inr ACCESS_TYPE_MMIO"
  "get_box_num_regs disc_sparse SPR_IMC_BOX_TYPE SOCKET_ID 1 = Inr 0"
  "get_box_ctl_addr disc_sparse SPR_IMC_BOX_TYPE SOCKET_ID 1 = Inr 0"
  by (simp_all add: get_box_access_type_def get_box_num_regs_def get_box_ctl_addr_def valid_box_def box_at_def box_list_def
      disc_sparse_def disc1_def empty_map_def SPR_IMC_BOX_TYPE_def SOCKET_ID_def MAX_BOX_TYPES_def zero_box_def box_pmu_of_def
      bits_def access_type_of_def)

theorem sparse_imcs_fault_witness:
  "\<exists>g h'. init_boxes disc_sparse [0..<2] \<lparr>imcs = replicate MAX_IMC_PMUS None, num_imcs = 0, discovery = Some disc_sparse\<rparr>
      heap_full = Inr (True, g, h') \<and> program_counters mem_bus g (\<lambda>_. 0) = Inl NullDeref"
proof -
  let ?g0 = "\<lparr>imcs = replicate MAX_IMC_PMUS None, num_imcs = 0, discovery = Some disc_sparse\<rparr>"
  have two: "[0..<2] = [0, 1 :: nat]" by (simp add: upt_rec)
  have "\<exists>g h'. init_boxes disc_sparse [0..<2] ?g0 heap_full = Inr (True, g, h') \<and> 0 < num_imcs g"
    by (simp add: two init_box_def sparse_boxes [unfolded One_nat_def] make_register_def mmio_range_create_def mmio_reg32_create_def
        mmio_reg64_create_def kalloc_def heap_full_def uncore_pmu_create_def Let_def MAX_IMC_PMUS_def)
  then obtain g h' where r: "init_boxes disc_sparse [0..<2] ?g0 heap_full = Inr (True, g, h')" "0 < num_imcs g" by blast
  from sparse_imcs_fault [OF sparse_boxes(1) _ r, of mem_bus "\<lambda>_. 0"] r(1) show ?thesis by auto
qed

end
