(* ===== verification/Tsc.thy ===== *)
theory Tsc
  imports Prelude
begin

text \<open>
  Time stamps: \<open>src/src/tsc.h\<close>. The counter and the clocks are hardware and kernel; their
  readings are arguments. The lemmas show when the calibration fails and that, as long as the
  scaled interval fits in 64 bits, it is the exact quotient.
\<close>

section \<open>Operations (tsc.h)\<close>

text \<open>\<open>rdtsc\<close> and \<open>rdtscp\<close> deliver the counter in two halves.\<close>

definition rdtsc_value :: "u32 \<Rightarrow> u32 \<Rightarrow> u64" where
  "rdtsc_value a d = ucast a OR push_bit 32 (ucast d)"

definition rdtscp_value :: "u32 \<Rightarrow> u32 \<Rightarrow> u32 \<Rightarrow> bool \<Rightarrow> u64 \<times> u32 option" where
  "rdtscp_value a d c want_aux = (ucast a OR push_bit 32 (ucast d), if want_aux then Some c else None)"

text \<open>The readings of one calibration: the counter (as halves) and the clock, before and after.\<close>

record tsc_readings =
  start_lo :: u32
  start_hi :: u32
  end_lo :: u32
  end_hi :: u32
  start_time :: u64
  end_time :: u64

text \<open>
  \<open>hrp_calibrate_tsc\<close>: the value returned, and the global \<open>cycles_per_us\<close> afterwards. A
  \<open>ktime_t\<close> is a signed 64-bit count of nanoseconds.
\<close>

definition hrp_calibrate_tsc :: "tsc_readings \<Rightarrow> u64 \<Rightarrow> u64 \<times> u64" where
  "hrp_calibrate_tsc r cycles =
     (let start_tsc = rdtsc_value (start_lo r) (start_hi r);
          end_tsc = fst (rdtscp_value (end_lo r) (end_hi r) 0 False);
          elapsed_tsc = end_tsc - start_tsc;
          elapsed_ns = end_time r - start_time r in
      if sint elapsed_ns \<le> 0 then (0, cycles)
      else (let c = elapsed_tsc * 1000 div elapsed_ns in (c, c)))"

section \<open>Properties\<close>

lemma rdtsc_value_halves: "take_bit 32 (rdtsc_value a d) = ucast a" "drop_bit 32 (rdtsc_value a d) = ucast d"
  unfolding rdtsc_value_def
  by (rule bit_word_eqI; auto simp: bit_simps dest: bit_imp_le_length)+

lemma unat_rdtsc: "unat (rdtsc_value a d) = unat d * 2 ^ 32 + unat a"
proof -
  have "(ucast a :: u64) AND push_bit 32 (ucast d) = 0"
    by (rule bit_word_eqI) (auto simp: bit_simps dest: bit_imp_le_length)
  then have r: "rdtsc_value a d = ucast a + push_bit 32 (ucast d)"
    by (simp add: rdtsc_value_def disjunctive_add_eq_or)
  have a: "unat a < 2 ^ 32" and d: "unat d < 2 ^ 32" using unsigned_less [of a] unsigned_less [of d] by simp_all
  have "unat (push_bit 32 (ucast d) :: u64) = unat d * 2 ^ 32"
    using d by (simp add: push_bit_eq_mult unat_word_ariths unsigned_ucast_eq take_bit_nat_eq_self)
  then show ?thesis
    unfolding r using a d by (simp add: unat_word_ariths unsigned_ucast_eq take_bit_nat_eq_self)
qed

lemma sint_pos: "0 < sint (t :: u64) \<Longrightarrow> nat (sint t) = unat t"
  using sint_lt [of t] uint_sint [of t] by (simp add: take_bit_int_eq_self unat_eq_nat_uint)

lemma unat_scaled: "unat x * 1000 < 2 ^ 64 \<Longrightarrow> unat (x * 1000 div t) = unat x * 1000 div unat (t :: u64)"
  by (simp add: unat_div unat_word_ariths)

text \<open>
  Calibration fails (returns 0 and leaves the stored frequency alone) exactly when the clock
  did not advance; otherwise, as long as a thousand times the elapsed cycles fit in 64 bits, it
  returns and stores the exact number of cycles per microsecond, rounded down. The elapsed cycles
  are the difference of the two counter values modulo \<open>2 ^ 64\<close>, so a wrap-around of the
  counter in between does no harm.
\<close>

theorem calibration_exact:
  "(sint (end_time r - start_time r) \<le> 0 \<longrightarrow> hrp_calibrate_tsc r c0 = (0, c0)) \<and>
   (0 < sint (end_time r - start_time r) \<longrightarrow>
    unat (rdtsc_value (end_lo r) (end_hi r) - rdtsc_value (start_lo r) (start_hi r)) * 1000 < 2 ^ 64 \<longrightarrow>
    (\<exists>c. hrp_calibrate_tsc r c0 = (c, c) \<and>
       unat c = unat (rdtsc_value (end_lo r) (end_hi r) - rdtsc_value (start_lo r) (start_hi r)) * 1000
         div nat (sint (end_time r - start_time r))))"
proof (intro conjI impI)
  assume "sint (end_time r - start_time r) \<le> 0"
  then show "hrp_calibrate_tsc r c0 = (0, c0)" by (simp add: hrp_calibrate_tsc_def Let_def)
next
  let ?e = "rdtsc_value (end_lo r) (end_hi r) - rdtsc_value (start_lo r) (start_hi r)"
  let ?t = "end_time r - start_time r"
  assume t: "0 < sint ?t" and e: "unat ?e * 1000 < 2 ^ 64"
  have "hrp_calibrate_tsc r c0 = (?e * 1000 div ?t, ?e * 1000 div ?t)"
    unfolding hrp_calibrate_tsc_def Let_def rdtscp_value_def fst_conv rdtsc_value_def [symmetric] using t by simp
  then show "\<exists>c. hrp_calibrate_tsc r c0 = (c, c) \<and> unat c = unat ?e * 1000 div nat (sint ?t)"
    using unat_scaled [OF e, of ?t] unfolding sint_pos [OF t] by blast
qed

section \<open>Witnesses\<close>

text \<open>Half a second at 2 GHz, during which the counter passes \<open>2 ^ 32\<close>.\<close>

definition readings1 :: tsc_readings where
  "readings1 = \<lparr>start_lo = 0xFFFFFFFF, start_hi = 0, end_lo = 999999999, end_hi = 1, start_time = 7, end_time = 500000007\<rparr>"

theorem calibration_exact_witness:
  "\<exists>c. hrp_calibrate_tsc readings1 0 = (c, c) \<and> unat c = 2000"
proof -
  have t: "sint (end_time readings1 - start_time readings1) = 500000000" by (simp add: readings1_def)
  have u: "unat (rdtsc_value (end_lo readings1) (end_hi readings1)) = 5294967295"
    "unat (rdtsc_value (start_lo readings1) (start_hi readings1)) = 4294967295"
    by (simp_all add: unat_rdtsc readings1_def)
  then have "unat (rdtsc_value (end_lo readings1) (end_hi readings1) - rdtsc_value (start_lo readings1) (start_hi readings1)) = 1000000000"
    by (subst unat_sub) (simp_all add: word_le_nat_alt)
  with calibration_exact [of readings1 0] t show ?thesis by auto
qed

end
