(* ===== verification/Poller.thy ===== *)
theory Poller
  imports Spsc Intel_Pmc Mbm Uncore_Pmu Tsc
begin

text \<open>
  Polling and logging: the state of \<open>src/src/hrperf.c\<close> and its functions
  \<open>hrperf_poller_func\<close>, \<open>smp_poll_pmus\<close>, \<open>log_for_all_cpus\<close> and the two instructed
  operations. The file-scope variables are one record. What the environment decides during a poll
  (the clock, whether the strict mode's CPU mask can be allocated, whether the CPUs meet their
  deadlines, what uninitialised stack memory holds) is the argument \<open>poll_env\<close>.

  A cross-CPU call runs the function on each target in turn; the functions of different CPUs
  touch different buffers and registers, so the order among them does not matter.
\<close>

section \<open>State\<close>

text \<open>
  A kernel thread: the CPU it is bound to, its task state, whether \<open>kthread_stop\<close> asked it to
  stop, and where it is in its loop (the labels are explained with the loops).
\<close>

datatype task_state = TASK_RUNNING | TASK_INTERRUPTIBLE

datatype pc = Top | Check | Pause | Sched | Recheck | Work | Usleep | Exited

record thread =
  th_cpu :: nat
  th_state :: task_state
  th_stop :: bool
  th_pc :: pc

record ('f, 'd) hrperf =
  instructed_profile :: bool
  instructed_profile_lock :: bool
  instructed_profile_wq :: bool
  N_CPUS :: nat
  N_POLLING_CPUS :: nat
  per_cpu_buffer :: "nat \<Rightarrow> HrperfRingBuffer"
  poller_thread :: "thread option"
  logger_thread :: "thread option"
  log_file :: "'f option"
  hrp_selected_cpus :: "nat list"
  hrperf_running :: bool
  chrdev_region :: bool
  char_dev :: bool
  dev_class :: bool
  device_p :: bool
  cycles_per_us :: u64
  preempt_count :: "nat \<Rightarrow> nat"
  mach :: machine
  g_mbm_mgr :: mbm_manager
  g_uncore_pmus :: uncore_pmus
  imc_dev :: 'd
  heap :: kheap

record ('f, 'd) kernel_env =
  e_bus :: "'d bus"
  e_write :: "'f kernel_write"
  e_close :: "'f \<Rightarrow> 'f"

record poll_env =
  p_tsc :: "u32 \<times> u32"
  p_ktime_raw :: int
  p_ktime_real :: int
  p_mask_alloc :: bool
  p_ready_in_time :: bool
  p_sees_start :: "nat \<Rightarrow> bool"
  p_junk :: "nat \<Rightarrow> HrperfTick"
  p_mbm_junk :: "nat \<Rightarrow> mbm_counter_data"

section \<open>Polling one CPU\<close>

definition preempt_disable :: "nat \<Rightarrow> ('f, 'd) hrperf \<Rightarrow> ('f, 'd) hrperf" where
  "preempt_disable cpu s = s\<lparr>preempt_count := (preempt_count s)(cpu := preempt_count s cpu + 1)\<rparr>"

definition preempt_enable :: "nat \<Rightarrow> ('f, 'd) hrperf \<Rightarrow> ('f, 'd) hrperf" where
  "preempt_enable cpu s = s\<lparr>preempt_count := (preempt_count s)(cpu := preempt_count s cpu - 1)\<rparr>"

text \<open>The counters that every configuration reads.\<close>

definition read_core_counters :: "nat \<Rightarrow> u64 \<Rightarrow> machine \<Rightarrow> HrperfTick \<Rightarrow> HrperfTick" where
  "read_core_counters cpu ts m t =
     t\<lparr>kts := ts, stall_mem := rdmsrl cpu MSR_IA32_PMC2 m, inst_retire := rdmsrl cpu MSR_IA32_FIXED_CTR0 m,
       stalls_sb := rdmsrl cpu MSR_IA32_PMC3 m, cpu_unhalt := rdmsrl cpu MSR_IA32_FIXED_CTR1 m,
       llc_misses := rdmsrl cpu MSR_IA32_PMC0 m, sw_prefetch := rdmsrl cpu MSR_IA32_PMC1 m\<rparr>"

definition read_imc ::
  "hrp_config \<Rightarrow> ('f, 'd) kernel_env \<Rightarrow> nat \<Rightarrow> HrperfTick \<Rightarrow> ('f, 'd) hrperf \<Rightarrow> (HrperfTick \<times> ('f, 'd) hrperf) may" where
  "read_imc cfg ke cpu t s =
     (if HRP_LOG_IMC cfg then
        (if cpu = HRP_IMC_DATA_ASSOCIATED_CORE cfg then
           bindF (freeze_all_counters (e_bus ke) (g_uncore_pmus s) (imc_dev s)) (\<lambda>d.
             bindF (get_imc_reads (e_bus ke) d (g_uncore_pmus s)) (\<lambda>r.
               bindF (get_imc_writes (e_bus ke) d (g_uncore_pmus s)) (\<lambda>w.
                 bindF (unfreeze_all_counters (e_bus ke) (g_uncore_pmus s) d) (\<lambda>d.
                   Inr (t\<lparr>imc_reads := r, imc_writes := w\<rparr>, s\<lparr>imc_dev := d\<rparr>)))))
         else Inr (t\<lparr>imc_reads := 0, imc_writes := 0\<rparr>, s))
      else Inr (t, s))"

definition read_rdt ::
  "hrp_config \<Rightarrow> poll_env \<Rightarrow> nat \<Rightarrow> HrperfTick \<Rightarrow> ('f, 'd) hrperf \<Rightarrow> (HrperfTick \<times> ('f, 'd) hrperf) may" where
  "read_rdt cfg pe cpu t s =
     (if HRP_USE_RDT cfg then
        bindF (mbm_get_rmid_info_for_core (g_mbm_mgr s) (word_of_nat cpu)) (\<lambda>info.
          case info of
            None \<Rightarrow> Inr (t, s)
          | Some i \<Rightarrow>
              bindF (table_get (rmid_mgr (g_mbm_mgr s)) i) (\<lambda>e.
                (let data = (p_mbm_junk pe cpu)\<lparr>cd_status := MBM_COUNTER_READ_SUCCESS, cd_rmid := rmid e\<rparr>;
                     (data, m) = mbm_read_counters cfg cpu data (mach s);
                     s = s\<lparr>mach := m\<rparr> in
                 if cd_status data \<noteq> MBM_COUNTER_READ_SUCCESS then Inr (t, s)
                 else
                   Inr (t\<lparr>total_bw := cd_total_bw data,
                          local_bw := (if HRP_RDT_INCLUDE_LOCAL_BW cfg then cd_local_bw data else local_bw t),
                          occupancy := cd_occupancy data\<rparr>, s))))
      else Inr (t, s))"

definition hrperf_poller_func ::
  "hrp_config \<Rightarrow> ('f, 'd) kernel_env \<Rightarrow> poll_env \<Rightarrow> u64 \<Rightarrow> nat \<Rightarrow> ('f, 'd) hrperf \<Rightarrow> ('f, 'd) hrperf may" where
  "hrperf_poller_func cfg ke pe ts cpu s =
     (let s = (if HRP_STRICT_POLLING_SYNC cfg then preempt_disable cpu s else s) in
      if HRP_STRICT_POLLING_SYNC cfg \<and> \<not> p_sees_start pe cpu then Inr (preempt_enable cpu s)
      else
        (let t = read_core_counters cpu ts (mach s) (p_junk pe cpu) in
         bindF (read_imc cfg ke cpu t s) (\<lambda>(t, s).
           bindF (read_rdt cfg pe cpu t s) (\<lambda>(t, s).
             (let s = (if HRP_STRICT_POLLING_SYNC cfg then preempt_enable cpu s else s) in
              bindF (enqueue cfg (per_cpu_buffer s cpu) \<lparr>cpu_id = word_of_nat cpu, tick = t\<rparr>) (\<lambda>rb.
                Inr (s\<lparr>per_cpu_buffer := (per_cpu_buffer s)(cpu := rb)\<rparr>)))))))"

section \<open>Polling all selected CPUs\<close>

definition poll_timestamp :: "hrp_config \<Rightarrow> poll_env \<Rightarrow> u64" where
  "poll_timestamp cfg pe =
     (if HRP_USE_TSC cfg then rdtsc_value (fst (p_tsc pe)) (snd (p_tsc pe))
      else
        (let ts = (if HRP_USE_RAW_CLOCK cfg then p_ktime_raw pe else p_ktime_real pe) in
         if ts < 0 then 0 else word_of_int ts))"

definition lock_profile :: "hrp_config \<Rightarrow> ('f, 'd) hrperf \<Rightarrow> ('f, 'd) hrperf may" where
  "lock_profile cfg s =
     (if CONCURRENT_INSTRUCTED_PROFILE cfg \<and> instructed_profile s then
        (if instructed_profile_lock s then Inl Deadlock else Inr (s\<lparr>instructed_profile_lock := True\<rparr>))
      else Inr s)"

definition unlock_profile :: "hrp_config \<Rightarrow> ('f, 'd) hrperf \<Rightarrow> ('f, 'd) hrperf" where
  "unlock_profile cfg s =
     (if CONCURRENT_INSTRUCTED_PROFILE cfg \<and> instructed_profile s then s\<lparr>instructed_profile_lock := False\<rparr> else s)"

text \<open>
  \<open>smp_poll_pmus\<close>, run on CPU \<open>cur\<close>. In the strict mode the polling CPU waits until
  \<open>N_POLLING_CPUS\<close> CPUs (the targets of the call, and itself if it polls) have reported ready; if
  the mask cannot be allocated or the wait times out, it returns at once, without enabling
  preemption or releasing the lock, and no CPU sees the start flag. When the polling CPU calls
  the function itself, the start flag is already set.
\<close>

definition smp_poll_pmus ::
  "hrp_config \<Rightarrow> ('f, 'd) kernel_env \<Rightarrow> poll_env \<Rightarrow> nat \<Rightarrow> ('f, 'd) hrperf \<Rightarrow> ('f, 'd) hrperf may" where
  "smp_poll_pmus cfg ke pe cur s =
     bindF (lock_profile cfg s) (\<lambda>s.
       (let ts = poll_timestamp cfg pe; poll = hrperf_poller_func cfg ke pe ts in
        if HRP_STRICT_POLLING_SYNC cfg then
          (let s = preempt_disable cur s in
           if \<not> p_mask_alloc pe then Inr s
           else
             (let polling_cpus = filter (\<lambda>c. HRP_POLL_POLLER_CORE cfg \<or> c \<noteq> HRP_PMC_POLLER_CPU cfg) (hrp_selected_cpus s);
                  targets = smp_targets (mach s) cur polling_cpus;
                  ready = length targets + (if HRP_POLL_POLLER_CORE cfg then 1 else 0) in
              if \<not> (N_POLLING_CPUS s \<le> ready \<and> p_ready_in_time pe) then Inr s
              else
                bindF (foldF poll targets s) (\<lambda>s.
                  bindF (if HRP_POLL_POLLER_CORE cfg
                         then hrperf_poller_func cfg ke (pe\<lparr>p_sees_start := \<lambda>_. True\<rparr>) ts cur s
                         else Inr s) (\<lambda>s.
                    Inr (unlock_profile cfg (preempt_enable cur s))))))
        else
          bindF (foldF poll (smp_targets (mach s) cur (hrp_selected_cpus s)) s) (\<lambda>s.
            bindF (if HRP_POLL_POLLER_CORE cfg then poll cur s else Inr s) (\<lambda>s.
              Inr (unlock_profile cfg s)))))"

section \<open>Logging\<close>

definition log_cpu ::
  "hrp_config \<Rightarrow> ('f, 'd) kernel_env \<Rightarrow> nat \<Rightarrow> ('f, 'd) hrperf \<Rightarrow> ('f, 'd) hrperf may" where
  "log_cpu cfg ke cpu s =
     bindF (log_and_clear cfg (e_write ke) (per_cpu_buffer s cpu) (log_file s)) (\<lambda>(rb, f).
       Inr (s\<lparr>per_cpu_buffer := (per_cpu_buffer s)(cpu := rb), log_file := f\<rparr>))"

definition log_for_all_cpus ::
  "hrp_config \<Rightarrow> ('f, 'd) kernel_env \<Rightarrow> ('f, 'd) hrperf \<Rightarrow> ('f, 'd) hrperf may" where
  "log_for_all_cpus cfg ke s =
     bindF (lock_profile cfg s) (\<lambda>s.
       bindF (foldF (log_cpu cfg ke) (hrp_selected_cpus s) s) (\<lambda>s. Inr (unlock_profile cfg s)))"

definition instructed_poll_op ::
  "hrp_config \<Rightarrow> ('f, 'd) kernel_env \<Rightarrow> poll_env \<Rightarrow> nat \<Rightarrow> ('f, 'd) hrperf \<Rightarrow> ('f, 'd) hrperf may" where
  "instructed_poll_op cfg ke pe cur s = smp_poll_pmus cfg ke pe cur s"

definition instructed_log_op ::
  "hrp_config \<Rightarrow> ('f, 'd) kernel_env \<Rightarrow> ('f, 'd) hrperf \<Rightarrow> ('f, 'd) hrperf may" where
  "instructed_log_op cfg ke s = log_for_all_cpus cfg ke s"

definition instructed_poll_and_log ::
  "hrp_config \<Rightarrow> ('f, 'd) kernel_env \<Rightarrow> poll_env \<Rightarrow> nat \<Rightarrow> ('f, 'd) hrperf \<Rightarrow> ('f, 'd) hrperf may" where
  "instructed_poll_and_log cfg ke pe cur s =
     bindF (instructed_poll_op cfg ke pe cur s) (instructed_log_op cfg ke)"

section \<open>What a poll records\<close>

text \<open>
  The configurations without the strict mode, the IMC counters and RDT; the checked-in one is
  among them.
\<close>

definition plain :: "hrp_config \<Rightarrow> bool" where
  "plain cfg \<longleftrightarrow> \<not> HRP_STRICT_POLLING_SYNC cfg \<and> \<not> HRP_LOG_IMC cfg \<and> \<not> HRP_USE_RDT cfg"

lemma plain_config_h: "plain config_h"
  by (simp add: plain_def config_h_def)

text \<open>
  The entry that a poll is to record for a CPU, written down on its own: the value of the configured
  clock (a negative time counts as 0) and what the six counter registers of this CPU hold, by their
  addresses in the machine. The remaining fields are not compiled in; they keep what the stack held.
\<close>

definition poll_entry :: "hrp_config \<Rightarrow> poll_env \<Rightarrow> machine \<Rightarrow> nat \<Rightarrow> HrperfLogEntry" where
  "poll_entry cfg pe m cpu =
     \<lparr>cpu_id = word_of_nat cpu,
      tick = (p_junk pe cpu)\<lparr>
        kts := (if HRP_USE_TSC cfg then word_of_nat (unat (snd (p_tsc pe)) * 2 ^ 32 + unat (fst (p_tsc pe)))
                else word_of_int (max 0 (if HRP_USE_RAW_CLOCK cfg then p_ktime_raw pe else p_ktime_real pe))),
        llc_misses := msr m cpu 0xc1, sw_prefetch := msr m cpu 0xc2, stall_mem := msr m cpu 0xc3,
        stalls_sb := msr m cpu 0xc4, inst_retire := msr m cpu 0x309, cpu_unhalt := msr m cpu 0x30a\<rparr>\<rparr>"

lemma poll_timestamp_clock:
  "poll_timestamp cfg pe =
     (if HRP_USE_TSC cfg then word_of_nat (unat (snd (p_tsc pe)) * 2 ^ 32 + unat (fst (p_tsc pe)))
      else word_of_int (max 0 (if HRP_USE_RAW_CLOCK cfg then p_ktime_raw pe else p_ktime_real pe)))"
proof -
  have "rdtsc_value a d = word_of_nat (unat d * 2 ^ 32 + unat a)" for a d
    unfolding unat_rdtsc [symmetric] by (simp only: of_nat_unat ucast_id)
  then show ?thesis by (simp add: poll_timestamp_def Let_def max_def)
qed

lemma poll_entry_reads:
  "poll_entry cfg pe m cpu =
     \<lparr>cpu_id = word_of_nat cpu, tick = read_core_counters cpu (poll_timestamp cfg pe) m (p_junk pe cpu)\<rparr>"
  by (simp add: poll_entry_def read_core_counters_def poll_timestamp_clock rdmsrl_def MSR_IA32_QM_CTR_def
      MSR_IA32_PMC0_def MSR_IA32_PMC1_def MSR_IA32_PMC2_def MSR_IA32_PMC3_def MSR_IA32_FIXED_CTR0_def MSR_IA32_FIXED_CTR1_def)

text \<open>A bounded list that drops what does not fit.\<close>

definition push :: "nat \<Rightarrow> 'a list \<Rightarrow> 'a \<Rightarrow> 'a list" where
  "push n xs x = (if length xs < n then xs @ [x] else xs)"

lemma poller_func_plain:
  assumes "plain cfg" and "rb_wf cfg (per_cpu_buffer s cpu)"
  shows "\<exists>rb. hrperf_poller_func cfg ke pe (poll_timestamp cfg pe) cpu s =
      Inr (s\<lparr>per_cpu_buffer := (per_cpu_buffer s)(cpu := rb)\<rparr>) \<and> rb_wf cfg rb \<and>
    rb_list rb = push (rb_cap cfg) (rb_list (per_cpu_buffer s cpu)) (poll_entry cfg pe (mach s) cpu)"
  using ring.enq_spec [OF assms(2), of "poll_entry cfg pe (mach s) cpu"] assms(1)
  by (auto simp: hrperf_poller_func_def plain_def read_imc_def read_rdt_def poll_entry_reads push_def Let_def)

lemma poll_cpus_plain:
  assumes "plain cfg" and "distinct cpus" and "\<And>c. c \<in> set cpus \<Longrightarrow> rb_wf cfg (per_cpu_buffer s c)"
  shows "\<exists>bufs. foldF (hrperf_poller_func cfg ke pe (poll_timestamp cfg pe)) cpus s = Inr (s\<lparr>per_cpu_buffer := bufs\<rparr>) \<and>
    (\<forall>c. if c \<in> set cpus
         then rb_wf cfg (bufs c) \<and>
              rb_list (bufs c) = push (rb_cap cfg) (rb_list (per_cpu_buffer s c)) (poll_entry cfg pe (mach s) c)
         else bufs c = per_cpu_buffer s c)"
  using assms(2,3)
proof (induction cpus arbitrary: s)
  case Nil
  then show ?case by (intro exI [of _ "per_cpu_buffer s"]) simp
next
  case (Cons c cpus)
  obtain rb where rb: "hrperf_poller_func cfg ke pe (poll_timestamp cfg pe) c s =
      Inr (s\<lparr>per_cpu_buffer := (per_cpu_buffer s)(c := rb)\<rparr>)" "rb_wf cfg rb"
    "rb_list rb = push (rb_cap cfg) (rb_list (per_cpu_buffer s c)) (poll_entry cfg pe (mach s) c)"
    using poller_func_plain [OF assms(1), of s c ke pe] Cons.prems(2) by auto
  let ?s = "s\<lparr>per_cpu_buffer := (per_cpu_buffer s)(c := rb)\<rparr>"
  obtain bufs where b: "foldF (hrperf_poller_func cfg ke pe (poll_timestamp cfg pe)) cpus ?s = Inr (?s\<lparr>per_cpu_buffer := bufs\<rparr>)"
    "\<And>d. if d \<in> set cpus
         then rb_wf cfg (bufs d) \<and>
              rb_list (bufs d) = push (rb_cap cfg) (rb_list (per_cpu_buffer ?s d)) (poll_entry cfg pe (mach ?s) d)
         else bufs d = per_cpu_buffer ?s d"
    using Cons.IH [of ?s] Cons.prems by fastforce
  have "if d \<in> set (c # cpus)
         then rb_wf cfg (bufs d) \<and>
              rb_list (bufs d) = push (rb_cap cfg) (rb_list (per_cpu_buffer s d)) (poll_entry cfg pe (mach s) d)
         else bufs d = per_cpu_buffer s d" for d
    using b(2) [of d] rb(2,3) Cons.prems(1) by (cases "d = c") auto
  then show ?case using rb(1) b(1) by (intro exI [of _ bufs]) simp
qed

text \<open>The CPUs a poll on \<open>cur\<close> records, in the modes without strict synchronisation.\<close>

definition polled_cpus :: "hrp_config \<Rightarrow> nat \<Rightarrow> ('f, 'd) hrperf \<Rightarrow> nat list" where
  "polled_cpus cfg cur s =
     smp_targets (mach s) cur (hrp_selected_cpus s) @ (if HRP_POLL_POLLER_CORE cfg then [cur] else [])"

lemma distinct_polled: "distinct (hrp_selected_cpus s) \<Longrightarrow> distinct (polled_cpus cfg cur s)"
  by (auto simp: polled_cpus_def smp_targets_def)

lemma unlock_lock: "\<not> instructed_profile_lock s \<Longrightarrow>
  lock_profile cfg s = Inr (if CONCURRENT_INSTRUCTED_PROFILE cfg \<and> instructed_profile s then s\<lparr>instructed_profile_lock := True\<rparr> else s)"
  by (simp add: lock_profile_def)

lemma smp_poll_plain:
  assumes "plain cfg" and "\<not> instructed_profile_lock s" and "distinct (hrp_selected_cpus s)"
    and "\<And>c. c \<in> set (polled_cpus cfg cur s) \<Longrightarrow> rb_wf cfg (per_cpu_buffer s c)"
  shows "\<exists>bufs. smp_poll_pmus cfg ke pe cur s = Inr (s\<lparr>per_cpu_buffer := bufs\<rparr>) \<and>
    (\<forall>c. if c \<in> set (polled_cpus cfg cur s)
         then rb_wf cfg (bufs c) \<and>
              rb_list (bufs c) = push (rb_cap cfg) (rb_list (per_cpu_buffer s c)) (poll_entry cfg pe (mach s) c)
         else bufs c = per_cpu_buffer s c)"
proof -
  let ?l = "CONCURRENT_INSTRUCTED_PROFILE cfg \<and> instructed_profile s"
  let ?s = "if ?l then s\<lparr>instructed_profile_lock := True\<rparr> else s"
  let ?poll = "hrperf_poller_func cfg ke pe (poll_timestamp cfg pe)"
  have same: "per_cpu_buffer ?s = per_cpu_buffer s" "mach ?s = mach s" "hrp_selected_cpus ?s = hrp_selected_cpus s"
    "instructed_profile ?s = instructed_profile s" by simp_all
  have "distinct (polled_cpus cfg cur s)" using distinct_polled [OF assms(3)] .
  from poll_cpus_plain [OF assms(1) this, of ?s ke pe] assms(4)
  obtain bufs where b: "foldF ?poll (polled_cpus cfg cur s) ?s = Inr (?s\<lparr>per_cpu_buffer := bufs\<rparr>)"
    "\<forall>c. if c \<in> set (polled_cpus cfg cur s)
         then rb_wf cfg (bufs c) \<and>
              rb_list (bufs c) = push (rb_cap cfg) (rb_list (per_cpu_buffer s c)) (poll_entry cfg pe (mach s) c)
         else bufs c = per_cpu_buffer s c"
    unfolding same by blast
  have "bindF (foldF ?poll (smp_targets (mach s) cur (hrp_selected_cpus s)) ?s)
      (\<lambda>x. if HRP_POLL_POLLER_CORE cfg then ?poll cur x else Inr x) = Inr (?s\<lparr>per_cpu_buffer := bufs\<rparr>)"
    using b(1) by (auto simp: polled_cpus_def foldF_append bindF_def split: sum.splits if_splits)
  then have "smp_poll_pmus cfg ke pe cur s = Inr (unlock_profile cfg (?s\<lparr>per_cpu_buffer := bufs\<rparr>))"
    using assms(1) unfolding smp_poll_pmus_def unlock_lock [OF assms(2)]
    by (auto simp: plain_def Let_def bindF_def split: sum.splits if_splits)
  also have "unlock_profile cfg (?s\<lparr>per_cpu_buffer := bufs\<rparr>) = s\<lparr>per_cpu_buffer := bufs\<rparr>"
    using assms(2) by (simp add: unlock_profile_def)
  finally show ?thesis using b(2) by blast
qed

section \<open>What a log pass writes\<close>

definition buffered_bytes :: "hrp_config \<Rightarrow> (nat \<Rightarrow> HrperfRingBuffer) \<Rightarrow> nat list \<Rightarrow> u8 list" where
  "buffered_bytes cfg bufs cpus = concat (map (\<lambda>c. concat (map (entry_bytes cfg) (rb_list (bufs c)))) cpus)"

text \<open>The calls of \<open>kernel_write\<close> of a pass, whatever they return.\<close>

definition pass_chunks :: "(nat \<Rightarrow> HrperfRingBuffer) \<Rightarrow> nat list \<Rightarrow> HrperfLogEntry list list" where
  "pass_chunks bufs cpus = concat (map (\<lambda>c. drain_chunks (bufs c)) cpus)"

lemma pass_chunks_bytes: "concat (map (entry_bytes cfg) (concat (pass_chunks bufs cpus))) = buffered_bytes cfg bufs cpus"
  by (induction cpus) (simp_all add: pass_chunks_def buffered_bytes_def concat_drain_chunks)

lemma log_cpus:
  assumes "distinct cpus" and "\<And>c. c \<in> set cpus \<Longrightarrow> rb_wf cfg (per_cpu_buffer s c)" and "log_file s = Some f"
  shows "\<exists>bufs. foldF (log_cpu cfg ke) cpus s =
      Inr (s\<lparr>per_cpu_buffer := bufs, log_file := Some (writes cfg (e_write ke) (pass_chunks (per_cpu_buffer s) cpus) f)\<rparr>) \<and>
    (\<forall>c. if c \<in> set cpus then rb_wf cfg (bufs c) \<and> rb_list (bufs c) = [] else bufs c = per_cpu_buffer s c)"
  using assms
proof (induction cpus arbitrary: s f)
  case Nil
  then show ?case by (intro exI [of _ "per_cpu_buffer s"]) (simp add: pass_chunks_def writes_def)
next
  case (Cons c cpus)
  let ?rb = "per_cpu_buffer s c"
  have wf: "rb_wf cfg ?rb" using Cons.prems(2) by simp
  let ?rb1 = "?rb\<lparr>head := tail ?rb\<rparr>" and ?f1 = "writes cfg (e_write ke) (drain_chunks ?rb) f"
  let ?s = "s\<lparr>per_cpu_buffer := (per_cpu_buffer s)(c := ?rb1), log_file := Some ?f1\<rparr>"
  have step: "log_cpu cfg ke c s = Inr ?s"
    using log_and_clear_eq [OF wf, of "e_write ke" f] Cons.prems(3) by (simp add: log_cpu_def)
  obtain bufs where b: "foldF (log_cpu cfg ke) cpus ?s =
      Inr (?s\<lparr>per_cpu_buffer := bufs, log_file := Some (writes cfg (e_write ke) (pass_chunks (per_cpu_buffer ?s) cpus) ?f1)\<rparr>)"
    "\<And>d. if d \<in> set cpus then rb_wf cfg (bufs d) \<and> rb_list (bufs d) = [] else bufs d = per_cpu_buffer ?s d"
    using Cons.IH [of ?s ?f1] Cons.prems by fastforce
  have "pass_chunks (per_cpu_buffer ?s) cpus = pass_chunks (per_cpu_buffer s) cpus"
    using Cons.prems(1) by (auto simp: pass_chunks_def intro!: arg_cong [where f = concat])
  then have "writes cfg (e_write ke) (pass_chunks (per_cpu_buffer ?s) cpus) ?f1 =
      writes cfg (e_write ke) (pass_chunks (per_cpu_buffer s) (c # cpus)) f"
    by (simp add: pass_chunks_def writes_append)
  moreover have "if d \<in> set (c # cpus) then rb_wf cfg (bufs d) \<and> rb_list (bufs d) = [] else bufs d = per_cpu_buffer s d" for d
    using b(2) [of d] cleared_rb [OF wf] Cons.prems(1) by (cases "d = c") auto
  ultimately show ?case using step b(1) by (intro exI [of _ bufs]) simp
qed

lemma log_all_writes:
  assumes "\<not> instructed_profile_lock s" and "distinct (hrp_selected_cpus s)"
    and "\<And>c. c \<in> set (hrp_selected_cpus s) \<Longrightarrow> rb_wf cfg (per_cpu_buffer s c)" and "log_file s = Some f"
  shows "\<exists>bufs. log_for_all_cpus cfg ke s = Inr (s\<lparr>per_cpu_buffer := bufs,
      log_file := Some (writes cfg (e_write ke) (pass_chunks (per_cpu_buffer s) (hrp_selected_cpus s)) f)\<rparr>) \<and>
    (\<forall>c. if c \<in> set (hrp_selected_cpus s) then rb_wf cfg (bufs c) \<and> rb_list (bufs c) = []
         else bufs c = per_cpu_buffer s c)"
proof -
  let ?s = "if CONCURRENT_INSTRUCTED_PROFILE cfg \<and> instructed_profile s then s\<lparr>instructed_profile_lock := True\<rparr> else s"
  let ?f = "writes cfg (e_write ke) (pass_chunks (per_cpu_buffer s) (hrp_selected_cpus s)) f"
  have same: "per_cpu_buffer ?s = per_cpu_buffer s" "hrp_selected_cpus ?s = hrp_selected_cpus s" "log_file ?s = log_file s"
    "instructed_profile ?s = instructed_profile s" by simp_all
  from log_cpus [OF assms(2), of cfg ?s f ke] assms(3,4)
  obtain bufs where b: "foldF (log_cpu cfg ke) (hrp_selected_cpus s) ?s = Inr (?s\<lparr>per_cpu_buffer := bufs, log_file := Some ?f\<rparr>)"
    "\<forall>c. if c \<in> set (hrp_selected_cpus s) then rb_wf cfg (bufs c) \<and> rb_list (bufs c) = [] else bufs c = per_cpu_buffer s c"
    unfolding same by blast
  have "log_for_all_cpus cfg ke s = Inr (unlock_profile cfg (?s\<lparr>per_cpu_buffer := bufs, log_file := Some ?f\<rparr>))"
    unfolding log_for_all_cpus_def unlock_lock [OF assms(1)] by (simp only: bindF_simps same b(1))
  also have "unlock_profile cfg (?s\<lparr>per_cpu_buffer := bufs, log_file := Some ?f\<rparr>) = s\<lparr>per_cpu_buffer := bufs, log_file := Some ?f\<rparr>"
    using assms(1) by (simp add: unlock_profile_def)
  finally show ?thesis using b(2) by blast
qed

lemma log_all:
  assumes "appends (e_write ke) contents" and "\<not> instructed_profile_lock s" and "distinct (hrp_selected_cpus s)"
    and "\<And>c. c \<in> set (hrp_selected_cpus s) \<Longrightarrow> rb_wf cfg (per_cpu_buffer s c)" and "log_file s = Some f"
  shows "\<exists>bufs f'. log_for_all_cpus cfg ke s = Inr (s\<lparr>per_cpu_buffer := bufs, log_file := Some f'\<rparr>) \<and>
    contents f' = contents f @ buffered_bytes cfg (per_cpu_buffer s) (hrp_selected_cpus s) \<and>
    (\<forall>c. if c \<in> set (hrp_selected_cpus s) then rb_wf cfg (bufs c) \<and> rb_list (bufs c) = []
         else bufs c = per_cpu_buffer s c)"
proof -
  let ?f = "writes cfg (e_write ke) (pass_chunks (per_cpu_buffer s) (hrp_selected_cpus s)) f"
  have "contents ?f = contents f @ buffered_bytes cfg (per_cpu_buffer s) (hrp_selected_cpus s)"
    using writes_appends [OF assms(1)] pass_chunks_bytes by simp
  then show ?thesis using log_all_writes [OF assms(2-5), of ke] by blast
qed

section \<open>Properties\<close>

text \<open>
  C13. A poll records one entry, with the common time stamp and the six counters of its own CPU, each
  from its register, in the buffer of every selected CPU that is online and is not the polling one (and
  of the polling CPU if so configured), unless that buffer is full; it changes nothing else.
\<close>

theorem poll_records_every_cpu:
  assumes "plain cfg" and "\<not> instructed_profile_lock s" and "distinct (hrp_selected_cpus s)"
    and "\<And>c. c \<in> set (polled_cpus cfg cur s) \<Longrightarrow> rb_wf cfg (per_cpu_buffer s c)"
  shows "\<exists>bufs. smp_poll_pmus cfg ke pe cur s = Inr (s\<lparr>per_cpu_buffer := bufs\<rparr>) \<and>
    (\<forall>c. if c \<in> set (polled_cpus cfg cur s)
         then rb_wf cfg (bufs c) \<and>
              rb_list (bufs c) = push (rb_cap cfg) (rb_list (per_cpu_buffer s c)) (poll_entry cfg pe (mach s) c)
         else bufs c = per_cpu_buffer s c)"
  by (rule smp_poll_plain [OF assms])

text \<open>
  A log pass appends the buffered entries of every selected CPU to the file, CPU by CPU in
  ascending order and oldest first, and leaves these buffers empty and well-formed.
\<close>

theorem log_pass_drains_every_cpu:
  assumes "appends (e_write ke) contents" and "\<not> instructed_profile_lock s" and "distinct (hrp_selected_cpus s)"
    and "\<And>c. c \<in> set (hrp_selected_cpus s) \<Longrightarrow> rb_wf cfg (per_cpu_buffer s c)" and "log_file s = Some f"
  shows "\<exists>bufs f'. log_for_all_cpus cfg ke s = Inr (s\<lparr>per_cpu_buffer := bufs, log_file := Some f'\<rparr>) \<and>
    contents f' = contents f @ buffered_bytes cfg (per_cpu_buffer s) (hrp_selected_cpus s) \<and>
    (\<forall>c. if c \<in> set (hrp_selected_cpus s) then rb_wf cfg (bufs c) \<and> rb_list (bufs c) = []
         else bufs c = per_cpu_buffer s c)"
  by (rule log_all [OF assms])

text \<open>
  The early returns of the strict mode (the mask cannot be allocated, or not all CPUs report
  ready in time) leave preemption disabled and, in concurrent instructed profiling, the lock held:
  no entry is recorded, and every later poll or log pass waits for the lock forever.
\<close>

theorem strict_poll_early_return:
  assumes "HRP_STRICT_POLLING_SYNC cfg" and "CONCURRENT_INSTRUCTED_PROFILE cfg" and "instructed_profile s"
    and "\<not> instructed_profile_lock s" and "\<not> p_mask_alloc pe \<or> \<not> p_ready_in_time pe"
  shows "\<exists>s'. smp_poll_pmus cfg ke pe cur s = Inr s' \<and> per_cpu_buffer s' = per_cpu_buffer s \<and>
    preempt_count s' cur = preempt_count s cur + 1 \<and> instructed_profile_lock s' \<and>
    smp_poll_pmus cfg ke pe' cur' s' = Inl Deadlock \<and> log_for_all_cpus cfg ke s' = Inl Deadlock"
  using assms
  by (auto simp: smp_poll_pmus_def log_for_all_cpus_def lock_profile_def preempt_disable_def Let_def)

text \<open>
  In the strict mode one selected CPU that is offline is enough to stop all recording: the
  number of ready CPUs never reaches the expected number, however long the poll waits, and no
  buffer changes.
\<close>

theorem strict_poll_needs_all_online:
  assumes "HRP_STRICT_POLLING_SYNC cfg" and "\<not> HRP_POLL_POLLER_CORE cfg" and "\<not> instructed_profile_lock s"
    and "N_POLLING_CPUS s = length (filter (\<lambda>c. c \<noteq> HRP_PMC_POLLER_CPU cfg) (hrp_selected_cpus s))"
    and "c \<in> set (hrp_selected_cpus s)" and "c \<noteq> HRP_PMC_POLLER_CPU cfg" and "c \<notin> set (cpu_online (mach s))"
  shows "\<exists>s'. smp_poll_pmus cfg ke pe cur s = Inr s' \<and> per_cpu_buffer s' = per_cpu_buffer s"
proof -
  let ?p = "filter (\<lambda>c. c \<noteq> HRP_PMC_POLLER_CPU cfg) (hrp_selected_cpus s)"
  have "length (smp_targets (mach s) cur ?p) < length ?p"
    unfolding smp_targets_def using assms(5-7) by (intro length_filter_less [of c]) auto
  then show ?thesis
    using assms(1-4)
    by (auto simp: smp_poll_pmus_def lock_profile_def preempt_disable_def Let_def)
qed

text \<open>
  When the polling CPU polls itself but is not among the selected CPUs, its buffer was never
  allocated and recording its entry dereferences NULL.
\<close>

theorem poller_core_unselected_faults:
  assumes "plain cfg" and "HRP_POLL_POLLER_CORE cfg" and "HRP_HEAP_ALLOCATED_RB cfg" and "1 < HRP_PMC_BUFFER_SIZE cfg"
    and "\<not> instructed_profile_lock s" and "distinct (hrp_selected_cpus s)"
    and "\<And>c. c \<in> set (hrp_selected_cpus s) \<Longrightarrow> rb_wf cfg (per_cpu_buffer s c)"
    and "cur \<notin> set (hrp_selected_cpus s)" and "per_cpu_buffer s cur = static_rb cfg"
  shows "smp_poll_pmus cfg ke pe cur s = Inl NullDeref"
proof -
  let ?s = "if CONCURRENT_INSTRUCTED_PROFILE cfg \<and> instructed_profile s then s\<lparr>instructed_profile_lock := True\<rparr> else s"
  let ?targets = "smp_targets (mach s) cur (hrp_selected_cpus s)"
  have "distinct ?targets" "\<And>c. c \<in> set ?targets \<Longrightarrow> rb_wf cfg (per_cpu_buffer ?s c)" "cur \<notin> set ?targets"
    using assms(6-8) by (auto simp: smp_targets_def)
  from poll_cpus_plain [OF assms(1) this(1,2), of ke pe] this(3) assms(9)
  obtain bufs where b: "foldF (hrperf_poller_func cfg ke pe (poll_timestamp cfg pe)) ?targets ?s = Inr (?s\<lparr>per_cpu_buffer := bufs\<rparr>)"
    "bufs cur = static_rb cfg" by (auto split: if_splits)
  have one: "(1 :: u32) mod HRP_PMC_BUFFER_SIZE cfg = 1" using assms(4) by (simp add: word_less_nat_alt word_unat_eq_iff unat_mod)
  have "hrperf_poller_func cfg ke pe (poll_timestamp cfg pe) cur (?s\<lparr>per_cpu_buffer := bufs\<rparr>) = Inl NullDeref"
    using assms(1,3) b(2) one
    by (simp add: hrperf_poller_func_def plain_def read_imc_def read_rdt_def Let_def enqueue_def static_rb_def)
  then show ?thesis
    using b(1) assms(1,2) unfolding smp_poll_pmus_def unlock_lock [OF assms(5)]
    by (auto simp: plain_def Let_def bindF_def split: sum.splits if_splits)
qed

section \<open>Witnesses\<close>

text \<open>A module in instructed mode on three CPUs, with a buffered entry on each.\<close>

definition st3 :: "(u8 list, u64 \<Rightarrow> u32) hrperf" where
  "st3 = \<lparr>instructed_profile = True, instructed_profile_lock = False, instructed_profile_wq = True, N_CPUS = 3,
     N_POLLING_CPUS = 2, per_cpu_buffer = (\<lambda>_. rb4), poller_thread = None, logger_thread = None, log_file = Some [],
     hrp_selected_cpus = [0, 1, 2], hrperf_running = False, chrdev_region = True, char_dev = True, dev_class = True,
     device_p = True, cycles_per_us = 2000, preempt_count = (\<lambda>_. 0), mach = mach3, g_mbm_mgr = mgr0,
     g_uncore_pmus = \<lparr>imcs = [], num_imcs = 0, discovery = None\<rparr>, imc_dev = (\<lambda>_. 0), heap = heap0\<rparr>"

definition ke3 :: "(u8 list, u64 \<Rightarrow> u32) kernel_env" where
  "ke3 = \<lparr>e_bus = mem_bus, e_write = mem_write, e_close = (\<lambda>f. f)\<rparr>"

definition pe3 :: poll_env where
  "pe3 = \<lparr>p_tsc = (7, 1), p_ktime_raw = 5, p_ktime_real = 6, p_mask_alloc = True, p_ready_in_time = True,
     p_sees_start = (\<lambda>_. True), p_junk = (\<lambda>_. tick zero_entry),
     p_mbm_junk = (\<lambda>_. \<lparr>cd_rmid = 0, cd_total_bw = 0, cd_local_bw = 0, cd_occupancy = 0, cd_status = MBM_COUNTER_READ_ERROR\<rparr>)\<rparr>"

lemma rb4_contents: "rb_list rb4 = [zero_entry]" "rb_cap cfg4 = 3"
  by (simp_all add: rb_list_def ring_slice_def rb4_def rb_cap_def cfg4_def config_h_def)

lemma st3_polled: "polled_cpus cfg4 1 st3 = [0, 2]"
  by (simp add: polled_cpus_def smp_targets_def st3_def mach3_def cfg4_def config_h_def)

lemma st3_simps: "hrp_selected_cpus st3 = [0, 1, 2]" "per_cpu_buffer st3 c = rb4" "\<not> instructed_profile_lock st3"
  "instructed_profile st3" "log_file st3 = Some []" "mach st3 = mach3" "N_POLLING_CPUS st3 = 2"
  by (simp_all add: st3_def)

lemma cfg4_simps: "plain cfg4" "\<not> HRP_POLL_POLLER_CORE cfg4" "HRP_PMC_POLLER_CPU cfg4 = 1" "HRP_HEAP_ALLOCATED_RB cfg4"
  "\<not> CONCURRENT_INSTRUCTED_PROFILE cfg4" "HRP_PMC_BUFFER_SIZE cfg4 = 4"
  by (simp_all add: cfg4_def plain_def config_h_def)

lemma ke3_appends: "appends (e_write ke3) (\<lambda>f. f)"
  by (simp add: appends_def mem_write_def ke3_def)

theorem poll_records_every_cpu_witness:
  "\<exists>bufs. smp_poll_pmus cfg4 ke3 pe3 1 st3 = Inr (st3\<lparr>per_cpu_buffer := bufs\<rparr>) \<and>
     rb_list (bufs 0) = [zero_entry, poll_entry cfg4 pe3 mach3 0] \<and> bufs 1 = rb4"
proof -
  have "distinct (hrp_selected_cpus st3)" by (simp add: st3_simps)
  then obtain bufs where b: "smp_poll_pmus cfg4 ke3 pe3 1 st3 = Inr (st3\<lparr>per_cpu_buffer := bufs\<rparr>)"
      "\<forall>c. if c \<in> set [0, 2] then rb_wf cfg4 (bufs c) \<and>
         rb_list (bufs c) = push 3 [zero_entry] (poll_entry cfg4 pe3 mach3 c) else bufs c = rb4"
    using poll_records_every_cpu [where ke = ke3 and pe = pe3 and cur = 1, OF cfg4_simps(1) st3_simps(3)]
    unfolding st3_polled st3_simps rb4_contents using rb4_wf by blast
  show ?thesis using b(1) spec [OF b(2), of 0] spec [OF b(2), of 1] by (intro exI [of _ bufs]) (simp add: push_def)
qed

theorem log_pass_drains_every_cpu_witness:
  "\<exists>bufs f'. log_for_all_cpus cfg4 ke3 st3 = Inr (st3\<lparr>per_cpu_buffer := bufs, log_file := Some f'\<rparr>) \<and>
     f' = buffered_bytes cfg4 (\<lambda>_. rb4) [0, 1, 2] \<and> rb_list (bufs 2) = []"
proof -
  have "distinct (hrp_selected_cpus st3)" "\<And>c. c \<in> set (hrp_selected_cpus st3) \<Longrightarrow> rb_wf cfg4 (per_cpu_buffer st3 c)"
    by (simp_all add: st3_simps rb4_wf)
  from log_pass_drains_every_cpu [OF ke3_appends st3_simps(3) this st3_simps(5)] obtain bufs f'
    where b: "log_for_all_cpus cfg4 ke3 st3 = Inr (st3\<lparr>per_cpu_buffer := bufs, log_file := Some f'\<rparr>)"
      "f' = buffered_bytes cfg4 (per_cpu_buffer st3) [0, 1, 2]" "rb_list (bufs 2) = []"
    by (auto simp: st3_simps)
  moreover have "per_cpu_buffer st3 = (\<lambda>_. rb4)" by (simp add: st3_def)
  ultimately show ?thesis by auto
qed

theorem strict_poll_early_return_witness:
  "\<exists>s'. smp_poll_pmus (cfg4\<lparr>HRP_STRICT_POLLING_SYNC := True, CONCURRENT_INSTRUCTED_PROFILE := True\<rparr>) ke3
      (pe3\<lparr>p_mask_alloc := False\<rparr>) 1 st3 = Inr s' \<and> preempt_count s' 1 = preempt_count st3 1 + 1 \<and> instructed_profile_lock s'"
  using strict_poll_early_return [where cfg = "cfg4\<lparr>HRP_STRICT_POLLING_SYNC := True, CONCURRENT_INSTRUCTED_PROFILE := True\<rparr>"
      and s = st3 and pe = "pe3\<lparr>p_mask_alloc := False\<rparr>" and ke = ke3 and cur = 1]
  by (auto simp: st3_simps)

theorem strict_poll_needs_all_online_witness:
  "\<exists>s'. smp_poll_pmus (cfg4\<lparr>HRP_STRICT_POLLING_SYNC := True\<rparr>) ke3 pe3 1 (st3\<lparr>mach := mach3\<lparr>cpu_online := [0, 1]\<rparr>\<rparr>) = Inr s' \<and>
     per_cpu_buffer s' = (\<lambda>_. rb4)"
  using strict_poll_needs_all_online [where cfg = "cfg4\<lparr>HRP_STRICT_POLLING_SYNC := True\<rparr>" and c = 2
      and s = "st3\<lparr>mach := mach3\<lparr>cpu_online := [0, 1]\<rparr>\<rparr>" and ke = ke3 and pe = pe3 and cur = 1]
  by (simp add: st3_def cfg4_def config_h_def)

theorem poller_core_unselected_faults_witness:
  "smp_poll_pmus (cfg4\<lparr>HRP_POLL_POLLER_CORE := True\<rparr>) ke3 pe3 1
     (st3\<lparr>hrp_selected_cpus := [0, 2], per_cpu_buffer := (\<lambda>_. rb4)(1 := static_rb cfg4)\<rparr>) = Inl NullDeref"
proof (rule poller_core_unselected_faults)
  fix c
  assume "c \<in> set (hrp_selected_cpus (st3\<lparr>hrp_selected_cpus := [0, 2], per_cpu_buffer := (\<lambda>_. rb4)(1 := static_rb cfg4)\<rparr>))"
  then have "c \<noteq> 1" by auto
  moreover have "rb_wf (cfg4\<lparr>HRP_POLL_POLLER_CORE := True\<rparr>) rb4" using rb4_wf by (simp add: rb_wf_def)
  ultimately show "rb_wf (cfg4\<lparr>HRP_POLL_POLLER_CORE := True\<rparr>)
      (per_cpu_buffer (st3\<lparr>hrp_selected_cpus := [0, 2], per_cpu_buffer := (\<lambda>_. rb4)(1 := static_rb cfg4)\<rparr>) c)"
    by simp
qed (simp_all add: st3_def cfg4_def config_h_def plain_def static_rb_def)

end
