(* ===== verification/Threads.thy ===== *)
theory Threads
  imports Poller
begin

text \<open>
  The two kernel threads of \<open>src/src/hrperf.c\<close>, \<open>hrperf_poller_thread\<close> and
  \<open>hrperf_logger_thread\<close>, as small-step functions on the module's state, and the kernel's
  \<open>wake_up_process\<close> and \<open>kthread_stop\<close>, during which the threads go on. The labels of \<open>pc\<close>: \<open>Top\<close> tests
  \<open>kthread_should_stop\<close>, \<open>Check\<close> tests \<open>hrperf_running\<close>, \<open>Pause\<close> is
  \<open>set_current_state(TASK_INTERRUPTIBLE)\<close>, \<open>Sched\<close> is inside \<open>schedule\<close>,
  \<open>Recheck\<close> is the logger's second test, \<open>Work\<close> polls or logs, \<open>Usleep\<close> is
  \<open>usleep_range\<close>. A poll and a log pass are one step each; the \<open>Spsc\<close> theory
  shows that this loses nothing: the ring buffer's operations interleave safely.
\<close>

section \<open>Steps\<close>

definition goto :: "pc \<Rightarrow> thread \<Rightarrow> thread" where
  "goto p t = t\<lparr>th_pc := p\<rparr>"

definition poller_step ::
  "hrp_config \<Rightarrow> ('f, 'd) kernel_env \<Rightarrow> poll_env \<Rightarrow> ('f, 'd) hrperf \<Rightarrow> ('f, 'd) hrperf may" where
  "poller_step cfg ke pe s =
     (case poller_thread s of
        None \<Rightarrow> Inr s
      | Some t \<Rightarrow>
          (let continue = (\<lambda>t'. Inr (s\<lparr>poller_thread := Some t'\<rparr>)) in
           case th_pc t of
             Top \<Rightarrow> continue (goto (if th_stop t then Exited else Check) t)
           | Check \<Rightarrow> continue (goto (if hrperf_running s then Work else Pause) t)
           | Pause \<Rightarrow> continue (goto Sched (t\<lparr>th_state := TASK_INTERRUPTIBLE\<rparr>))
           | Sched \<Rightarrow> (if th_state t = TASK_RUNNING then continue (goto Work t) else Inr s)
           | Work \<Rightarrow>
               bindF (smp_poll_pmus cfg ke pe (th_cpu t) s) (\<lambda>s.
                 Inr (s\<lparr>poller_thread := Some (goto Usleep t)\<rparr>))
           | Usleep \<Rightarrow> continue (goto Top t)
           | _ \<Rightarrow> Inr s))"

definition logger_step ::
  "hrp_config \<Rightarrow> ('f, 'd) kernel_env \<Rightarrow> ('f, 'd) hrperf \<Rightarrow> ('f, 'd) hrperf may" where
  "logger_step cfg ke s =
     (case logger_thread s of
        None \<Rightarrow> Inr s
      | Some t \<Rightarrow>
          (let continue = (\<lambda>t'. Inr (s\<lparr>logger_thread := Some t'\<rparr>)) in
           case th_pc t of
             Top \<Rightarrow> continue (goto (if th_stop t then Exited else Check) t)
           | Check \<Rightarrow> continue (goto (if hrperf_running s then Recheck else Pause) t)
           | Pause \<Rightarrow> continue (goto Sched (t\<lparr>th_state := TASK_INTERRUPTIBLE\<rparr>))
           | Sched \<Rightarrow> (if th_state t = TASK_RUNNING then continue (goto Recheck t) else Inr s)
           | Recheck \<Rightarrow> continue (goto (if th_stop t then Exited else Usleep) t)
           | Usleep \<Rightarrow> continue (goto Work t)
           | Work \<Rightarrow>
               bindF (log_for_all_cpus cfg ke s) (\<lambda>s.
                 Inr (s\<lparr>logger_thread := Some (goto Top t)\<rparr>))
           | Exited \<Rightarrow> Inr s))"

section \<open>Kernel primitives\<close>

definition kthread_run_on :: "nat \<Rightarrow> thread" where
  "kthread_run_on cpu = \<lparr>th_cpu = cpu, th_state = TASK_RUNNING, th_stop = False, th_pc = Top\<rparr>"

definition wake_up_process :: "thread option \<Rightarrow> thread option may" where
  "wake_up_process t = (case t of None \<Rightarrow> Inl NullDeref | Some t \<Rightarrow> Inr (Some (t\<lparr>th_state := TASK_RUNNING\<rparr>)))"

text \<open>
  \<open>kthread_stop\<close> asks the thread to stop, wakes it and waits for it to exit. Meanwhile both threads go
  on, in any order, and the hardware counts: the argument \<open>es\<close> is the sequence of these events until the
  caller runs again. It returns if the thread has exited by then; otherwise it is still waiting, which
  is \<open>Inl Deadlock\<close>. It waits forever if this is the outcome for every sequence.
\<close>

datatype wait_event = W_Poller poll_env | W_Logger | W_Machine machine

definition wait_step ::
  "hrp_config \<Rightarrow> ('f, 'd) kernel_env \<Rightarrow> wait_event \<Rightarrow> ('f, 'd) hrperf \<Rightarrow> ('f, 'd) hrperf may" where
  "wait_step cfg ke e s =
     (case e of
        W_Poller pe \<Rightarrow> poller_step cfg ke pe s
      | W_Logger \<Rightarrow> logger_step cfg ke s
      | W_Machine m \<Rightarrow> Inr (s\<lparr>mach := m\<rparr>))"

definition exited :: "thread option \<Rightarrow> bool" where
  "exited t \<longleftrightarrow> (case t of None \<Rightarrow> True | Some t \<Rightarrow> th_pc t = Exited)"

definition ask_stop :: "thread \<Rightarrow> thread" where
  "ask_stop t = t\<lparr>th_stop := True, th_state := TASK_RUNNING\<rparr>"

definition kthread_stop_logger ::
  "hrp_config \<Rightarrow> ('f, 'd) kernel_env \<Rightarrow> wait_event list \<Rightarrow> ('f, 'd) hrperf \<Rightarrow> ('f, 'd) hrperf may" where
  "kthread_stop_logger cfg ke es s =
     bindF (foldF (wait_step cfg ke) es (s\<lparr>logger_thread := map_option ask_stop (logger_thread s)\<rparr>)) (\<lambda>s.
       if exited (logger_thread s) then Inr s else Inl Deadlock)"

definition kthread_stop_poller ::
  "hrp_config \<Rightarrow> ('f, 'd) kernel_env \<Rightarrow> wait_event list \<Rightarrow> ('f, 'd) hrperf \<Rightarrow> ('f, 'd) hrperf may" where
  "kthread_stop_poller cfg ke es s =
     bindF (foldF (wait_step cfg ke) es (s\<lparr>poller_thread := map_option ask_stop (poller_thread s)\<rparr>)) (\<lambda>s.
       if exited (poller_thread s) then Inr s else Inl Deadlock)"

text \<open>How often each thread moves in such a sequence, and how many polls the poller makes in it.\<close>

definition poller_moves :: "wait_event list \<Rightarrow> nat" where
  "poller_moves es = length (filter (\<lambda>e. case e of W_Poller pe \<Rightarrow> True | _ \<Rightarrow> False) es)"

definition logger_moves :: "wait_event list \<Rightarrow> nat" where
  "logger_moves es = length (filter (\<lambda>e. e = W_Logger) es)"

fun polls_made :: "hrp_config \<Rightarrow> ('f, 'd) kernel_env \<Rightarrow> wait_event list \<Rightarrow> ('f, 'd) hrperf \<Rightarrow> nat" where
  "polls_made cfg ke [] s = 0"
| "polls_made cfg ke (e # es) s =
     (case e of W_Poller pe \<Rightarrow> if map_option th_pc (poller_thread s) = Some Work then 1 else 0 | _ \<Rightarrow> 0) +
     (case wait_step cfg ke e s of Inl _ \<Rightarrow> 0 | Inr s' \<Rightarrow> polls_made cfg ke es s')"

text \<open>
  The window of a thread: it has seen that it need not stop and that monitoring is off, and has not yet
  marked itself sleeping.
\<close>

definition in_window :: "('f, 'd) hrperf \<Rightarrow> thread option \<Rightarrow> bool" where
  "in_window s t \<longleftrightarrow> (case t of None \<Rightarrow> False | Some t \<Rightarrow> th_pc t = Pause \<or> th_pc t = Check \<and> \<not> hrperf_running s)"

section \<open>The work of the threads\<close>

text \<open>What the threads and the commands keep, in the configurations without IMC, RDT and strict mode.\<close>

definition mod_ok :: "hrp_config \<Rightarrow> ('f, 'd) hrperf \<Rightarrow> bool" where
  "mod_ok cfg s \<longleftrightarrow>
     \<not> instructed_profile_lock s \<and> distinct (hrp_selected_cpus s) \<and> set (hrp_selected_cpus s) \<subseteq> {..<256} \<and>
     (\<forall>c \<in> set (hrp_selected_cpus s). rb_wf cfg (per_cpu_buffer s c) \<and>
        (\<forall>e \<in> set (rb_list (per_cpu_buffer s c)). cpu_id e = word_of_nat c)) \<and>
     log_file s \<noteq> None \<and>
     (HRP_POLL_POLLER_CORE cfg \<longrightarrow> HRP_PMC_POLLER_CPU cfg \<in> set (hrp_selected_cpus s)) \<and>
     (\<forall>t. poller_thread s = Some t \<longrightarrow> th_cpu t = HRP_PMC_POLLER_CPU cfg)"

lemma polled_subset:
  "mod_ok cfg s \<Longrightarrow> set (polled_cpus cfg (HRP_PMC_POLLER_CPU cfg) s) \<subseteq> set (hrp_selected_cpus s)"
  by (auto simp: polled_cpus_def smp_targets_def mod_ok_def)

lemma poll_ok:
  assumes "plain cfg" and "mod_ok cfg s"
  shows "\<exists>bufs. smp_poll_pmus cfg ke pe (HRP_PMC_POLLER_CPU cfg) s = Inr (s\<lparr>per_cpu_buffer := bufs\<rparr>) \<and>
    (\<forall>c. if c \<in> set (polled_cpus cfg (HRP_PMC_POLLER_CPU cfg) s)
         then rb_wf cfg (bufs c) \<and>
              rb_list (bufs c) = push (rb_cap cfg) (rb_list (per_cpu_buffer s c)) (poll_entry cfg pe (mach s) c)
         else bufs c = per_cpu_buffer s c)"
  using assms polled_subset [OF assms(2)]
  by (intro smp_poll_plain) (auto simp: mod_ok_def)

lemma log_ok:
  assumes "appends (e_write ke) contents" and "mod_ok cfg s" and "log_file s = Some f"
  shows "\<exists>bufs f'. log_for_all_cpus cfg ke s = Inr (s\<lparr>per_cpu_buffer := bufs, log_file := Some f'\<rparr>) \<and>
    contents f' = contents f @ buffered_bytes cfg (per_cpu_buffer s) (hrp_selected_cpus s) \<and>
    (\<forall>c. if c \<in> set (hrp_selected_cpus s) then rb_wf cfg (bufs c) \<and> rb_list (bufs c) = []
         else bufs c = per_cpu_buffer s c)"
  using assms by (intro log_all) (auto simp: mod_ok_def)

lemma poll_mod_ok:
  assumes "plain cfg" and "mod_ok cfg s"
  shows "\<exists>bufs. smp_poll_pmus cfg ke pe (HRP_PMC_POLLER_CPU cfg) s = Inr (s\<lparr>per_cpu_buffer := bufs\<rparr>) \<and> mod_ok cfg (s\<lparr>per_cpu_buffer := bufs\<rparr>)"
proof -
  obtain bufs where b: "smp_poll_pmus cfg ke pe (HRP_PMC_POLLER_CPU cfg) s = Inr (s\<lparr>per_cpu_buffer := bufs\<rparr>)"
    "\<And>c. if c \<in> set (polled_cpus cfg (HRP_PMC_POLLER_CPU cfg) s)
         then rb_wf cfg (bufs c) \<and>
              rb_list (bufs c) = push (rb_cap cfg) (rb_list (per_cpu_buffer s c)) (poll_entry cfg pe (mach s) c)
         else bufs c = per_cpu_buffer s c"
    using poll_ok [OF assms, of ke pe] by blast
  have "rb_wf cfg (bufs c) \<and> (\<forall>e \<in> set (rb_list (bufs c)). cpu_id e = word_of_nat c)" if "c \<in> set (hrp_selected_cpus s)" for c
    using b(2) [of c] assms(2) that by (auto simp: mod_ok_def push_def poll_entry_def split: if_splits)
  then show ?thesis using assms(2) b(1) by (auto simp: mod_ok_def)
qed

text \<open>A log pass, whatever \<open>kernel_write\<close> returns.\<close>

lemma log_mod_ok:
  assumes "mod_ok cfg s"
  shows "\<exists>bufs f. log_for_all_cpus cfg ke s = Inr (s\<lparr>per_cpu_buffer := bufs, log_file := Some f\<rparr>) \<and>
    mod_ok cfg (s\<lparr>per_cpu_buffer := bufs, log_file := Some f\<rparr>)"
proof -
  obtain f where f: "log_file s = Some f" using assms by (auto simp: mod_ok_def)
  obtain bufs f' where "log_for_all_cpus cfg ke s = Inr (s\<lparr>per_cpu_buffer := bufs, log_file := Some f'\<rparr>)"
    "\<And>c. if c \<in> set (hrp_selected_cpus s) then rb_wf cfg (bufs c) \<and> rb_list (bufs c) = [] else bufs c = per_cpu_buffer s c"
    using log_all_writes [of s cfg f ke] assms f unfolding mod_ok_def by blast
  then show ?thesis using assms by (auto simp: mod_ok_def)
qed

lemma mod_ok_threads [simp]:
  "th_cpu t = HRP_PMC_POLLER_CPU cfg \<Longrightarrow> mod_ok cfg (s\<lparr>poller_thread := Some t\<rparr>) \<longleftrightarrow>
     mod_ok cfg (s\<lparr>poller_thread := None\<rparr>)"
  "mod_ok cfg (s\<lparr>logger_thread := x\<rparr>) \<longleftrightarrow> mod_ok cfg s"
  by (auto simp: mod_ok_def)

lemma mod_ok_no_poller: "mod_ok cfg s \<Longrightarrow> mod_ok cfg (s\<lparr>poller_thread := None\<rparr>)"
  by (auto simp: mod_ok_def)

lemma funpow_back: "(\<forall>n \<ge> k. P ((f ^^ n) (f x))) \<Longrightarrow> \<forall>n \<ge> Suc k. P ((f ^^ n) x)"
  by (metis Suc_le_D Suc_le_mono comp_apply funpow_Suc_right)

lemma funpow_fixpoint: "f x = x \<Longrightarrow> (f ^^ n) x = x"
  by (induction n) simp_all

section \<open>Stopping a thread\<close>

text \<open>Where a thread is after a step depends only on where it was and on whether monitoring is on.\<close>

definition poller_next :: "bool \<Rightarrow> thread \<Rightarrow> thread" where
  "poller_next r t =
     (case th_pc t of
        Top \<Rightarrow> goto (if th_stop t then Exited else Check) t
      | Check \<Rightarrow> goto (if r then Work else Pause) t
      | Pause \<Rightarrow> goto Sched (t\<lparr>th_state := TASK_INTERRUPTIBLE\<rparr>)
      | Sched \<Rightarrow> (if th_state t = TASK_RUNNING then goto Work t else t)
      | Work \<Rightarrow> goto Usleep t
      | Usleep \<Rightarrow> goto Top t
      | _ \<Rightarrow> t)"

definition logger_next :: "bool \<Rightarrow> thread \<Rightarrow> thread" where
  "logger_next r t =
     (case th_pc t of
        Top \<Rightarrow> goto (if th_stop t then Exited else Check) t
      | Check \<Rightarrow> goto (if r then Recheck else Pause) t
      | Pause \<Rightarrow> goto Sched (t\<lparr>th_state := TASK_INTERRUPTIBLE\<rparr>)
      | Sched \<Rightarrow> (if th_state t = TASK_RUNNING then goto Recheck t else t)
      | Recheck \<Rightarrow> goto (if th_stop t then Exited else Usleep) t
      | Usleep \<Rightarrow> goto Work t
      | Work \<Rightarrow> goto Top t
      | Exited \<Rightarrow> t)"

lemma mod_ok_poller:
  "mod_ok cfg s \<Longrightarrow> th_cpu t = HRP_PMC_POLLER_CPU cfg \<Longrightarrow> mod_ok cfg (s\<lparr>poller_thread := Some t\<rparr>)"
  using mod_ok_no_poller by simp

lemma poller_step_next:
  assumes "plain cfg" and "mod_ok cfg s"
  shows "\<exists>s'. poller_step cfg ke pe s = Inr s' \<and> mod_ok cfg s' \<and> hrperf_running s' = hrperf_running s \<and>
    poller_thread s' = map_option (poller_next (hrperf_running s)) (poller_thread s) \<and> logger_thread s' = logger_thread s"
proof (cases "poller_thread s")
  case (Some t)
  have cpu: "th_cpu t = HRP_PMC_POLLER_CPU cfg" using assms(2) Some by (simp add: mod_ok_def)
  have same: "s\<lparr>poller_thread := Some t\<rparr> = s" using Some by simp
  show ?thesis
  proof (cases "th_pc t = Work")
    case True
    then show ?thesis
      using Some cpu poll_mod_ok [OF assms, of ke pe] mod_ok_poller
      by (force simp: poller_step_def poller_next_def goto_def)
  next
    case False
    then show ?thesis
      using Some cpu assms(2) same by (cases "th_pc t") (auto simp: poller_step_def poller_next_def goto_def mod_ok_no_poller)
  qed
qed (use assms in \<open>simp add: poller_step_def\<close>)

lemma logger_step_next:
  assumes "mod_ok cfg s"
  shows "\<exists>s'. logger_step cfg ke s = Inr s' \<and> mod_ok cfg s' \<and> hrperf_running s' = hrperf_running s \<and>
    logger_thread s' = map_option (logger_next (hrperf_running s)) (logger_thread s) \<and> poller_thread s' = poller_thread s"
proof (cases "logger_thread s")
  case (Some t)
  have same: "s\<lparr>logger_thread := Some t\<rparr> = s" using Some by simp
  show ?thesis
  proof (cases "th_pc t = Work")
    case True
    then show ?thesis
      using Some log_mod_ok [OF assms, of ke] by (force simp: logger_step_def logger_next_def goto_def)
  next
    case False
    then show ?thesis
      using Some assms same by (cases "th_pc t") (auto simp: logger_step_def logger_next_def goto_def)
  qed
qed (use assms in \<open>simp add: logger_step_def\<close>)

lemma wait_step_next:
  assumes "plain cfg" and "mod_ok cfg s"
  shows "\<exists>s'. wait_step cfg ke e s = Inr s' \<and> mod_ok cfg s' \<and> hrperf_running s' = hrperf_running s \<and>
    poller_thread s' = map_option (poller_next (hrperf_running s) ^^ poller_moves [e]) (poller_thread s) \<and>
    logger_thread s' = map_option (logger_next (hrperf_running s) ^^ logger_moves [e]) (logger_thread s)"
proof (cases e)
  case (W_Poller pe)
  then show ?thesis using poller_step_next [OF assms, of ke pe]
    by (auto simp: wait_step_def poller_moves_def logger_moves_def option.map_ident id_def comp_def)
next
  case W_Logger
  then show ?thesis using logger_step_next [OF assms(2), of ke]
    by (auto simp: wait_step_def poller_moves_def logger_moves_def option.map_ident id_def comp_def)
next
  case (W_Machine m)
  moreover have "mod_ok cfg (s\<lparr>mach := m\<rparr>)" using assms(2) by (simp add: mod_ok_def)
  ultimately show ?thesis by (simp add: wait_step_def poller_moves_def logger_moves_def option.map_ident id_def comp_def)
qed

lemma moves_Cons:
  "poller_moves (e # es) = poller_moves es + poller_moves [e]" "logger_moves (e # es) = logger_moves es + logger_moves [e]"
  by (simp_all add: poller_moves_def logger_moves_def)

text \<open>While a caller waits, nothing faults, and each thread is where its own moves took it.\<close>

lemma wait_run:
  assumes "plain cfg" and "mod_ok cfg s"
  shows "\<exists>s'. foldF (wait_step cfg ke) es s = Inr s' \<and> mod_ok cfg s' \<and> hrperf_running s' = hrperf_running s \<and>
    poller_thread s' = map_option (poller_next (hrperf_running s) ^^ poller_moves es) (poller_thread s) \<and>
    logger_thread s' = map_option (logger_next (hrperf_running s) ^^ logger_moves es) (logger_thread s)"
  using assms(2)
proof (induction es arbitrary: s)
  case Nil
  then show ?case by (simp add: poller_moves_def logger_moves_def option.map_ident id_def comp_def)
next
  case (Cons e es)
  obtain s1 where 1: "wait_step cfg ke e s = Inr s1" "mod_ok cfg s1" "hrperf_running s1 = hrperf_running s"
    "poller_thread s1 = map_option (poller_next (hrperf_running s) ^^ poller_moves [e]) (poller_thread s)"
    "logger_thread s1 = map_option (logger_next (hrperf_running s) ^^ logger_moves [e]) (logger_thread s)"
    using wait_step_next [OF assms(1) Cons.prems] by blast
  from Cons.IH [OF 1(2)] show ?case
    unfolding foldF.simps 1(1) bindF_simps 1(3-5) option.map_comp moves_Cons [of e es] funpow_add [symmetric] .
qed

text \<open>
  A thread that was asked to stop outside its window exits within four of its own steps; one that was
  asked inside goes to sleep and stays there.
\<close>

lemma funpow_after: "P ((f ^^ k) x) \<Longrightarrow> (\<And>y. P y \<Longrightarrow> P (f y)) \<Longrightarrow> k \<le> n \<Longrightarrow> P ((f ^^ n) x)"
  by (induction n) (auto simp: le_Suc_eq)

definition asleep :: "bool \<Rightarrow> thread \<Rightarrow> bool" where
  "asleep r t \<longleftrightarrow> th_pc t = Pause \<or> th_pc t = Check \<and> \<not> r \<or> th_pc t = Sched \<and> th_state t = TASK_INTERRUPTIBLE"

lemma asleep_next: "asleep r t \<Longrightarrow> asleep r (poller_next r t)" "asleep r t \<Longrightarrow> asleep r (logger_next r t)"
  by (auto simp: asleep_def poller_next_def logger_next_def goto_def)

lemma asleep_forever: "asleep r t \<Longrightarrow> asleep r ((poller_next r ^^ n) t)" "asleep r t \<Longrightarrow> asleep r ((logger_next r ^^ n) t)"
  using funpow_after [where P = "asleep r" and k = 0] asleep_next by auto

lemma asked_asleep: "in_window s (Some t) \<Longrightarrow> asleep (hrperf_running s) (ask_stop t)"
  by (auto simp: in_window_def asleep_def ask_stop_def)

lemma exited_next: "th_pc t = Exited \<Longrightarrow> th_pc (poller_next r t) = Exited" "th_pc t = Exited \<Longrightarrow> th_pc (logger_next r t) = Exited"
  by (simp_all add: poller_next_def logger_next_def)

lemma asked_exits:
  assumes "\<not> in_window s (Some t)"
  shows "th_pc t \<noteq> Recheck \<Longrightarrow> 4 \<le> n \<Longrightarrow> th_pc ((poller_next (hrperf_running s) ^^ n) (ask_stop t)) = Exited"
    and "3 \<le> n \<Longrightarrow> th_pc ((logger_next (hrperf_running s) ^^ n) (ask_stop t)) = Exited"
proof -
  let ?p = "poller_next (hrperf_running s)" and ?l = "logger_next (hrperf_running s)"
  have "th_pc ((?p ^^ 4) (ask_stop t)) = Exited" if "th_pc t \<noteq> Recheck"
    using assms that by (cases "th_pc t") (auto simp: in_window_def ask_stop_def poller_next_def goto_def numeral_eq_Suc)
  then show "th_pc t \<noteq> Recheck \<Longrightarrow> 4 \<le> n \<Longrightarrow> th_pc ((?p ^^ n) (ask_stop t)) = Exited"
    using funpow_after [where P = "\<lambda>t. th_pc t = Exited" and f = ?p] exited_next by blast
  have "th_pc ((?l ^^ 3) (ask_stop t)) = Exited"
    using assms by (cases "th_pc t") (auto simp: in_window_def ask_stop_def logger_next_def goto_def numeral_eq_Suc)
  then show "3 \<le> n \<Longrightarrow> th_pc ((?l ^^ n) (ask_stop t)) = Exited"
    using funpow_after [where P = "\<lambda>t. th_pc t = Exited" and f = ?l] exited_next by blast
qed

text \<open>The two calls, with what they leave unchanged of the other thread.\<close>

lemma stop_poller:
  assumes "plain cfg" and "mod_ok cfg s" and "poller_thread s = Some t" and "th_pc t \<noteq> Recheck"
  shows "if in_window s (Some t) then kthread_stop_poller cfg ke es s = Inl Deadlock
    else 4 \<le> poller_moves es \<longrightarrow> (\<exists>s'. kthread_stop_poller cfg ke es s = Inr s' \<and> exited (poller_thread s') \<and>
      logger_thread s' = map_option (logger_next (hrperf_running s) ^^ logger_moves es) (logger_thread s))"
proof -
  let ?s = "s\<lparr>poller_thread := map_option ask_stop (poller_thread s)\<rparr>"
  have "th_cpu (ask_stop t) = HRP_PMC_POLLER_CPU cfg" using assms(2,3) by (simp add: mod_ok_def ask_stop_def)
  then have ok: "mod_ok cfg ?s" using mod_ok_poller [OF assms(2)] assms(3) by simp
  from wait_run [OF assms(1) ok, of ke es] obtain s' where s': "foldF (wait_step cfg ke) es ?s = Inr s'"
    "poller_thread s' = Some ((poller_next (hrperf_running s) ^^ poller_moves es) (ask_stop t))"
    "logger_thread s' = map_option (logger_next (hrperf_running s) ^^ logger_moves es) (logger_thread s)"
    using assms(3) by auto
  show ?thesis
    using s' asleep_forever(1) [OF asked_asleep, of s t "poller_moves es"] asked_exits(1) [of s t "poller_moves es"] assms(4)
    by (auto simp: kthread_stop_poller_def exited_def asleep_def)
qed

lemma stop_logger:
  assumes "plain cfg" and "mod_ok cfg s" and "logger_thread s = Some t"
  shows "if in_window s (Some t) then kthread_stop_logger cfg ke es s = Inl Deadlock
    else 3 \<le> logger_moves es \<longrightarrow> (\<exists>s'. kthread_stop_logger cfg ke es s = Inr s' \<and> mod_ok cfg s' \<and> exited (logger_thread s') \<and>
      poller_thread s' = map_option (poller_next (hrperf_running s) ^^ poller_moves es) (poller_thread s))"
proof -
  let ?s = "s\<lparr>logger_thread := map_option ask_stop (logger_thread s)\<rparr>"
  from wait_run [OF assms(1), of ?s ke es] obtain s' where s': "foldF (wait_step cfg ke) es ?s = Inr s'" "mod_ok cfg s'"
    "logger_thread s' = Some ((logger_next (hrperf_running s) ^^ logger_moves es) (ask_stop t))"
    "poller_thread s' = map_option (poller_next (hrperf_running s) ^^ poller_moves es) (poller_thread s)"
    using assms(2,3) by auto
  show ?thesis
    using s' asleep_forever(2) [OF asked_asleep, of s t "logger_moves es"] asked_exits(2) [of s t "logger_moves es"]
    by (auto simp: kthread_stop_logger_def exited_def asleep_def)
qed

text \<open>Before it exits, a thread that was asked to stop polls only if it had passed its tests already.\<close>

definition will_poll :: "bool \<Rightarrow> thread \<Rightarrow> bool" where
  "will_poll r t \<longleftrightarrow> th_pc t = Work \<or> th_pc t = Check \<and> r \<or> th_pc t = Sched \<and> th_state t = TASK_RUNNING"

lemma polls_bound:
  assumes "plain cfg" and "mod_ok cfg s" and "poller_thread s = Some t" and "th_stop t"
  shows "polls_made cfg ke es s \<le> (if will_poll (hrperf_running s) t then 1 else 0)"
  using assms(2-4)
proof (induction es arbitrary: s t)
  case (Cons e es)
  obtain s1 where s1: "wait_step cfg ke e s = Inr s1" "mod_ok cfg s1" "hrperf_running s1 = hrperf_running s"
    "poller_thread s1 = Some ((poller_next (hrperf_running s) ^^ poller_moves [e]) t)"
    using wait_step_next [OF assms(1) Cons.prems(1), of ke e] Cons.prems(2) by auto
  show ?case
  proof (cases e)
    case (W_Poller pe)
    then have "poller_thread s1 = Some (poller_next (hrperf_running s) t)" using s1(4) by (simp add: poller_moves_def)
    moreover have "th_stop (poller_next (hrperf_running s) t)" using Cons.prems(3)
      by (cases "th_pc t") (simp_all add: poller_next_def goto_def)
    ultimately have "polls_made cfg ke es s1 \<le> (if will_poll (hrperf_running s) (poller_next (hrperf_running s) t) then 1 else 0)"
      using Cons.IH [OF s1(2)] s1(3) by metis
    then show ?thesis
      using s1(1) W_Poller Cons.prems(2,3) by (cases "th_pc t") (auto simp: will_poll_def poller_next_def goto_def split: if_splits)
  next
    case W_Logger
    then show ?thesis using Cons.IH [OF s1(2), of t] s1 Cons.prems(3) by (simp add: poller_moves_def)
  next
    case (W_Machine m)
    then show ?thesis using Cons.IH [OF s1(2), of t] s1 Cons.prems(3) by (simp add: poller_moves_def)
  qed
qed simp

section \<open>Properties\<close>

text \<open>
  C23. Stopping the poller, with the logger and the hardware going on in any order meanwhile. Unless
  the request comes between the thread's test of its loop condition and its call of \<open>schedule\<close> with
  monitoring paused, \<open>kthread_stop\<close> returns once the thread has made four steps, and the thread polls at
  most once more. In that window the thread puts itself to sleep after the wake-up: it does not poll any
  more, and for every sequence of steps of the two threads \<open>kthread_stop\<close> (and with it the removal of the
  module) is still waiting.
\<close>

theorem kthread_stop_poller_outcome:
  assumes "plain cfg" and "mod_ok cfg s" and "poller_thread s = Some t" and "th_pc t \<noteq> Recheck"
  shows "if th_pc t = Pause \<or> th_pc t = Check \<and> \<not> hrperf_running s
    then \<forall>es. kthread_stop_poller cfg ke es s = Inl Deadlock \<and> polls_made cfg ke es (s\<lparr>poller_thread := Some (ask_stop t)\<rparr>) = 0
    else \<forall>es. polls_made cfg ke es (s\<lparr>poller_thread := Some (ask_stop t)\<rparr>) \<le> 1 \<and>
      (4 \<le> poller_moves es \<longrightarrow> (\<exists>s'. kthread_stop_poller cfg ke es s = Inr s' \<and> exited (poller_thread s')))"
proof -
  let ?s = "s\<lparr>poller_thread := Some (ask_stop t)\<rparr>"
  have "th_cpu (ask_stop t) = HRP_PMC_POLLER_CPU cfg" using assms(2,3) by (simp add: mod_ok_def ask_stop_def)
  then have ok: "mod_ok cfg ?s" using mod_ok_poller [OF assms(2)] by simp
  have "polls_made cfg ke es ?s \<le> (if will_poll (hrperf_running s) (ask_stop t) then 1 else 0)" for es
    using polls_bound [OF assms(1) ok, of "ask_stop t" ke es] by (simp add: ask_stop_def)
  moreover have "\<not> will_poll (hrperf_running s) (ask_stop t)" if "th_pc t = Pause \<or> th_pc t = Check \<and> \<not> hrperf_running s"
    using that by (auto simp: will_poll_def ask_stop_def)
  moreover note stop_poller [OF assms, of ke]
  ultimately show ?thesis by (fastforce simp: in_window_def split: if_splits)
qed

text \<open>
  A paused poller parks: with monitoring off and no request to stop, the thread polls at most
  once more and, six steps later, sleeps in \<open>schedule\<close>.
\<close>

theorem paused_poller_parks:
  assumes "plain cfg" and "mod_ok cfg s" and "poller_thread s = Some t" and "th_pc t \<notin> {Recheck, Exited}"
    and "\<not> hrperf_running s" and "\<not> th_stop t" and "6 \<le> n"
  shows "\<exists>bufs. ((\<lambda>m. bindF m (poller_step cfg ke pe)) ^^ n) (Inr s) =
    Inr (s\<lparr>per_cpu_buffer := bufs, poller_thread := Some (t\<lparr>th_state := TASK_INTERRUPTIBLE, th_pc := Sched\<rparr>)\<rparr>)"
proof -
  let ?f = "\<lambda>m. bindF m (poller_step cfg ke pe)"
  let ?S = "\<lambda>b p st. s\<lparr>per_cpu_buffer := b, poller_thread := Some (t\<lparr>th_state := st, th_pc := p\<rparr>)\<rparr>"
  let ?R = "\<lambda>k x. \<forall>n \<ge> k. \<exists>b. (?f ^^ n) x = Inr (?S b Sched TASK_INTERRUPTIBLE)"
  have cpu: "th_cpu t = HRP_PMC_POLLER_CPU cfg" using assms(2,3) by (simp add: mod_ok_def)
  have up: "?R (Suc k) x" if "?R k (?f x)" for k x
    using funpow_back [of k "\<lambda>y. \<exists>b. y = Inr (?S b Sched TASK_INTERRUPTIBLE)" ?f x] that by blast
  have parked: "?R 0 (Inr (?S b Sched TASK_INTERRUPTIBLE))" for b
    using funpow_fixpoint [of ?f "Inr (?S b Sched TASK_INTERRUPTIBLE)"] by (auto simp: poller_step_def)
  have pause: "?R 1 (Inr (?S b Pause st))" for b st
    using up [of 0 "Inr (?S b Pause st)"] parked [of b] by (simp add: poller_step_def goto_def)
  have check: "?R 2 (Inr (?S b Check st))" for b st
    using up [of 1 "Inr (?S b Check st)"] pause [of st b] assms(5) by (simp add: poller_step_def goto_def)
  have top: "?R 3 (Inr (?S b Top st))" for b st
    using up [of 2 "Inr (?S b Top st)"] check [of st b] assms(6) by (simp add: poller_step_def goto_def)
  have usleep: "?R 4 (Inr (?S b Usleep st))" for b st
    using up [of 3 "Inr (?S b Usleep st)"] top [of st b] by (simp add: poller_step_def goto_def)
  have work: "?R 5 (Inr (?S (per_cpu_buffer s) Work st))" for st
  proof -
    let ?s = "?S (per_cpu_buffer s) Work st"
    have "mod_ok cfg ?s" using mod_ok_no_poller [OF assms(2)] cpu by simp
    then obtain b where "smp_poll_pmus cfg ke pe (HRP_PMC_POLLER_CPU cfg) ?s = Inr (?s\<lparr>per_cpu_buffer := b\<rparr>)"
      using poll_ok [OF assms(1), of ?s ke pe] by blast
    then show ?thesis
      using up [of 4 "Inr ?s"] usleep [of st b] cpu by (simp add: poller_step_def goto_def)
  qed
  have sched: "?R 6 (Inr (?S (per_cpu_buffer s) Sched st))" for st
    using up [of 5 "Inr (?S (per_cpu_buffer s) Sched st)"] work [of st] parked [of "per_cpu_buffer s"]
    by (cases st) (simp_all add: poller_step_def goto_def)
  have now: "s = ?S (per_cpu_buffer s) (th_pc t) (th_state t)" using assms(3) by simp
  have mono: "?R 6 x" if "?R k x" and "k \<le> 6" for k x using that le_trans by blast
  have "?R 6 (Inr (?S (per_cpu_buffer s) (th_pc t) (th_state t)))"
    by (insert assms(4), cases "th_pc t"; simp only: insert_iff simp_thms;
        rule mono [OF top] mono [OF check] mono [OF pause] mono [OF work] mono [OF usleep] mono [OF sched]; simp)
  then show ?thesis using now assms(7) by metis
qed

section \<open>Witnesses\<close>

definition bufs3 :: "nat \<Rightarrow> HrperfRingBuffer" where
  "bufs3 c = rb4\<lparr>slots := replicate 4 (zero_entry\<lparr>cpu_id := word_of_nat c\<rparr>)\<rparr>"

definition st3t :: "pc \<Rightarrow> (u8 list, u64 \<Rightarrow> u32) hrperf" where
  "st3t p = st3\<lparr>per_cpu_buffer := bufs3, poller_thread := Some ((kthread_run_on 1)\<lparr>th_pc := p\<rparr>)\<rparr>"

lemma bufs3_contents: "rb_list (bufs3 c) = [zero_entry\<lparr>cpu_id := word_of_nat c\<rparr>]" "rb_wf cfg4 (bufs3 c)"
  by (simp_all add: rb_list_def ring_slice_def bufs3_def rb4_def rb_wf_def cfg4_def config_h_def)

lemma st3t_ok: "mod_ok cfg4 (st3t p)"
  by (simp add: mod_ok_def st3t_def st3_def cfg4_simps kthread_run_on_def bufs3_contents)

theorem kthread_stop_poller_outcome_witness:
  "kthread_stop_poller cfg4 ke3 (replicate 9 (W_Poller pe3)) (st3t Check) = Inl Deadlock \<and>
   (\<exists>s'. kthread_stop_poller cfg4 ke3 (replicate 5 (W_Poller pe3)) (st3t Sched) = Inr s' \<and> exited (poller_thread s'))"
proof -
  have t: "poller_thread (st3t p) = Some ((kthread_run_on 1)\<lparr>th_pc := p\<rparr>)" "\<not> hrperf_running (st3t p)" for p
    by (simp_all add: st3t_def st3_def)
  have "4 \<le> poller_moves (replicate 5 (W_Poller pe3))" by (simp add: poller_moves_def)
  then show ?thesis
    using kthread_stop_poller_outcome [OF cfg4_simps(1) st3t_ok t(1), of Check ke3]
      kthread_stop_poller_outcome [OF cfg4_simps(1) st3t_ok t(1), of Sched ke3] t(2)
    by auto
qed

theorem paused_poller_parks_witness:
  "\<exists>bufs. ((\<lambda>m. bindF m (poller_step cfg4 ke3 pe3)) ^^ 6) (Inr (st3t Work)) =
     Inr ((st3t Work)\<lparr>per_cpu_buffer := bufs,
       poller_thread := Some ((kthread_run_on 1)\<lparr>th_state := TASK_INTERRUPTIBLE, th_pc := Sched\<rparr>)\<rparr>)"
proof -
  have "poller_thread (st3t Work) = Some ((kthread_run_on 1)\<lparr>th_pc := Work\<rparr>)" by (simp add: st3t_def)
  from paused_poller_parks [OF cfg4_simps(1) st3t_ok this, of 6 ke3 pe3] show ?thesis
    by (simp add: kthread_run_on_def st3t_def st3_def)
qed

end
