(* ===== verification/Hrperf.thy ===== *)
theory Hrperf
  imports Threads
begin

text \<open>
  The module itself (\<open>src/src/hrperf.c\<close>): the commands of the character device, the
  initialisation and the cleanup. What the kernel answers (whether a registration, an allocation
  or a thread creation succeeds, what user memory holds, the clock readings) is an argument.
  \<open>return -1\<close> is \<open>Neg EPERM\<close>, the error that the number 1 stands for.
\<close>

section \<open>Commands\<close>

text \<open>
  \<open>o_copied\<close> is how many bytes \<open>copy_to_user\<close> gets across before it meets memory that cannot be
  written, \<open>o_copy\<close> whether \<open>copy_from_user\<close> succeeds.
\<close>

record ioctl_env =
  o_poll :: poll_env
  o_tsc :: tsc_readings
  o_copied :: nat
  o_copy :: bool
  o_rmid_args :: rmid_set_info_t

text \<open>
  The work item is a per-CPU object, so its address is never NULL and that test of the code never
  fails. \<open>queue_work_on\<close> runs the operation on the polling CPU and \<open>flush_work\<close> waits for it.
\<close>

definition enqueue_instructed_profile_op ::
  "(('f, 'd) hrperf \<Rightarrow> ('f, 'd) hrperf may) \<Rightarrow> ('f, 'd) hrperf \<Rightarrow> (ret \<times> ('f, 'd) hrperf) may" where
  "enqueue_instructed_profile_op func s =
     (if instructed_profile s then
        (if \<not> instructed_profile_wq s then Inr (Neg EFAULT, s)
         else bindF (func s) (\<lambda>s. Inr (Ok0, s)))
      else Inr (Neg EINVAL, s))"

text \<open>
  \<open>copy_to_user\<close> copies all bytes or reports a failure, and may have copied a first part of them then.
\<close>

definition reply :: "nat \<Rightarrow> u8 list \<Rightarrow> ('f, 'd) hrperf \<Rightarrow> (ret \<times> u8 list \<times> ('f, 'd) hrperf) may" where
  "reply n bs s = (if length bs \<le> n then Inr (Ok0, bs, s) else Inr (Neg EFAULT, take n bs, s))"

definition no_reply :: "(ret \<times> ('f, 'd) hrperf) may \<Rightarrow> (ret \<times> u8 list \<times> ('f, 'd) hrperf) may" where
  "no_reply x = bindF x (\<lambda>(r, s). Inr (r, [], s))"

definition hrperf_ioctl ::
  "hrp_config \<Rightarrow> ('f, 'd) kernel_env \<Rightarrow> ioctl_env \<Rightarrow> ioc \<Rightarrow> ('f, 'd) hrperf \<Rightarrow> (ret \<times> u8 list \<times> ('f, 'd) hrperf) may" where
  "hrperf_ioctl cfg ke ie cmd s =
     (if cmd = HRP_PMC_IOC_START then
        (if instructed_profile s then Inr (Neg EINVAL, [], s)
         else if \<not> hrperf_running s then
           (let s = s\<lparr>hrperf_running := True\<rparr> in
            bindF (wake_up_process (poller_thread s)) (\<lambda>p.
              (let s = s\<lparr>poller_thread := p\<rparr> in
               bindF (wake_up_process (logger_thread s)) (\<lambda>l. Inr (Ok0, [], s\<lparr>logger_thread := l\<rparr>)))))
         else Inr (Ok0, [], s))
      else if cmd = HRP_PMC_IOC_PAUSE then
        (if instructed_profile s then Inr (Neg EINVAL, [], s)
         else if hrperf_running s then Inr (Ok0, [], s\<lparr>hrperf_running := False\<rparr>)
         else Inr (Ok0, [], s))
      else if cmd = HRP_PMC_IOC_TSC_FREQ then
        (let s = (if cycles_per_us s = 0 then s\<lparr>cycles_per_us := fst (hrp_calibrate_tsc (o_tsc ie) (cycles_per_us s))\<rparr> else s) in
         if cycles_per_us s = 0 then Inr (Neg EIO, [], s)
         else reply (o_copied ie) (le_bytes 8 (cycles_per_us s)) s)
      else if cmd = HRP_PMC_IOC_INSTRUCTED_POLL then
        no_reply (enqueue_instructed_profile_op (instructed_poll_op cfg ke (o_poll ie) (HRP_PMC_POLLER_CPU cfg)) s)
      else if cmd = HRP_PMC_IOC_INSTRUCTED_LOG then
        no_reply (enqueue_instructed_profile_op (instructed_log_op cfg ke) s)
      else if cmd = HRP_PMC_IOC_INSTRUCTED_POLL_AND_LOG then
        no_reply (enqueue_instructed_profile_op (instructed_poll_and_log cfg ke (o_poll ie) (HRP_PMC_POLLER_CPU cfg)) s)
      else if HRP_USE_RDT cfg \<and> cmd = HRP_PMC_IOC_RDT_SCALE_FACTOR then
        reply (o_copied ie) (le_bytes 4 (mbm_get_scaling_factor (g_mbm_mgr s))) s
      else if HRP_USE_RDT cfg \<and> cmd = HRP_PMC_IOC_RDT_MAX_RMID then
        reply (o_copied ie) (le_bytes 4 (mbm_get_max_rmid (g_mbm_mgr s))) s
      else if HRP_USE_RDT cfg \<and> cmd = HRP_PMC_IOC_RDT_SET_RMID_ON_CORE then
        (if \<not> o_copy ie then Inr (Neg EFAULT, [], s)
         else
           bindF (mbm_set_rmid_for_core (rsi_core_id (o_rmid_args ie)) (rsi_rmid (o_rmid_args ie)) (g_mbm_mgr s) (mach s))
             (\<lambda>(g, m). Inr (Ok0, [], s\<lparr>g_mbm_mgr := g, mach := m\<rparr>)))
      else Inr (Neg ENOTTY, [], s))"

section \<open>Cleanup\<close>

definition deinit_cpu :: "hrp_config \<Rightarrow> nat \<Rightarrow> ('f, 'd) hrperf \<Rightarrow> ('f, 'd) hrperf may" where
  "deinit_cpu cfg cpu s =
     bindF (deinit_ring_buffer cfg (per_cpu_buffer s cpu) (heap s)) (\<lambda>(rb, h).
       Inr (s\<lparr>per_cpu_buffer := (per_cpu_buffer s)(cpu := rb), heap := h\<rparr>))"

text \<open>
  \<open>w\<close> is what the threads do while the cleanup waits for the one and then for the other: the poller
  goes on, and may enter its window, as long as the cleanup waits for the logger.
\<close>

definition cleanup ::
  "hrp_config \<Rightarrow> ('f, 'd) kernel_env \<Rightarrow> wait_event list \<times> wait_event list \<Rightarrow> ('f, 'd) hrperf \<Rightarrow> ('f, 'd) hrperf may" where
  "cleanup cfg ke w s =
     bindF (if logger_thread s \<noteq> None then kthread_stop_logger cfg ke (fst w) s else Inr s) (\<lambda>s.
       bindF (if poller_thread s \<noteq> None then kthread_stop_poller cfg ke (snd w) s else Inr s) (\<lambda>s.
         (let s = (if instructed_profile_wq s then s\<lparr>instructed_profile_wq := False\<rparr> else s) in
          bindF (foldF (deinit_cpu cfg) (hrp_selected_cpus s) s) (\<lambda>s.
            (let s = s\<lparr>log_file := hrperf_close_log_file (e_close ke) (log_file s)\<rparr> in
             bindF (if HRP_LOG_IMC cfg then
                      bindF (destroy_g_uncore_pmus (g_uncore_pmus s) (heap s)) (\<lambda>(g, h).
                        Inr (s\<lparr>g_uncore_pmus := g, heap := h\<rparr>))
                    else Inr s) (\<lambda>s.
               bindF (if HRP_USE_RDT cfg then
                        bindF (mbm_deinit (g_mbm_mgr s) (mach s) (heap s)) (\<lambda>(r, g, m, h).
                          Inr (s\<lparr>g_mbm_mgr := g, mach := m, heap := h\<rparr>))
                      else Inr s) (\<lambda>s.
                 Inr (s\<lparr>device_p := False, dev_class := False, char_dev := False, chrdev_region := False\<rparr>))))))))"

definition hrp_pmc_exit ::
  "hrp_config \<Rightarrow> ('f, 'd) kernel_env \<Rightarrow> wait_event list \<times> wait_event list \<Rightarrow> ('f, 'd) hrperf \<Rightarrow> ('f, 'd) hrperf may" where
  "hrp_pmc_exit cfg ke w s = cleanup cfg ke w s"

section \<open>Initialisation\<close>

text \<open>
  \<open>i_nr_cpus\<close> is the kernel's \<open>NR_CPUS\<close> (the size of a \<open>cpumask_t\<close>), \<open>i_mask_bits\<close> the
  number of bits its mask operations look at; a \<open>None\<close> in the outcome of a creation is success,
  \<open>Some e\<close> the error pointer.
\<close>

record 'f init_env =
  i_cpu :: nat
  i_cpuid :: cpuid_fn
  i_tsc :: tsc_readings
  i_register :: bool
  i_cdev_add :: bool
  i_class :: "errno option"
  i_device :: "errno option"
  i_nr_cpus :: nat
  i_mask_bits :: nat
  i_pci :: "pci_dev list"
  i_nodes :: nat
  i_poller :: "errno option"
  i_filp :: "errno + 'f"
  i_logger :: "errno option"
  i_wq :: bool

type_synonym ('f, 'd) init_step = "('f, 'd) hrperf \<Rightarrow> (ret \<times> ('f, 'd) hrperf) may"

text \<open>The next step runs only if this one did not return an error.\<close>

definition andThen :: "('f, 'd) init_step \<Rightarrow> ('f, 'd) init_step \<Rightarrow> ('f, 'd) init_step" where
  "andThen a b s = bindF (a s) (\<lambda>(r, s). case r of Ok0 \<Rightarrow> b s | Neg e \<Rightarrow> Inr (Neg e, s))"

definition init_mbm :: "hrp_config \<Rightarrow> 'f init_env \<Rightarrow> ('f, 'd) init_step" where
  "init_mbm cfg ie s =
     (if HRP_USE_RDT cfg then
        bindF (mbm_init (i_cpuid ie) (g_mbm_mgr s) (mach s) (heap s)) (\<lambda>(r, g, m, h).
          Inr (if r = Ok0 then Ok0 else Neg EIO, s\<lparr>g_mbm_mgr := g, mach := m, heap := h\<rparr>))
      else Inr (Ok0, s))"

definition init_tsc :: "hrp_config \<Rightarrow> 'f init_env \<Rightarrow> ('f, 'd) init_step" where
  "init_tsc cfg ie s =
     (if HRP_USE_TSC cfg then
        (let (tsc_cycle, c) = hrp_calibrate_tsc (i_tsc ie) (cycles_per_us s) in
         Inr (if tsc_cycle = 0 then Neg EIO else Ok0, s\<lparr>cycles_per_us := c\<rparr>))
      else Inr (Ok0, s))"

definition init_device :: "'f init_env \<Rightarrow> ('f, 'd) init_step" where
  "init_device ie s =
     (if \<not> i_register ie then Inr (Neg EPERM, s)
      else
        (let s = s\<lparr>chrdev_region := True\<rparr> in
         if \<not> i_cdev_add ie then Inr (Neg EPERM, s\<lparr>chrdev_region := False\<rparr>)
         else
           (let s = s\<lparr>char_dev := True\<rparr> in
            case i_class ie of
              Some e \<Rightarrow> Inr (Neg e, s\<lparr>chrdev_region := False, char_dev := False\<rparr>)
            | None \<Rightarrow>
                (let s = s\<lparr>dev_class := True\<rparr> in
                 case i_device ie of
                   Some e \<Rightarrow> Inr (Neg e, s\<lparr>dev_class := False, char_dev := False, chrdev_region := False\<rparr>)
                 | None \<Rightarrow> Inr (Ok0, s\<lparr>device_p := True\<rparr>)))))"

definition init_cpus :: "hrp_config \<Rightarrow> 'f init_env \<Rightarrow> ('f, 'd) init_step" where
  "init_cpus cfg ie s =
     (if (i_nr_cpus ie + 63) div 64 < HRP_PMC_CPU_SELECTION_MASK_BITS div 64 then Inl OutOfBounds
      else
        (let sel = filter (\<lambda>c. c < i_mask_bits ie) (selected_cpus cfg);
             n = length sel;
             polling = (if \<not> HRP_POLL_POLLER_CORE cfg \<and> HRP_PMC_POLLER_CPU cfg \<in> set sel then n - 1 else n);
             s = s\<lparr>hrp_selected_cpus := sel, N_CPUS := n, N_POLLING_CPUS := polling\<rparr> in
         if n = 0 \<or> i_nr_cpus ie < n then Inr (Neg EINVAL, s)
         else if polling = 0 then Inr (Neg EINVAL, s)
         else Inr (Ok0, s)))"

fun init_buffers :: "hrp_config \<Rightarrow> nat list \<Rightarrow> ('f, 'd) init_step" where
  "init_buffers cfg [] s = Inr (Ok0, s)"
| "init_buffers cfg (cpu # cpus) s =
     bindF (init_ring_buffer cfg (per_cpu_buffer s cpu) (heap s)) (\<lambda>(r, rb, h).
       (let s = s\<lparr>per_cpu_buffer := (per_cpu_buffer s)(cpu := rb), heap := h\<rparr> in
        if r \<noteq> Ok0 then Inr (Neg ENOMEM, s) else init_buffers cfg cpus s))"

definition init_counters :: "hrp_config \<Rightarrow> ('f, 'd) kernel_env \<Rightarrow> 'f init_env \<Rightarrow> ('f, 'd) init_step" where
  "init_counters cfg ke ie s =
     (let targets = smp_targets (mach s) (i_cpu ie) (hrp_selected_cpus s);
          m = fold (hrperf_pmc_enable_and_esel cfg) targets (mach s);
          m = (if HRP_POLL_POLLER_CORE cfg then hrperf_pmc_enable_and_esel cfg (i_cpu ie) m else m) in
      bindF (if HRP_LOG_IMC cfg then
               bindF (init_g_uncore_pmus (e_bus ke) (i_pci ie) (i_nodes ie) (g_uncore_pmus s) (imc_dev s) (heap s))
                 (\<lambda>(r, g, d, h). Inr (s\<lparr>g_uncore_pmus := g, imc_dev := d, heap := h\<rparr>))
             else Inr s) (\<lambda>s.
        (let m = (if ENABLE_USER_SPACE_POLLING cfg then
                    (let m = fold enable_rdpmc_in_user_space targets m in
                     if HRP_POLL_POLLER_CORE cfg then hrperf_pmc_enable_and_esel cfg (i_cpu ie) m else m)
                  else m) in
         Inr (Ok0, s\<lparr>mach := m\<rparr>))))"

definition init_poller :: "hrp_config \<Rightarrow> 'f init_env \<Rightarrow> ('f, 'd) init_step" where
  "init_poller cfg ie s =
     (if instructed_profile s then Inr (Ok0, s\<lparr>poller_thread := None\<rparr>)
      else case i_poller ie of
             Some e \<Rightarrow> Inr (Neg e, s)
           | None \<Rightarrow> Inr (Ok0, s\<lparr>poller_thread := Some (kthread_run_on (HRP_PMC_POLLER_CPU cfg))\<rparr>))"

definition init_log :: "hrp_config \<Rightarrow> 'f init_env \<Rightarrow> ('f, 'd) init_step" where
  "init_log cfg ie s = Inr (Ok0, s\<lparr>log_file := hrperf_init_log_file (i_filp ie)\<rparr>)"

definition init_logger :: "hrp_config \<Rightarrow> 'f init_env \<Rightarrow> ('f, 'd) init_step" where
  "init_logger cfg ie s =
     (if instructed_profile s then Inr (Ok0, s\<lparr>logger_thread := None\<rparr>)
      else case i_logger ie of
             Some e \<Rightarrow> Inr (Neg e, s)
           | None \<Rightarrow> Inr (Ok0, s\<lparr>logger_thread := Some (kthread_run_on (HRP_PMC_LOGGER_CPU cfg))\<rparr>))"

definition init_wq :: "'f init_env \<Rightarrow> ('f, 'd) init_step" where
  "init_wq ie s =
     (if instructed_profile s then
        (if i_wq ie then Inr (Ok0, s\<lparr>instructed_profile_wq := True\<rparr>) else Inr (Neg ENOMEM, s))
      else Inr (Ok0, s))"

text \<open>
  \<open>hrp_pmc_init\<close>, step after step. A failed creation leaves an error pointer in the static
  variable of the thread; the module is then not loaded, and the model keeps the old value.
\<close>

definition hrp_pmc_init :: "hrp_config \<Rightarrow> ('f, 'd) kernel_env \<Rightarrow> 'f init_env \<Rightarrow> ('f, 'd) init_step" where
  "hrp_pmc_init cfg ke ie =
     andThen (init_mbm cfg ie) (andThen (init_tsc cfg ie) (andThen (init_device ie)
       (andThen (init_cpus cfg ie) (andThen (\<lambda>s. init_buffers cfg (hrp_selected_cpus s) s)
         (andThen (init_counters cfg ke ie) (andThen (init_poller cfg ie) (andThen (init_log cfg ie)
           (andThen (init_logger cfg ie) (init_wq ie)))))))))"

section \<open>Properties of the commands\<close>

definition instructed_cmds :: "ioc set" where
  "instructed_cmds = {HRP_PMC_IOC_INSTRUCTED_POLL, HRP_PMC_IOC_INSTRUCTED_LOG, HRP_PMC_IOC_INSTRUCTED_POLL_AND_LOG}"

definition rdt_cmds :: "ioc set" where
  "rdt_cmds = {HRP_PMC_IOC_RDT_SCALE_FACTOR, HRP_PMC_IOC_RDT_MAX_RMID, HRP_PMC_IOC_RDT_SET_RMID_ON_CORE}"

definition known_cmds :: "hrp_config \<Rightarrow> ioc set" where
  "known_cmds cfg = {HRP_PMC_IOC_START, HRP_PMC_IOC_PAUSE, HRP_PMC_IOC_TSC_FREQ} \<union> instructed_cmds \<union>
     (if HRP_USE_RDT cfg then rdt_cmds else {})"

lemmas cmd_sets = instructed_cmds_def rdt_cmds_def known_cmds_def

lemma ioctl_unknown: "cmd \<notin> known_cmds cfg \<Longrightarrow> hrperf_ioctl cfg ke ie cmd s = Inr (Neg ENOTTY, [], s)"
  unfolding hrperf_ioctl_def by (simp add: cmd_sets split: if_splits)

lemma ioctl_start_pause_instructed:
  "cmd = HRP_PMC_IOC_START \<or> cmd = HRP_PMC_IOC_PAUSE \<Longrightarrow> instructed_profile s \<Longrightarrow>
     hrperf_ioctl cfg ke ie cmd s = Inr (Neg EINVAL, [], s)"
  unfolding hrperf_ioctl_def by (elim disjE) (simp_all add: ioc_defs)

lemma ioctl_instructed:
  "hrperf_ioctl cfg ke ie HRP_PMC_IOC_INSTRUCTED_POLL s =
     no_reply (enqueue_instructed_profile_op (instructed_poll_op cfg ke (o_poll ie) (HRP_PMC_POLLER_CPU cfg)) s)"
  "hrperf_ioctl cfg ke ie HRP_PMC_IOC_INSTRUCTED_LOG s =
     no_reply (enqueue_instructed_profile_op (instructed_log_op cfg ke) s)"
  "hrperf_ioctl cfg ke ie HRP_PMC_IOC_INSTRUCTED_POLL_AND_LOG s =
     no_reply (enqueue_instructed_profile_op (instructed_poll_and_log cfg ke (o_poll ie) (HRP_PMC_POLLER_CPU cfg)) s)"
  unfolding hrperf_ioctl_def by (simp_all add: ioc_defs)

lemma ioctl_instructed_refused:
  assumes "cmd \<in> instructed_cmds"
  shows "\<not> instructed_profile s \<Longrightarrow> hrperf_ioctl cfg ke ie cmd s = Inr (Neg EINVAL, [], s)"
    and "instructed_profile s \<Longrightarrow> \<not> instructed_profile_wq s \<Longrightarrow> hrperf_ioctl cfg ke ie cmd s = Inr (Neg EFAULT, [], s)"
  using assms by (auto simp: instructed_cmds_def ioctl_instructed enqueue_instructed_profile_op_def no_reply_def)

lemma ioctl_start:
  assumes "\<not> instructed_profile s" and "poller_thread s = Some p" and "logger_thread s = Some l"
  shows "hrperf_ioctl cfg ke ie HRP_PMC_IOC_START s =
    Inr (Ok0, [], if hrperf_running s then s
      else s\<lparr>hrperf_running := True, poller_thread := Some (p\<lparr>th_state := TASK_RUNNING\<rparr>),
             logger_thread := Some (l\<lparr>th_state := TASK_RUNNING\<rparr>)\<rparr>)"
  unfolding hrperf_ioctl_def using assms by (simp add: wake_up_process_def Let_def)

lemma ioctl_pause:
  "\<not> instructed_profile s \<Longrightarrow> hrperf_ioctl cfg ke ie HRP_PMC_IOC_PAUSE s = Inr (Ok0, [], s\<lparr>hrperf_running := False\<rparr>)"
  unfolding hrperf_ioctl_def by (simp add: ioc_defs)

lemma ioctl_tsc:
  "hrperf_ioctl cfg ke ie HRP_PMC_IOC_TSC_FREQ s =
     (let s = (if cycles_per_us s = 0 then s\<lparr>cycles_per_us := fst (hrp_calibrate_tsc (o_tsc ie) (cycles_per_us s))\<rparr> else s) in
      if cycles_per_us s = 0 then Inr (Neg EIO, [], s) else reply (o_copied ie) (le_bytes 8 (cycles_per_us s)) s)"
  unfolding hrperf_ioctl_def by (simp add: ioc_defs)

text \<open>
  C20. The commands that do not fit the mode are refused and change nothing: start and pause in
  instructed mode and the instructed commands outside it with \<open>EINVAL\<close>, the instructed ones
  without a work queue with \<open>EFAULT\<close>, and every other command, the RDT ones included when RDT is not
  compiled in, with \<open>ENOTTY\<close>.
\<close>

theorem ioctl_refusals:
  "(cmd \<notin> known_cmds cfg \<longrightarrow> hrperf_ioctl cfg ke ie cmd s = Inr (Neg ENOTTY, [], s)) \<and>
   (cmd \<in> {HRP_PMC_IOC_START, HRP_PMC_IOC_PAUSE} \<and> instructed_profile s \<longrightarrow>
      hrperf_ioctl cfg ke ie cmd s = Inr (Neg EINVAL, [], s)) \<and>
   (cmd \<in> instructed_cmds \<and> \<not> instructed_profile s \<longrightarrow> hrperf_ioctl cfg ke ie cmd s = Inr (Neg EINVAL, [], s)) \<and>
   (cmd \<in> instructed_cmds \<and> instructed_profile s \<and> \<not> instructed_profile_wq s \<longrightarrow>
      hrperf_ioctl cfg ke ie cmd s = Inr (Neg EFAULT, [], s))"
  by (simp add: ioctl_unknown ioctl_start_pause_instructed ioctl_instructed_refused)

text \<open>A caller that issues a command and stops if it is refused.\<close>

definition issue ::
  "hrp_config \<Rightarrow> ('f, 'd) kernel_env \<Rightarrow> ioctl_env \<Rightarrow> ioc \<Rightarrow> ('f, 'd) hrperf \<Rightarrow> (errno + ('f, 'd) hrperf) may" where
  "issue cfg ke ie cmd s =
     bindF (hrperf_ioctl cfg ke ie cmd s) (\<lambda>(r, out, s'). Inr (case r of Ok0 \<Rightarrow> Inr s' | Neg e \<Rightarrow> Inl e))"

fun issue_all ::
  "hrp_config \<Rightarrow> ('f, 'd) kernel_env \<Rightarrow> ioctl_env \<Rightarrow> ioc list \<Rightarrow> ('f, 'd) hrperf \<Rightarrow> (errno + ('f, 'd) hrperf) may" where
  "issue_all cfg ke ie [] s = Inr (Inr s)"
| "issue_all cfg ke ie (cmd # cmds) s =
     bindF (issue cfg ke ie cmd s) (\<lambda>x. case x of Inl e \<Rightarrow> Inr (Inl e) | Inr s' \<Rightarrow> issue_all cfg ke ie cmds s')"

definition monitoring ::
  "bool \<Rightarrow> task_state \<Rightarrow> task_state \<Rightarrow> thread \<Rightarrow> thread \<Rightarrow> ('f, 'd) hrperf \<Rightarrow> ('f, 'd) hrperf" where
  "monitoring run ps ls p l s =
     s\<lparr>hrperf_running := run, poller_thread := Some (p\<lparr>th_state := ps\<rparr>), logger_thread := Some (l\<lparr>th_state := ls\<rparr>)\<rparr>"

lemma monitoring_again [simp]: "monitoring r ps ls p l (monitoring r' ps' ls' p l s) = monitoring r ps ls p l s"
  by (simp add: monitoring_def)

lemma issue_start_pause:
  assumes "\<not> instructed_profile s" and "cmd = HRP_PMC_IOC_START \<or> cmd = HRP_PMC_IOC_PAUSE"
  shows "\<exists>ps' ls'. issue cfg ke ie cmd (monitoring r ps ls p l s) = Inr (Inr (monitoring (cmd = HRP_PMC_IOC_START) ps' ls' p l s))"
proof (cases "cmd = HRP_PMC_IOC_START")
  case True
  then show ?thesis
    using assms(1)
    by (cases r)
      (auto simp: issue_def monitoring_def
        ioctl_start [where p = "p\<lparr>th_state := ps\<rparr>" and l = "l\<lparr>th_state := ls\<rparr>"])
next
  case False
  then have "cmd = HRP_PMC_IOC_PAUSE" using assms(2) by simp
  then show ?thesis
    using False assms(1)
    by (intro exI [of _ ps] exI [of _ ls]) (simp add: issue_def monitoring_def ioctl_pause)
qed

lemma issue_all_start_pause:
  assumes "\<not> instructed_profile s" and "set cmds \<subseteq> {HRP_PMC_IOC_START, HRP_PMC_IOC_PAUSE}"
  shows "\<exists>ps' ls'. issue_all cfg ke ie cmds (monitoring r ps ls p l s) =
    Inr (Inr (monitoring (if cmds = [] then r else last cmds = HRP_PMC_IOC_START) ps' ls' p l s))"
  using assms(2)
proof (induction cmds arbitrary: r ps ls)
  case Nil
  then show ?case by auto
next
  case (Cons cmd cmds)
  have "cmd = HRP_PMC_IOC_START \<or> cmd = HRP_PMC_IOC_PAUSE" using Cons.prems by simp
  from issue_start_pause [OF assms(1) this] obtain ps' ls' where one: "issue cfg ke ie cmd (monitoring r ps ls p l s) =
      Inr (Inr (monitoring (cmd = HRP_PMC_IOC_START) ps' ls' p l s))"
    by blast
  then show ?case using Cons.IH [of "cmd = HRP_PMC_IOC_START" ps' ls'] Cons.prems by (cases "cmds = []") auto
qed

text \<open>
  C21. Outside the instructed mode every start and pause command succeeds, and after a sequence of
  them monitoring is on exactly when the last one was a start; nothing but the flag and the task
  states of the two threads changes.
\<close>

theorem ioctl_start_pause:
  assumes "\<not> instructed_profile s" and "poller_thread s = Some p" and "logger_thread s = Some l"
    and "set cmds \<subseteq> {HRP_PMC_IOC_START, HRP_PMC_IOC_PAUSE}" and "cmds \<noteq> []"
  shows "\<exists>ps ls. issue_all cfg ke ie cmds s =
    Inr (Inr (s\<lparr>hrperf_running := (last cmds = HRP_PMC_IOC_START),
      poller_thread := Some (p\<lparr>th_state := ps\<rparr>), logger_thread := Some (l\<lparr>th_state := ls\<rparr>)\<rparr>))"
proof -
  have "monitoring (hrperf_running s) (th_state p) (th_state l) p l s = s" using assms(2,3) by (simp add: monitoring_def)
  then show ?thesis
    using issue_all_start_pause [OF assms(1,4), of cfg ke ie "hrperf_running s" "th_state p" "th_state l" p l] assms(5)
    by (simp add: monitoring_def)
qed

text \<open>How many bytes a command hands out by its encoding.\<close>

fun reply_size :: "ioc \<Rightarrow> nat" where
  "reply_size (IOR c n k) = k"
| "reply_size _ = 0"

lemma reply_size_cmds:
  "reply_size HRP_PMC_IOC_START = 0" "reply_size HRP_PMC_IOC_PAUSE = 0" "reply_size HRP_PMC_IOC_TSC_FREQ = 8"
  "reply_size HRP_PMC_IOC_INSTRUCTED_POLL = 0" "reply_size HRP_PMC_IOC_INSTRUCTED_LOG = 0"
  "reply_size HRP_PMC_IOC_INSTRUCTED_POLL_AND_LOG = 0" "reply_size HRP_PMC_IOC_RDT_SCALE_FACTOR = 4"
  "reply_size HRP_PMC_IOC_RDT_MAX_RMID = 4" "reply_size HRP_PMC_IOC_RDT_SET_RMID_ON_CORE = 0"
  by (simp_all add: ioc_defs)

definition typed_reply :: "nat \<Rightarrow> ret \<Rightarrow> u8 list \<Rightarrow> bool" where
  "typed_reply n r out \<longleftrightarrow>
     (case r of Ok0 \<Rightarrow> length out = n | Neg e \<Rightarrow> if e = EFAULT \<and> 0 < n then length out < n else out = [])"

lemma reply_typed: "reply n bs s = Inr (r, out, s') \<Longrightarrow> typed_reply (length bs) r out"
  by (cases bs) (auto simp: reply_def typed_reply_def split: if_splits)

lemma no_reply_typed: "no_reply x = Inr (r, out, s') \<Longrightarrow> out = []"
  by (cases x) (auto simp: no_reply_def split: prod.splits)

text \<open>
  C17. Replies have the type their command declares: for every command, known or not, a successful
  call copies exactly as many bytes to the caller as the encoding of the command says, and no call
  copies more, so that no caller's variable is overrun. A call that fails has copied something only if
  it failed with \<open>EFAULT\<close> in the middle of the copy of a command that has a reply, and then less than all
  of it; with every other error nothing was copied.
\<close>

theorem ioctl_reply_typed:
  assumes "hrperf_ioctl cfg ke ie cmd s = Inr (r, out, s')"
  shows "length out \<le> reply_size cmd \<and> (r = Ok0 \<longrightarrow> length out = reply_size cmd) \<and>
    (r \<noteq> Ok0 \<and> out \<noteq> [] \<longrightarrow> r = Neg EFAULT \<and> length out < reply_size cmd)"
proof -
  have no: "typed_reply n e []" if "e \<noteq> Ok0 \<or> n = 0" for n e using that by (cases e) (auto simp: typed_reply_def)
  have "typed_reply (reply_size cmd) r out"
    using assms unfolding hrperf_ioctl_def
    by (auto simp: Let_def reply_size_cmds bindF_def no split: if_splits sum.splits prod.splits dest!: reply_typed no_reply_typed)
  then show ?thesis by (cases r) (auto simp: typed_reply_def split: if_splits)
qed

text \<open>
  Asking for the TSC frequency calibrates at most once and answers the same eight bytes ever
  after; a failed calibration is reported as \<open>EIO\<close> and may be tried again.
\<close>

theorem ioctl_tsc_freq:
  assumes "hrperf_ioctl cfg ke ie HRP_PMC_IOC_TSC_FREQ s = Inr (Ok0, out, s')"
  shows "length out = 8 \<and> le_word out = cycles_per_us s' \<and> cycles_per_us s' \<noteq> 0 \<and>
    (cycles_per_us s \<noteq> 0 \<longrightarrow> s' = s) \<and>
    hrperf_ioctl cfg ke ie' HRP_PMC_IOC_TSC_FREQ s' =
      (if 8 \<le> o_copied ie' then Inr (Ok0, out, s') else Inr (Neg EFAULT, take (o_copied ie') out, s'))"
  using assms by (auto simp: ioctl_tsc reply_def Let_def le_word_le_bytes_id split: if_splits)

text \<open>
  C24. The lost wake-up: if the start command arrives after the poller has seen monitoring off and
  before it has marked itself sleeping, the wake-up has no effect; the thread then sleeps although
  monitoring is on, and neither its own steps nor further start commands change that.
\<close>

theorem start_can_be_lost:
  assumes "\<not> instructed_profile s" and "\<not> hrperf_running s" and "poller_thread s = Some p" and "th_pc p = Pause"
    and "logger_thread s = Some l"
  shows "\<exists>s1 s2. hrperf_ioctl cfg ke ie HRP_PMC_IOC_START s = Inr (Ok0, [], s1) \<and> poller_step cfg ke pe s1 = Inr s2 \<and>
    hrperf_running s2 \<and> poller_step cfg ke pe' s2 = Inr s2 \<and>
    hrperf_ioctl cfg ke ie' HRP_PMC_IOC_START s2 = Inr (Ok0, [], s2)"
  using assms by (simp add: ioctl_start [OF assms(1,3,5)] ioctl_start poller_step_def goto_def Let_def)

section \<open>Who owns the memory\<close>

text \<open>
  The buffers of the CPUs \<open>cpus\<close> own their allocations, apart from each other and from the
  allocations \<open>L\<close> of everybody else.
\<close>

definition owns :: "hrp_config \<Rightarrow> nat list \<Rightarrow> (nat \<Rightarrow> HrperfRingBuffer) \<Rightarrow> (kres \<times> nat) set \<Rightarrow> kheap \<Rightarrow> bool" where
  "owns cfg cpus bufs L h \<longleftrightarrow>
     heap_wf h \<and> live h = L \<union> (\<Union>c \<in> set cpus. rb_res cfg (bufs c)) \<and>
     (\<forall>c \<in> set cpus. pages_wf (bufs c) \<and> L \<inter> rb_res cfg (bufs c) = {}) \<and>
     (\<forall>c \<in> set cpus. \<forall>d \<in> set cpus. c \<noteq> d \<longrightarrow> rb_res cfg (bufs c) \<inter> rb_res cfg (bufs d) = {})"

lemma owns_Cons:
  assumes "owns cfg cpus bufs (L \<union> rb_res cfg (bufs c)) h" and "pages_wf (bufs c)" and "L \<inter> rb_res cfg (bufs c) = {}"
  shows "owns cfg (c # cpus) bufs L h"
  using assms unfolding owns_def by auto

lemma Un_diff_middle: "A \<inter> R = {} \<Longrightarrow> L \<inter> R = {} \<Longrightarrow> L \<union> R \<union> A - R = L \<union> A"
  by blast

lemma owns_cong: "owns cfg cpus bufs L h \<Longrightarrow> (\<And>d. d \<in> set cpus \<Longrightarrow> bufs' d = bufs d) \<Longrightarrow> owns cfg cpus bufs' L h"
  by (simp add: owns_def)

lemma owns_tl:
  assumes "owns cfg (c # cpus) bufs L h" and "c \<notin> set cpus" and "heap_wf h'" and "live h' = live h - rb_res cfg (bufs c)"
    and "\<And>d. d \<in> set cpus \<Longrightarrow> bufs' d = bufs d"
  shows "owns cfg cpus bufs' L h'"
proof -
  have "live h' = L \<union> (\<Union>d \<in> set cpus. rb_res cfg (bufs d))"
  proof -
    have "rb_res cfg (bufs d) \<inter> rb_res cfg (bufs c) = {}" if "d \<in> set cpus" for d
      using assms(1,2) that unfolding owns_def by (metis list.set_intros)
    then have "(\<Union>d \<in> set cpus. rb_res cfg (bufs d)) \<inter> rb_res cfg (bufs c) = {}" by blast
    moreover have "L \<inter> rb_res cfg (bufs c) = {}" using assms(1) unfolding owns_def by (metis list.set_intros(1))
    moreover have "live h = L \<union> rb_res cfg (bufs c) \<union> (\<Union>d \<in> set cpus. rb_res cfg (bufs d))"
      using assms(1) unfolding owns_def by (simp add: Un_assoc)
    ultimately show ?thesis using assms(4) Un_diff_middle by metis
  qed
  moreover have "\<forall>d \<in> set cpus. pages_wf (bufs d) \<and> L \<inter> rb_res cfg (bufs d) = {}"
    "\<forall>d \<in> set cpus. \<forall>e \<in> set cpus. d \<noteq> e \<longrightarrow> rb_res cfg (bufs d) \<inter> rb_res cfg (bufs e) = {}"
    using assms(1) unfolding owns_def by (meson list.set_intros(2))+
  ultimately have "owns cfg cpus bufs L h'" using assms(3) unfolding owns_def by blast
  then show ?thesis using owns_cong assms(5) by blast
qed

lemma init_buffers_spec:
  assumes "0 < HRP_PMC_BUFFER_SIZE cfg" and "HRP_HEAP_ALLOCATED_RB cfg" and "distinct cpus"
    and "heap_wf (heap s)" and "\<And>c. c \<in> set cpus \<Longrightarrow> pages (per_cpu_buffer s c) = None"
  shows "\<exists>r bufs h. init_buffers cfg cpus s = Inr (r, s\<lparr>per_cpu_buffer := bufs, heap := h\<rparr>) \<and>
    (r = Ok0 \<and> owns cfg cpus bufs (live (heap s)) h \<and> (\<forall>c \<in> set cpus. rb_wf cfg (bufs c) \<and> rb_list (bufs c) = []) \<or>
     r = Neg ENOMEM \<and> heap_wf h \<and> live (heap s) \<subseteq> live h) \<and>
    (\<forall>c. c \<notin> set cpus \<longrightarrow> bufs c = per_cpu_buffer s c)"
  using assms(3-5)
proof (induction cpus arbitrary: s)
  case Nil
  then show ?case by (intro exI [of _ Ok0] exI [of _ "per_cpu_buffer s"] exI [of _ "heap s"]) (simp add: owns_def)
next
  case (Cons c cpus)
  obtain r rb h where i: "init_ring_buffer cfg (per_cpu_buffer s c) (heap s) = Inr (r, rb, h)" "init_post cfg (heap s) (r, rb, h)"
    using init_ring_buffer_spec [OF Cons.prems(2) assms(1,2), of "per_cpu_buffer s c"] Cons.prems(3) by auto
  let ?s = "s\<lparr>per_cpu_buffer := (per_cpu_buffer s)(c := rb), heap := h\<rparr>"
  show ?case
  proof (cases "r = Ok0")
    case False
    then have "r = Neg ENOMEM" "heap_wf h" "live h = live (heap s)" using i(2) by (auto simp: init_post_def)
    then show ?thesis using i(1)
      by (intro exI [of _ "Neg ENOMEM"] exI [of _ "(per_cpu_buffer s)(c := rb)"] exI [of _ h]) (simp add: fun_upd_def)
  next
    case True
    then have post: "heap_wf h" "rb_wf cfg rb" "rb_list rb = []" "pages_wf rb" "live h = live (heap s) \<union> rb_res cfg rb"
      "live (heap s) \<inter> rb_res cfg rb = {}"
      using i(2) by (auto simp: init_post_def)
    have "distinct cpus" "heap_wf (heap ?s)" "\<And>d. d \<in> set cpus \<Longrightarrow> pages (per_cpu_buffer ?s d) = None"
      using Cons.prems post(1) by auto
    from Cons.IH [OF this] obtain r' bufs h' where b: "init_buffers cfg cpus ?s = Inr (r', ?s\<lparr>per_cpu_buffer := bufs, heap := h'\<rparr>)"
      "r' = Ok0 \<and> owns cfg cpus bufs (live h) h' \<and> (\<forall>c \<in> set cpus. rb_wf cfg (bufs c) \<and> rb_list (bufs c) = []) \<or>
         r' = Neg ENOMEM \<and> heap_wf h' \<and> live h \<subseteq> live h'"
      "\<forall>d. d \<notin> set cpus \<longrightarrow> bufs d = per_cpu_buffer ?s d"
      by auto
    have c: "bufs c = rb" using b(3) Cons.prems(1) by simp
    have "r' = Ok0 \<Longrightarrow> owns cfg (c # cpus) bufs (live (heap s)) h'"
      using b(2) post owns_Cons [of cfg cpus bufs "live (heap s)" c h'] by (auto simp: c)
    then show ?thesis
      using i(1) b True post c by (intro exI [of _ r'] exI [of _ bufs] exI [of _ h']) auto
  qed
qed

lemma deinit_cpus:
  assumes "HRP_HEAP_ALLOCATED_RB cfg" and "distinct cpus" and "owns cfg cpus (per_cpu_buffer s) L (heap s)"
  shows "\<exists>bufs h. foldF (deinit_cpu cfg) cpus s = Inr (s\<lparr>per_cpu_buffer := bufs, heap := h\<rparr>) \<and> live h = L \<and> heap_wf h"
  using assms(2,3)
proof (induction cpus arbitrary: s)
  case Nil
  then show ?case by (intro exI [of _ "per_cpu_buffer s"] exI [of _ "heap s"]) (simp add: owns_def)
next
  case (Cons c cpus)
  have own: "heap_wf (heap s)" "pages_wf (per_cpu_buffer s c)" "rb_res cfg (per_cpu_buffer s c) \<subseteq> live (heap s)"
    using Cons.prems(2) unfolding owns_def by auto
  obtain rb h where d: "deinit_ring_buffer cfg (per_cpu_buffer s c) (heap s) = Inr (rb, h)" "heap_wf h"
    "live h = live (heap s) - rb_res cfg (per_cpu_buffer s c)"
    using deinit_spec [OF assms(1) own] by auto
  let ?s = "s\<lparr>per_cpu_buffer := (per_cpu_buffer s)(c := rb), heap := h\<rparr>"
  have c: "c \<notin> set cpus" using Cons.prems(1) by simp
  then have "((per_cpu_buffer s)(c := rb)) d = per_cpu_buffer s d" if "d \<in> set cpus" for d using that by auto
  from owns_tl [OF Cons.prems(2) c d(2,3) this] have "owns cfg cpus (per_cpu_buffer ?s) L (heap ?s)" by (simp add: fun_upd_def)
  then obtain bufs h' where "foldF (deinit_cpu cfg) cpus ?s = Inr (?s\<lparr>per_cpu_buffer := bufs, heap := h'\<rparr>)" "live h' = L" "heap_wf h'"
    using Cons.IH [of ?s] Cons.prems(1) by (metis distinct.simps(2))
  moreover have "deinit_cpu cfg c s = Inr ?s" using d(1) by (simp add: deinit_cpu_def)
  ultimately show ?case by (intro exI [of _ bufs] exI [of _ h']) simp
qed

section \<open>Witnesses\<close>

definition st3m :: "pc \<Rightarrow> (u8 list, u64 \<Rightarrow> u32) hrperf" where
  "st3m p = (st3t p)\<lparr>instructed_profile := False, logger_thread := Some (kthread_run_on 0)\<rparr>"

definition ie3 :: ioctl_env where
  "ie3 = \<lparr>o_poll = pe3, o_tsc = \<lparr>start_lo = 0, start_hi = 0, end_lo = 0, end_hi = 0, start_time = 0, end_time = 0\<rparr>,
     o_copied = 8, o_copy = True, o_rmid_args = \<lparr>rsi_rmid = 1, rsi_core_id = 0\<rparr>\<rparr>"

lemma st3m_simps: "\<not> instructed_profile (st3m p)" "poller_thread (st3m p) = Some ((kthread_run_on 1)\<lparr>th_pc := p\<rparr>)"
  "logger_thread (st3m p) = Some (kthread_run_on 0)" "\<not> hrperf_running (st3m p)"
  by (simp_all add: st3m_def st3t_def st3_def)

theorem ioctl_refusals_witness:
  "hrperf_ioctl cfg4 ke3 ie3 HRP_PMC_IOC_START st3 = Inr (Neg EINVAL, [], st3) \<and>
   hrperf_ioctl cfg4 ke3 ie3 HRP_PMC_IOC_INSTRUCTED_LOG (st3m Top) = Inr (Neg EINVAL, [], st3m Top) \<and>
   hrperf_ioctl cfg4 ke3 ie3 HRP_PMC_IOC_RDT_MAX_RMID st3 = Inr (Neg ENOTTY, [], st3)"
proof -
  have "HRP_PMC_IOC_RDT_MAX_RMID \<notin> known_cmds cfg4" by (simp add: cmd_sets ioc_defs cfg4_def config_h_def)
  moreover have "HRP_PMC_IOC_INSTRUCTED_LOG \<in> instructed_cmds" by (simp add: instructed_cmds_def)
  ultimately show ?thesis
    using ioctl_refusals [of HRP_PMC_IOC_START cfg4 ke3 ie3 st3] ioctl_refusals [of HRP_PMC_IOC_INSTRUCTED_LOG cfg4 ke3 ie3 "st3m Top"]
      ioctl_refusals [of HRP_PMC_IOC_RDT_MAX_RMID cfg4 ke3 ie3 st3] st3m_simps(1) st3_simps(4) by blast
qed

theorem ioctl_start_pause_witness:
  "\<exists>ps ls. issue_all cfg4 ke3 ie3 [HRP_PMC_IOC_START, HRP_PMC_IOC_START, HRP_PMC_IOC_PAUSE, HRP_PMC_IOC_START] (st3m Sched) =
     Inr (Inr ((st3m Sched)\<lparr>hrperf_running := True,
       poller_thread := Some (((kthread_run_on 1)\<lparr>th_pc := Sched\<rparr>)\<lparr>th_state := ps\<rparr>),
       logger_thread := Some ((kthread_run_on 0)\<lparr>th_state := ls\<rparr>)\<rparr>))"
  using ioctl_start_pause [OF st3m_simps(1,2,3),
      of "[HRP_PMC_IOC_START, HRP_PMC_IOC_START, HRP_PMC_IOC_PAUSE, HRP_PMC_IOC_START]" cfg4 ke3 ie3] by simp

theorem ioctl_reply_typed_witness:
  "\<exists>out. hrperf_ioctl cfg4 ke3 ie3 HRP_PMC_IOC_TSC_FREQ st3 = Inr (Ok0, out, st3) \<and> length out = 8"
proof -
  have i: "hrperf_ioctl cfg4 ke3 ie3 HRP_PMC_IOC_TSC_FREQ st3 = Inr (Ok0, le_bytes 8 (2000 :: u64), st3)"
    by (simp add: ioctl_tsc reply_def ie3_def st3_def Let_def)
  show ?thesis using ioctl_reply_typed [OF i] i by (auto simp: reply_size_cmds)
qed

theorem ioctl_tsc_freq_witness:
  "\<exists>out. hrperf_ioctl cfg4 ke3 ie3 HRP_PMC_IOC_TSC_FREQ st3 = Inr (Ok0, out, st3) \<and> length out = 8 \<and> le_word out = (2000 :: u64)"
proof -
  have c: "cycles_per_us st3 = 2000" by (simp add: st3_def)
  then have i: "hrperf_ioctl cfg4 ke3 ie3 HRP_PMC_IOC_TSC_FREQ st3 = Inr (Ok0, le_bytes 8 (2000 :: u64), st3)"
    by (simp add: ioctl_tsc reply_def ie3_def Let_def)
  show ?thesis using ioctl_tsc_freq [OF i] i c by auto
qed

theorem start_can_be_lost_witness:
  "\<exists>s1 s2. hrperf_ioctl cfg4 ke3 ie3 HRP_PMC_IOC_START (st3m Pause) = Inr (Ok0, [], s1) \<and> poller_step cfg4 ke3 pe3 s1 = Inr s2 \<and>
     hrperf_running s2 \<and> poller_step cfg4 ke3 pe3 s2 = Inr s2"
  using start_can_be_lost [OF st3m_simps(1,4,2) _ st3m_simps(3), of Pause] by fastforce

end
