(* ===== verification/System.thy ===== *)
theory System
  imports Hrperf "HOL-Library.Sublist"
begin

text \<open>
  The running module as a whole: the two threads, the commands of user processes and the hardware
  take steps in any order. The theory states what holds of every run: nothing faults, and no
  entry is lost, duplicated, reordered or attributed to another CPU on its way from a poll to the
  log file, except that a full buffer drops new ones. It applies to the configurations without
  the strict mode, the IMC counters and RDT, and to files that take what is written to them.
\<close>

section \<open>Runs\<close>

definition polled :: "hrp_config \<Rightarrow> poll_env \<Rightarrow> ('f, 'd) hrperf \<Rightarrow> HrperfLogEntry list" where
  "polled cfg pe s = map (poll_entry cfg pe (mach s)) (polled_cpus cfg (HRP_PMC_POLLER_CPU cfg) s)"

definition poller_entries :: "hrp_config \<Rightarrow> poll_env \<Rightarrow> ('f, 'd) hrperf \<Rightarrow> HrperfLogEntry list" where
  "poller_entries cfg pe s =
     (case poller_thread s of None \<Rightarrow> [] | Some t \<Rightarrow> if th_pc t = Work then polled cfg pe s else [])"

definition ioctl_entries :: "hrp_config \<Rightarrow> ioctl_env \<Rightarrow> ioc \<Rightarrow> ret \<Rightarrow> ('f, 'd) hrperf \<Rightarrow> HrperfLogEntry list" where
  "ioctl_entries cfg ie cmd r s =
     (if r = Ok0 \<and> (cmd = HRP_PMC_IOC_INSTRUCTED_POLL \<or> cmd = HRP_PMC_IOC_INSTRUCTED_POLL_AND_LOG)
      then polled cfg (o_poll ie) s else [])"

text \<open>
  A step, with the entries it polls. The hardware may count and CPUs may go on- and offline at any time.
\<close>

inductive sys_step ::
  "hrp_config \<Rightarrow> ('f, 'd) kernel_env \<Rightarrow> ('f, 'd) hrperf \<Rightarrow> HrperfLogEntry list \<Rightarrow> ('f, 'd) hrperf \<Rightarrow> bool"
  for cfg ke where
  poller: "poller_step cfg ke pe s = Inr s' \<Longrightarrow> sys_step cfg ke s (poller_entries cfg pe s) s'"
| logger: "logger_step cfg ke s = Inr s' \<Longrightarrow> sys_step cfg ke s [] s'"
| ioctl: "hrperf_ioctl cfg ke ie cmd s = Inr (r, out, s') \<Longrightarrow> sys_step cfg ke s (ioctl_entries cfg ie cmd r s) s'"
| hardware: "sys_step cfg ke s [] (s\<lparr>mach := m\<rparr>)"

inductive sys_run ::
  "hrp_config \<Rightarrow> ('f, 'd) kernel_env \<Rightarrow> ('f, 'd) hrperf \<Rightarrow> HrperfLogEntry list \<Rightarrow> ('f, 'd) hrperf \<Rightarrow> bool"
  for cfg ke s where
  start: "sys_run cfg ke s [] s"
| step: "sys_run cfg ke s es s' \<Longrightarrow> sys_step cfg ke s' es' s'' \<Longrightarrow> sys_run cfg ke s (es @ es') s''"

definition sys_ok :: "hrp_config \<Rightarrow> ('f, 'd) hrperf \<Rightarrow> bool" where
  "sys_ok cfg s \<longleftrightarrow> mod_ok cfg s \<and>
     (\<not> instructed_profile s \<longrightarrow> poller_thread s \<noteq> None \<and> logger_thread s \<noteq> None) \<and>
     (\<forall>t. poller_thread s = Some t \<longrightarrow> th_pc t \<noteq> Recheck)"

section \<open>Accounting for entries\<close>

definition mine :: "nat \<Rightarrow> HrperfLogEntry list \<Rightarrow> HrperfLogEntry list" where
  "mine c es = filter (\<lambda>e. cpu_id e = word_of_nat c) es"

lemma mine_append [simp]: "mine c (es @ es') = mine c es @ mine c es'"
  by (simp add: mine_def)

lemma mine_Nil [simp]: "mine c [] = []"
  by (simp add: mine_def)

text \<open>
  What the file has grown by, followed by what a CPU has buffered, is what it had buffered
  before, followed by the entries polled meanwhile that were kept: all of them if they fit.
\<close>

definition kept_ok :: "nat \<Rightarrow> HrperfLogEntry list \<Rightarrow> HrperfLogEntry list \<Rightarrow> HrperfLogEntry list \<Rightarrow> HrperfLogEntry list \<Rightarrow> bool" where
  "kept_ok n old polls out new \<longleftrightarrow>
     (\<exists>kept. out @ new = old @ kept \<and> subseq kept polls \<and> (length old + length polls \<le> n \<longrightarrow> kept = polls))"

definition accounts ::
  "hrp_config \<Rightarrow> ('f \<Rightarrow> u8 list) \<Rightarrow> ('f, 'd) hrperf \<Rightarrow> HrperfLogEntry list \<Rightarrow> ('f, 'd) hrperf \<Rightarrow> bool" where
  "accounts cfg contents s es s' \<longleftrightarrow> hrp_selected_cpus s' = hrp_selected_cpus s \<and>
     (\<exists>f f' log. log_file s = Some f \<and> log_file s' = Some f' \<and>
        contents f' = contents f @ concat (map (entry_bytes cfg) log) \<and>
        (\<forall>c \<in> set (hrp_selected_cpus s).
           kept_ok (rb_cap cfg) (rb_list (per_cpu_buffer s c)) (mine c es) (mine c log) (rb_list (per_cpu_buffer s' c))))"

lemma kept_ok_trans:
  assumes "kept_ok n a es l b" and "kept_ok n b es' l' c"
  shows "kept_ok n a (es @ es') (l @ l') c"
proof -
  obtain k k' where k: "l @ b = a @ k" "subseq k es" "length a + length es \<le> n \<longrightarrow> k = es"
    and k': "l' @ c = b @ k'" "subseq k' es'" "length b + length es' \<le> n \<longrightarrow> k' = es'"
    using assms unfolding kept_ok_def by blast
  have "(l @ l') @ c = a @ k @ k'" using k(1) k'(1) by (metis append.assoc)
  moreover have "subseq (k @ k') (es @ es')" using k(2) k'(2) by (rule list_emb_append_mono)
  moreover have "k @ k' = es @ es'" if "length a + length (es @ es') \<le> n"
  proof -
    have "length b \<le> length a + length k" using arg_cong [OF k(1), of length] by simp
    moreover have "k = es" using k(3) that by simp
    ultimately show ?thesis using k'(3) that by simp
  qed
  ultimately show ?thesis unfolding kept_ok_def by blast
qed

lemma kept_ok_same: "kept_ok n a [] [] a"
  by (auto simp: kept_ok_def)

lemma kept_ok_drained: "kept_ok n a [] a []"
  by (auto simp: kept_ok_def)

lemma kept_ok_push: "kept_ok n a [e] [] (push n a e)"
  by (auto simp: kept_ok_def push_def)

lemma accountsI:
  assumes "hrp_selected_cpus s' = hrp_selected_cpus s" and "log_file s = Some f" and "log_file s' = Some f'"
    and "contents f' = contents f @ concat (map (entry_bytes cfg) log)"
    and "\<And>c. c \<in> set (hrp_selected_cpus s) \<Longrightarrow>
      kept_ok (rb_cap cfg) (rb_list (per_cpu_buffer s c)) (mine c es) (mine c log) (rb_list (per_cpu_buffer s' c))"
  shows "accounts cfg contents s es s'"
  using assms unfolding accounts_def by blast

lemma accounts_trans:
  assumes "accounts cfg contents s es s'" and "accounts cfg contents s' es' s''"
  shows "accounts cfg contents s (es @ es') s''"
proof -
  obtain f f' l where 1: "log_file s = Some f" "log_file s' = Some f'" "contents f' = contents f @ concat (map (entry_bytes cfg) l)"
    "\<forall>c \<in> set (hrp_selected_cpus s). kept_ok (rb_cap cfg) (rb_list (per_cpu_buffer s c)) (mine c es) (mine c l) (rb_list (per_cpu_buffer s' c))"
    "hrp_selected_cpus s' = hrp_selected_cpus s"
    using assms(1) unfolding accounts_def by blast
  obtain f'' l' where 2: "log_file s'' = Some f''" "contents f'' = contents f' @ concat (map (entry_bytes cfg) l')"
    "\<forall>c \<in> set (hrp_selected_cpus s). kept_ok (rb_cap cfg) (rb_list (per_cpu_buffer s' c)) (mine c es') (mine c l') (rb_list (per_cpu_buffer s'' c))"
    "hrp_selected_cpus s'' = hrp_selected_cpus s"
    using assms(2) 1(2,5) unfolding accounts_def by auto
  show ?thesis
  proof (rule accountsI)
    show "contents f'' = contents f @ concat (map (entry_bytes cfg) (l @ l'))" using 1(3) 2(2) by simp
  next
    fix c
    assume "c \<in> set (hrp_selected_cpus s)"
    then show "kept_ok (rb_cap cfg) (rb_list (per_cpu_buffer s c)) (mine c (es @ es')) (mine c (l @ l')) (rb_list (per_cpu_buffer s'' c))"
      unfolding mine_append using 1(4) 2(3) by (blast intro: kept_ok_trans)
  qed (use 1 2 in auto)
qed

lemma accounts_same:
  assumes "log_file s' = log_file s" and "log_file s \<noteq> None" and "per_cpu_buffer s' = per_cpu_buffer s"
    and "hrp_selected_cpus s' = hrp_selected_cpus s"
  shows "accounts cfg contents s [] s'"
  using assms by (auto simp: kept_ok_same intro!: accountsI [where log = "[]"])

lemma accounts_frame:
  assumes "accounts cfg contents s es s'" and "log_file s'' = log_file s'" and "per_cpu_buffer s'' = per_cpu_buffer s'"
    and "hrp_selected_cpus s'' = hrp_selected_cpus s'"
  shows "accounts cfg contents s es s''"
  using assms by (simp add: accounts_def)

section \<open>Steps\<close>

lemma word_of_nat_small:
  assumes "a < 256" and "b < 256" and "(word_of_nat a :: u32) = word_of_nat b"
  shows "a = b"
proof -
  have "a < 2 ^ 32" "b < 2 ^ 32" using assms(1,2) by simp_all
  then have "take_bit 32 a = a" "take_bit 32 b = b" by (simp_all add: take_bit_nat_eq_self)
  then show ?thesis using assms(3) by (simp add: word_of_nat_eq_iff)
qed

lemma mine_map:
  assumes "distinct cpus" and "set cpus \<subseteq> {..<256}" and "c < 256" and "\<And>d. cpu_id (g d) = word_of_nat d"
  shows "mine c (map g cpus) = (if c \<in> set cpus then [g c] else [])"
  using assms
proof (induction cpus)
  case (Cons d cpus)
  then have "cpu_id (g d) = word_of_nat c \<longleftrightarrow> d = c" using word_of_nat_small [of d c] by auto
  then show ?case using Cons by (cases "d = c") (auto simp: mine_def)
qed simp

lemma mine_buffered:
  assumes "distinct cpus" and "set cpus \<subseteq> {..<256}" and "c < 256"
    and "\<And>d e. d \<in> set cpus \<Longrightarrow> e \<in> set (g d) \<Longrightarrow> cpu_id e = word_of_nat d"
  shows "mine c (concat (map g cpus)) = (if c \<in> set cpus then g c else [])"
  using assms
proof (induction cpus)
  case (Cons d cpus)
  have "mine c (g d) = (if d = c then g d else [])"
    using Cons.prems(2,3) Cons.prems(4) [of d] word_of_nat_small [of d c]
    by (fastforce simp: mine_def filter_id_conv filter_empty_conv)
  then show ?case using Cons by auto
qed simp

lemma buffered_bytes_entries:
  "buffered_bytes cfg bufs cpus = concat (map (entry_bytes cfg) (concat (map (\<lambda>c. rb_list (bufs c)) cpus)))"
  by (induction cpus) (simp_all add: buffered_bytes_def)

lemma poll_sys:
  assumes "plain cfg" and "mod_ok cfg s" and "log_file s \<noteq> None"
  shows "\<exists>bufs. smp_poll_pmus cfg ke pe (HRP_PMC_POLLER_CPU cfg) s = Inr (s\<lparr>per_cpu_buffer := bufs\<rparr>) \<and>
    mod_ok cfg (s\<lparr>per_cpu_buffer := bufs\<rparr>) \<and> accounts cfg contents s (polled cfg pe s) (s\<lparr>per_cpu_buffer := bufs\<rparr>)"
proof -
  let ?cpus = "polled_cpus cfg (HRP_PMC_POLLER_CPU cfg) s"
  obtain bufs where b: "smp_poll_pmus cfg ke pe (HRP_PMC_POLLER_CPU cfg) s = Inr (s\<lparr>per_cpu_buffer := bufs\<rparr>)"
    "\<And>c. if c \<in> set ?cpus
         then rb_wf cfg (bufs c) \<and>
              rb_list (bufs c) = push (rb_cap cfg) (rb_list (per_cpu_buffer s c)) (poll_entry cfg pe (mach s) c)
         else bufs c = per_cpu_buffer s c"
    using poll_ok [OF assms(1,2), of ke pe] by blast
  have sel: "distinct ?cpus" "set ?cpus \<subseteq> {..<256}" "\<And>c. c \<in> set (hrp_selected_cpus s) \<Longrightarrow> c < 256"
    using assms(2) polled_subset [OF assms(2)] distinct_polled by (auto simp: mod_ok_def)
  have "kept_ok (rb_cap cfg) (rb_list (per_cpu_buffer s c)) (mine c (polled cfg pe s)) [] (rb_list (bufs c))"
    if "c \<in> set (hrp_selected_cpus s)" for c
    using b(2) [of c] mine_map [OF sel(1,2) sel(3) [OF that], of "poll_entry cfg pe (mach s)"] kept_ok_push kept_ok_same
    by (auto simp: polled_def poll_entry_def split: if_splits)
  then have "accounts cfg contents s (polled cfg pe s) (s\<lparr>per_cpu_buffer := bufs\<rparr>)"
    using assms(3) by (auto intro!: accountsI [where log = "[]"])
  moreover have "mod_ok cfg (s\<lparr>per_cpu_buffer := bufs\<rparr>)"
  proof -
    have "rb_wf cfg (bufs c) \<and> (\<forall>e \<in> set (rb_list (bufs c)). cpu_id e = word_of_nat c)"
      if "c \<in> set (hrp_selected_cpus s)" for c
      using b(2) [of c] assms(2) that by (auto simp: mod_ok_def push_def poll_entry_def split: if_splits)
    then show ?thesis using assms(2) by (simp add: mod_ok_def)
  qed
  ultimately show ?thesis using b(1) by blast
qed

lemma log_sys:
  assumes "appends (e_write ke) contents" and "mod_ok cfg s"
  shows "\<exists>bufs f'. log_for_all_cpus cfg ke s = Inr (s\<lparr>per_cpu_buffer := bufs, log_file := Some f'\<rparr>) \<and>
    mod_ok cfg (s\<lparr>per_cpu_buffer := bufs, log_file := Some f'\<rparr>) \<and>
    accounts cfg contents s [] (s\<lparr>per_cpu_buffer := bufs, log_file := Some f'\<rparr>)"
proof -
  let ?sel = "hrp_selected_cpus s" and ?g = "\<lambda>c. rb_list (per_cpu_buffer s c)"
  obtain f where f: "log_file s = Some f" using assms(2) by (auto simp: mod_ok_def)
  obtain bufs f' where b: "log_for_all_cpus cfg ke s = Inr (s\<lparr>per_cpu_buffer := bufs, log_file := Some f'\<rparr>)"
    "contents f' = contents f @ buffered_bytes cfg (per_cpu_buffer s) ?sel"
    "\<And>c. if c \<in> set ?sel then rb_wf cfg (bufs c) \<and> rb_list (bufs c) = [] else bufs c = per_cpu_buffer s c"
    using log_ok [OF assms f] by blast
  have "mine c (concat (map ?g ?sel)) = ?g c" if "c \<in> set ?sel" for c
    using mine_buffered [of ?sel c ?g] assms(2) that by (auto simp: mod_ok_def)
  then have "kept_ok (rb_cap cfg) (?g c) [] (mine c (concat (map ?g ?sel))) (rb_list (bufs c))" if "c \<in> set ?sel" for c
    using b(3) [of c] kept_ok_drained that by simp
  moreover have "buffered_bytes cfg (per_cpu_buffer s) ?sel = concat (map (entry_bytes cfg) (concat (map ?g ?sel)))"
    by (rule buffered_bytes_entries)
  ultimately have "accounts cfg contents s [] (s\<lparr>per_cpu_buffer := bufs, log_file := Some f'\<rparr>)"
    using b(2) f by (intro accountsI [where log = "concat (map ?g ?sel)"]) auto
  moreover have "mod_ok cfg (s\<lparr>per_cpu_buffer := bufs, log_file := Some f'\<rparr>)"
    using assms(2) b(3) by (auto simp: mod_ok_def)
  ultimately show ?thesis using b(1) by blast
qed

text \<open>A step function that succeeds, keeps the invariant and accounts for the entries.\<close>

definition good_step ::
  "hrp_config \<Rightarrow> ('f \<Rightarrow> u8 list) \<Rightarrow> ('f, 'd) hrperf \<Rightarrow> HrperfLogEntry list \<Rightarrow> ('f, 'd) hrperf \<Rightarrow> bool" where
  "good_step cfg contents s es s' \<longleftrightarrow> sys_ok cfg s' \<and> accounts cfg contents s es s'"

lemma good_same:
  assumes "sys_ok cfg s" and "sys_ok cfg s'" and "log_file s' = log_file s" and "per_cpu_buffer s' = per_cpu_buffer s"
    and "hrp_selected_cpus s' = hrp_selected_cpus s"
  shows "good_step cfg contents s [] s'"
  using assms accounts_same [of s' s] by (auto simp: good_step_def sys_ok_def mod_ok_def)

lemma sys_ok_poller:
  "sys_ok cfg s \<Longrightarrow> th_cpu t = HRP_PMC_POLLER_CPU cfg \<Longrightarrow> th_pc t \<noteq> Recheck \<Longrightarrow> sys_ok cfg (s\<lparr>poller_thread := Some t\<rparr>)"
  by (auto simp: sys_ok_def mod_ok_def)

lemma sys_ok_logger: "sys_ok cfg s \<Longrightarrow> sys_ok cfg (s\<lparr>logger_thread := Some t\<rparr>)"
  by (auto simp: sys_ok_def mod_ok_def)

lemma good_frame:
  assumes "good_step cfg contents s es s'" and "sys_ok cfg s''" and "log_file s'' = log_file s'"
    and "per_cpu_buffer s'' = per_cpu_buffer s'" and "hrp_selected_cpus s'' = hrp_selected_cpus s'"
  shows "good_step cfg contents s es s''"
  using assms accounts_frame unfolding good_step_def by blast

lemma good_trans:
  "good_step cfg contents s es s' \<Longrightarrow> good_step cfg contents s' es' s'' \<Longrightarrow> good_step cfg contents s (es @ es') s''"
  unfolding good_step_def by (blast intro: accounts_trans)

lemma poll_good:
  assumes "plain cfg" and "sys_ok cfg s"
  shows "\<exists>s'. smp_poll_pmus cfg ke pe (HRP_PMC_POLLER_CPU cfg) s = Inr s' \<and> good_step cfg contents s (polled cfg pe s) s' \<and>
    poller_thread s' = poller_thread s"
proof -
  have "mod_ok cfg s" "log_file s \<noteq> None" using assms(2) by (auto simp: sys_ok_def mod_ok_def)
  from poll_sys [OF assms(1) this] obtain bufs
    where "smp_poll_pmus cfg ke pe (HRP_PMC_POLLER_CPU cfg) s = Inr (s\<lparr>per_cpu_buffer := bufs\<rparr>)"
      "mod_ok cfg (s\<lparr>per_cpu_buffer := bufs\<rparr>)" "accounts cfg contents s (polled cfg pe s) (s\<lparr>per_cpu_buffer := bufs\<rparr>)"
    by blast
  then show ?thesis using assms(2) by (intro exI [of _ "s\<lparr>per_cpu_buffer := bufs\<rparr>"]) (simp add: good_step_def sys_ok_def)
qed

lemma log_good:
  assumes "appends (e_write ke) contents" and "sys_ok cfg s"
  shows "\<exists>s'. log_for_all_cpus cfg ke s = Inr s' \<and> good_step cfg contents s [] s'"
proof -
  have "mod_ok cfg s" using assms(2) by (auto simp: sys_ok_def mod_ok_def)
  from log_sys [OF assms(1) this] obtain bufs f'
    where "log_for_all_cpus cfg ke s = Inr (s\<lparr>per_cpu_buffer := bufs, log_file := Some f'\<rparr>)"
      "mod_ok cfg (s\<lparr>per_cpu_buffer := bufs, log_file := Some f'\<rparr>)"
      "accounts cfg contents s [] (s\<lparr>per_cpu_buffer := bufs, log_file := Some f'\<rparr>)"
    by blast
  then show ?thesis
    using assms(2) by (intro exI [of _ "s\<lparr>per_cpu_buffer := bufs, log_file := Some f'\<rparr>"]) (simp add: good_step_def sys_ok_def)
qed

lemma poller_good:
  assumes "plain cfg" and "sys_ok cfg s"
  shows "\<exists>s'. poller_step cfg ke pe s = Inr s' \<and> good_step cfg contents s (poller_entries cfg pe s) s'"
proof (cases "poller_thread s")
  case None
  then show ?thesis using good_same [OF assms(2,2)] by (simp add: poller_step_def poller_entries_def)
next
  case (Some t)
  have cpu: "th_cpu t = HRP_PMC_POLLER_CPU cfg" and pc: "th_pc t \<noteq> Recheck"
    using assms(2) Some by (auto simp: sys_ok_def mod_ok_def)
  have move: "good_step cfg contents s [] (s\<lparr>poller_thread := Some t'\<rparr>)"
    if "th_cpu t' = HRP_PMC_POLLER_CPU cfg" "th_pc t' \<noteq> Recheck" for t'
    using good_same [OF assms(2) sys_ok_poller [OF assms(2) that]] by simp
  show ?thesis
  proof (cases "th_pc t = Work")
    case True
    obtain s' where s': "smp_poll_pmus cfg ke pe (HRP_PMC_POLLER_CPU cfg) s = Inr s'"
      "good_step cfg contents s (polled cfg pe s) s'" "poller_thread s' = poller_thread s"
      using poll_good [OF assms] by blast
    have "sys_ok cfg (s'\<lparr>poller_thread := Some (goto Usleep t)\<rparr>)"
      using s'(2) cpu by (simp add: good_step_def goto_def sys_ok_poller)
    from good_frame [OF s'(2) this] show ?thesis
      using Some True s'(1) cpu by (simp add: poller_step_def poller_entries_def)
  next
    case False
    then show ?thesis
      using Some cpu pc good_same [OF assms(2,2)]
      by (cases "th_pc t") (auto simp: poller_step_def poller_entries_def goto_def intro!: move)
  qed
qed

lemma logger_good:
  assumes "appends (e_write ke) contents" and "sys_ok cfg s"
  shows "\<exists>s'. logger_step cfg ke s = Inr s' \<and> good_step cfg contents s [] s'"
proof (cases "logger_thread s")
  case None
  then show ?thesis using good_same [OF assms(2,2)] by (simp add: logger_step_def)
next
  case (Some t)
  have move: "good_step cfg contents s [] (s\<lparr>logger_thread := Some t'\<rparr>)" for t'
    using good_same [OF assms(2) sys_ok_logger [OF assms(2)]] by simp
  show ?thesis
  proof (cases "th_pc t = Work")
    case True
    obtain s' where s': "log_for_all_cpus cfg ke s = Inr s'" "good_step cfg contents s [] s'"
      using log_good [OF assms] by blast
    have "sys_ok cfg (s'\<lparr>logger_thread := Some (goto Top t)\<rparr>)" using s'(2) by (simp add: good_step_def sys_ok_logger)
    from good_frame [OF s'(2) this] show ?thesis using Some True s'(1) by (simp add: logger_step_def)
  next
    case False
    then show ?thesis
      using Some good_same [OF assms(2,2)] move by (cases "th_pc t") (auto simp: logger_step_def)
  qed
qed

lemma instructed_good:
  assumes "sys_ok cfg s" and "\<And>s. sys_ok cfg s \<Longrightarrow> \<exists>s'. op s = Inr s' \<and> good_step cfg contents s (es s) s'"
  shows "\<exists>r s'. no_reply (enqueue_instructed_profile_op op s) = Inr (r, [], s') \<and>
    good_step cfg contents s (if r = Ok0 then es s else []) s'"
proof -
  have "good_step cfg contents s [] s" using good_same [OF assms(1,1)] by simp
  moreover obtain s' where "op s = Inr s'" "good_step cfg contents s (es s) s'" using assms by blast
  ultimately show ?thesis by (simp add: no_reply_def enqueue_instructed_profile_op_def)
qed

lemma start_good:
  assumes "sys_ok cfg s"
  shows "\<exists>r s'. hrperf_ioctl cfg ke ie HRP_PMC_IOC_START s = Inr (r, [], s') \<and> good_step cfg contents s [] s'"
proof (cases "instructed_profile s")
  case True
  then show ?thesis using good_same [OF assms assms] by (simp add: ioctl_start_pause_instructed)
next
  case False
  then obtain p l where t: "poller_thread s = Some p" "logger_thread s = Some l" using assms by (auto simp: sys_ok_def)
  let ?s = "s\<lparr>hrperf_running := True, poller_thread := Some (p\<lparr>th_state := TASK_RUNNING\<rparr>),
    logger_thread := Some (l\<lparr>th_state := TASK_RUNNING\<rparr>)\<rparr>"
  have "sys_ok cfg ?s" using assms t by (auto simp: sys_ok_def mod_ok_def)
  then have "good_step cfg contents s [] ?s" "good_step cfg contents s [] s"
    using good_same [OF assms] good_same [OF assms assms] by simp_all
  then show ?thesis using ioctl_start [OF False t] by simp
qed

lemma pause_good:
  assumes "sys_ok cfg s"
  shows "\<exists>r s'. hrperf_ioctl cfg ke ie HRP_PMC_IOC_PAUSE s = Inr (r, [], s') \<and> good_step cfg contents s [] s'"
proof -
  have "sys_ok cfg (s\<lparr>hrperf_running := False\<rparr>)" using assms by (auto simp: sys_ok_def mod_ok_def)
  then show ?thesis
    using good_same [OF assms] by (cases "instructed_profile s") (auto simp: ioctl_start_pause_instructed ioctl_pause assms)
qed

lemma tsc_good:
  assumes "sys_ok cfg s"
  shows "\<exists>r out s'. hrperf_ioctl cfg ke ie HRP_PMC_IOC_TSC_FREQ s = Inr (r, out, s') \<and> good_step cfg contents s [] s'"
proof -
  have "sys_ok cfg (s\<lparr>cycles_per_us := c\<rparr>)" for c using assms by (auto simp: sys_ok_def mod_ok_def)
  then have "good_step cfg contents s [] (s\<lparr>cycles_per_us := c\<rparr>)" "good_step cfg contents s [] s" for c
    using good_same [OF assms] good_same [OF assms assms] by simp_all
  then show ?thesis by (auto simp: ioctl_tsc reply_def Let_def)
qed

lemma instructed_ops_good:
  assumes "plain cfg" and "appends (e_write ke) contents" and "sys_ok cfg s"
  shows "\<exists>s'. instructed_poll_op cfg ke (o_poll ie) (HRP_PMC_POLLER_CPU cfg) s = Inr s' \<and>
      good_step cfg contents s (polled cfg (o_poll ie) s) s'"
    and "\<exists>s'. instructed_log_op cfg ke s = Inr s' \<and> good_step cfg contents s [] s'"
    and "\<exists>s'. instructed_poll_and_log cfg ke (o_poll ie) (HRP_PMC_POLLER_CPU cfg) s = Inr s' \<and>
      good_step cfg contents s (polled cfg (o_poll ie) s) s'"
proof -
  have log: "\<exists>s'. instructed_log_op cfg ke s = Inr s' \<and> good_step cfg contents s [] s'" if "sys_ok cfg s" for s
    using log_good [OF assms(2) that] unfolding instructed_log_op_def by blast
  then show "\<exists>s'. instructed_log_op cfg ke s = Inr s' \<and> good_step cfg contents s [] s'" using assms(3) by blast
  show poll: "\<exists>s'. instructed_poll_op cfg ke (o_poll ie) (HRP_PMC_POLLER_CPU cfg) s = Inr s' \<and>
      good_step cfg contents s (polled cfg (o_poll ie) s) s'"
    using poll_good [OF assms(1,3)] unfolding instructed_poll_op_def by blast
  then obtain s1 where s1: "instructed_poll_op cfg ke (o_poll ie) (HRP_PMC_POLLER_CPU cfg) s = Inr s1"
    "good_step cfg contents s (polled cfg (o_poll ie) s) s1" by blast
  moreover obtain s2 where "instructed_log_op cfg ke s1 = Inr s2" "good_step cfg contents s1 [] s2"
    using log [of s1] s1(2) unfolding good_step_def by blast
  ultimately show "\<exists>s'. instructed_poll_and_log cfg ke (o_poll ie) (HRP_PMC_POLLER_CPU cfg) s = Inr s' \<and>
      good_step cfg contents s (polled cfg (o_poll ie) s) s'"
    using good_trans [OF s1(2)] by (fastforce simp: instructed_poll_and_log_def)
qed

lemma ioctl_good:
  assumes "plain cfg" and "appends (e_write ke) contents" and "sys_ok cfg s"
  shows "\<exists>r out s'. hrperf_ioctl cfg ke ie cmd s = Inr (r, out, s') \<and> good_step cfg contents s (ioctl_entries cfg ie cmd r s) s'"
proof -
  note ops = instructed_ops_good [OF assms(1,2)]
  consider "cmd = HRP_PMC_IOC_START" | "cmd = HRP_PMC_IOC_PAUSE" | "cmd = HRP_PMC_IOC_TSC_FREQ"
    | "cmd = HRP_PMC_IOC_INSTRUCTED_POLL" | "cmd = HRP_PMC_IOC_INSTRUCTED_LOG" | "cmd = HRP_PMC_IOC_INSTRUCTED_POLL_AND_LOG"
    | "cmd \<notin> known_cmds cfg"
    using assms(1) by (auto simp: plain_def cmd_sets)
  then show ?thesis
  proof cases
    case 1
    then show ?thesis using start_good [OF assms(3)] by (fastforce simp: ioctl_entries_def ioc_defs)
  next
    case 2
    then show ?thesis using pause_good [OF assms(3)] by (fastforce simp: ioctl_entries_def ioc_defs)
  next
    case 3
    then show ?thesis using tsc_good [OF assms(3)] by (fastforce simp: ioctl_entries_def ioc_defs)
  next
    case 4
    then have e: "ioctl_entries cfg ie cmd = (\<lambda>r s. if r = Ok0 then polled cfg (o_poll ie) s else [])"
      by (simp add: ioctl_entries_def fun_eq_iff)
    show ?thesis
      unfolding e unfolding 4 ioctl_instructed
      using instructed_good [OF assms(3), where op = "instructed_poll_op cfg ke (o_poll ie) (HRP_PMC_POLLER_CPU cfg)"
          and es = "polled cfg (o_poll ie)", OF ops(1)] by blast
  next
    case 5
    have "HRP_PMC_IOC_INSTRUCTED_LOG \<notin> {HRP_PMC_IOC_INSTRUCTED_POLL, HRP_PMC_IOC_INSTRUCTED_POLL_AND_LOG}" by (simp add: ioc_defs)
    then show ?thesis
      using 5 instructed_good [OF assms(3), where op = "instructed_log_op cfg ke" and es = "\<lambda>_. []", OF ops(2)]
      by (auto simp: ioctl_instructed ioctl_entries_def)
  next
    case 6
    then have e: "ioctl_entries cfg ie cmd = (\<lambda>r s. if r = Ok0 then polled cfg (o_poll ie) s else [])"
      by (simp add: ioctl_entries_def fun_eq_iff)
    show ?thesis
      unfolding e unfolding 6 ioctl_instructed
      using instructed_good [OF assms(3), where op = "instructed_poll_and_log cfg ke (o_poll ie) (HRP_PMC_POLLER_CPU cfg)"
          and es = "polled cfg (o_poll ie)", OF ops(3)] by blast
  next
    case 7
    then show ?thesis
      using good_same [OF assms(3,3)] by (simp add: ioctl_unknown ioctl_entries_def)
  qed
qed

section \<open>What no step changes\<close>

definition same_mem :: "HrperfRingBuffer \<Rightarrow> HrperfRingBuffer \<Rightarrow> bool" where
  "same_mem a b \<longleftrightarrow> buffer a = buffer b \<and> pages a = pages b \<and> num_pages a = num_pages b"

text \<open>Steps neither allocate nor free memory, and leave the device and the selection of CPUs alone.\<close>

definition keeps :: "('f, 'd) hrperf \<Rightarrow> ('f, 'd) hrperf \<Rightarrow> bool" where
  "keeps s s' \<longleftrightarrow> heap s' = heap s \<and> hrp_selected_cpus s' = hrp_selected_cpus s \<and>
     (\<forall>c. same_mem (per_cpu_buffer s c) (per_cpu_buffer s' c))"

lemma keeps_refl [simp]: "keeps s s"
  by (simp add: keeps_def same_mem_def)

lemma keeps_trans: "keeps s s' \<Longrightarrow> keeps s' s'' \<Longrightarrow> keeps s s''"
  by (simp add: keeps_def same_mem_def)

lemma keeps_other:
  "heap s' = heap s \<Longrightarrow> hrp_selected_cpus s' = hrp_selected_cpus s \<Longrightarrow> per_cpu_buffer s' = per_cpu_buffer s \<Longrightarrow> keeps s s'"
  by (simp add: keeps_def same_mem_def)

lemma keeps_buffer:
  "same_mem (per_cpu_buffer s c) rb \<Longrightarrow> keeps s (s\<lparr>per_cpu_buffer := (per_cpu_buffer s)(c := rb)\<rparr>)"
  by (simp add: keeps_def same_mem_def)

lemma foldF_keeps: "(\<And>i s s'. f i s = Inr s' \<Longrightarrow> keeps s s') \<Longrightarrow> foldF f is s = Inr s' \<Longrightarrow> keeps s s'"
proof (induction "is" arbitrary: s)
  case (Cons i "is")
  then show ?case by (fastforce simp: bindF_eq_Inr intro: keeps_trans)
qed simp

lemma enqueue_mem: "enqueue cfg rb e = Inr rb' \<Longrightarrow> same_mem rb rb'"
  by (auto simp: enqueue_def same_mem_def Let_def split: if_splits)

lemma log_and_clear_mem: "log_and_clear cfg kw rb f = Inr (rb', f') \<Longrightarrow> same_mem rb rb'"
  by (auto simp: log_and_clear_def same_mem_def Let_def bindF_eq_Inr split: if_splits)

lemma read_imc_keeps: "read_imc cfg ke cpu t s = Inr (t', s') \<Longrightarrow> keeps s s'"
  by (auto simp: read_imc_def bindF_eq_Inr intro!: keeps_other split: if_splits)

lemma read_rdt_keeps:
  assumes "read_rdt cfg pe cpu t s = Inr (t', s')"
  shows "keeps s s'"
proof -
  have "s' = s \<or> (\<exists>m. s' = s\<lparr>mach := m\<rparr>)"
  proof (cases "HRP_USE_RDT cfg")
    case True
    then obtain info where info: "mbm_get_rmid_info_for_core (g_mbm_mgr s) (word_of_nat cpu) = Inr info"
      using assms by (auto simp: read_rdt_def bindF_eq_Inr)
    show ?thesis
    proof (cases info)
      case None
      then show ?thesis using assms True info by (simp add: read_rdt_def)
    next
      case (Some i)
      then obtain e where e: "table_get (rmid_mgr (g_mbm_mgr s)) i = Inr e"
        using assms True info by (auto simp: read_rdt_def bindF_eq_Inr)
      obtain d m where "mbm_read_counters cfg cpu
          ((p_mbm_junk pe cpu)\<lparr>cd_status := MBM_COUNTER_READ_SUCCESS, cd_rmid := rmid e\<rparr>) (mach s) = (d, m)" by fastforce
      then show ?thesis
        using assms True info Some e by (auto simp: read_rdt_def Let_def split: if_splits)
    qed
  qed (use assms in \<open>simp add: read_rdt_def\<close>)
  then show ?thesis by (auto intro: keeps_other)
qed

lemma preempt_keeps [simp]: "keeps s (preempt_disable c s)" "keeps s (preempt_enable c s)"
  by (simp_all add: preempt_disable_def preempt_enable_def keeps_other)

text \<open>Keeping through the operations that may fault.\<close>

definition keepsF :: "('f, 'd) hrperf \<Rightarrow> ('f, 'd) hrperf may \<Rightarrow> bool" where
  "keepsF s m \<longleftrightarrow> (\<forall>s'. m = Inr s' \<longrightarrow> keeps s s')"

lemma keepsF_Inr: "keeps s s' \<Longrightarrow> keepsF s (Inr s')"
  by (simp add: keepsF_def)

lemma keepsFD: "keepsF s m \<Longrightarrow> m = Inr s' \<Longrightarrow> keeps s s'"
  by (simp add: keepsF_def)

lemma keepsF_bind: "keepsF s m \<Longrightarrow> (\<And>s'. keeps s s' \<Longrightarrow> keepsF s (f s')) \<Longrightarrow> keepsF s (bindF m f)"
  by (auto simp: keepsF_def bindF_eq_Inr)

lemma keepsF_from: "keepsF s' m \<Longrightarrow> keeps s s' \<Longrightarrow> keepsF s m"
  by (auto simp: keepsF_def intro: keeps_trans)

lemma keepsF_if: "(b \<Longrightarrow> keepsF s x) \<Longrightarrow> (\<not> b \<Longrightarrow> keepsF s y) \<Longrightarrow> keepsF s (if b then x else y)"
  by simp

lemma keepsF_foldF: "(\<And>i s. keepsF s (f i s)) \<Longrightarrow> keeps s s' \<Longrightarrow> keepsF s (foldF f is s')"
  using foldF_keeps [of f] keepsF_from [of s' "foldF f is s'" s] unfolding keepsF_def by blast

lemma keeps_preempt: "keeps s s' \<Longrightarrow> keeps s (preempt_disable c s')" "keeps s s' \<Longrightarrow> keeps s (preempt_enable c s')"
  using keeps_trans preempt_keeps by blast+

lemma keeps_unlock: "keeps s s' \<Longrightarrow> keeps s (unlock_profile cfg s')"
  by (auto simp: unlock_profile_def keeps_def)

lemma lock_keeps: "keepsF s (lock_profile cfg s)"
  by (auto simp: keepsF_def lock_profile_def intro!: keeps_other split: if_splits)

lemma poller_func_keeps: "keepsF s (hrperf_poller_func cfg ke pe ts cpu s)"
proof -
  let ?strict = "HRP_STRICT_POLLING_SYNC cfg"
  define s0 where "s0 = (if ?strict then preempt_disable cpu s else s)"
  have 0: "keeps s s0" by (simp add: s0_def)
  have "keepsF s0 (bindF (read_imc cfg ke cpu t s0) (\<lambda>(t, s). bindF (read_rdt cfg pe cpu t s) (\<lambda>(t, s).
      (let s = (if ?strict then preempt_enable cpu s else s) in
       bindF (enqueue cfg (per_cpu_buffer s cpu) \<lparr>cpu_id = word_of_nat cpu, tick = t\<rparr>) (\<lambda>rb.
         Inr (s\<lparr>per_cpu_buffer := (per_cpu_buffer s)(cpu := rb)\<rparr>))))))" for t
  proof -
    have last: "keeps s (s\<lparr>per_cpu_buffer := (per_cpu_buffer s)(cpu := rb)\<rparr>)"
      if "enqueue cfg (per_cpu_buffer s cpu) e = Inr rb" for s :: "('a, 'b) hrperf" and rb e
      using keeps_buffer enqueue_mem [OF that] by blast
    show ?thesis
      unfolding keepsF_def
      by (auto simp: bindF_eq_Inr Let_def split: if_splits
          dest!: read_imc_keeps read_rdt_keeps last intro: keeps_trans keeps_preempt)
  qed
  from keepsF_from [OF this 0] show ?thesis
    unfolding hrperf_poller_func_def s0_def Let_def by (auto intro!: keepsF_Inr keeps_preempt)
qed

lemma smp_poll_keeps: "keepsF s (smp_poll_pmus cfg ke pe cur s)"
  unfolding smp_poll_pmus_def Let_def
  by (intro keepsF_bind lock_keeps keepsF_if keepsF_Inr keepsF_foldF poller_func_keeps keeps_preempt keeps_unlock
      keepsF_from [OF poller_func_keeps]) assumption+

lemma log_keeps: "keepsF s (log_for_all_cpus cfg ke s)"
proof -
  have "keepsF s (log_cpu cfg ke c s)" for c and s :: "('a, 'b) hrperf"
    by (auto simp: keepsF_def log_cpu_def bindF_eq_Inr keeps_def same_mem_def dest!: log_and_clear_mem)
  then show ?thesis
    unfolding log_for_all_cpus_def by (intro keepsF_bind lock_keeps keepsF_foldF keepsF_Inr keeps_unlock)
qed

lemma poller_step_keeps: "keepsF s (poller_step cfg ke pe s)"
proof (cases "poller_thread s")
  case (Some t)
  have "keeps s (s\<lparr>poller_thread := x\<rparr>)" for x by (simp add: keeps_other)
  moreover have "keeps s s' \<Longrightarrow> keeps s (s'\<lparr>poller_thread := x\<rparr>)" for s' x by (simp add: keeps_def)
  ultimately show ?thesis
    using Some smp_poll_keeps [of s cfg ke pe "th_cpu t"]
    by (cases "th_pc t") (auto simp: poller_step_def Let_def intro!: keepsF_Inr elim!: keepsF_bind)
qed (simp add: poller_step_def keepsF_Inr)

lemma logger_step_keeps: "keepsF s (logger_step cfg ke s)"
proof (cases "logger_thread s")
  case (Some t)
  have "keeps s (s\<lparr>logger_thread := x\<rparr>)" for x by (simp add: keeps_other)
  moreover have "keeps s s' \<Longrightarrow> keeps s (s'\<lparr>logger_thread := x\<rparr>)" for s' x by (simp add: keeps_def)
  ultimately show ?thesis
    using Some log_keeps [of s cfg ke]
    by (cases "th_pc t") (auto simp: logger_step_def Let_def intro!: keepsF_Inr elim!: keepsF_bind)
qed (simp add: logger_step_def keepsF_Inr)

lemma instructed_keeps:
  "keepsF s (op s) \<Longrightarrow> no_reply (enqueue_instructed_profile_op op s) = Inr (r, out, s') \<Longrightarrow> keeps s s'"
  by (auto simp: no_reply_def enqueue_instructed_profile_op_def bindF_eq_Inr keepsF_def split: if_splits)

lemma poll_and_log_keeps: "keepsF s (instructed_poll_and_log cfg ke pe cur s)"
  unfolding instructed_poll_and_log_def instructed_poll_op_def instructed_log_op_def
  by (intro keepsF_bind smp_poll_keeps keepsF_from [OF log_keeps])

lemma ioctl_keeps:
  assumes "hrperf_ioctl cfg ke ie cmd s = Inr (r, out, s')"
  shows "keeps s s'"
proof -
  consider "cmd = HRP_PMC_IOC_START" | "cmd = HRP_PMC_IOC_PAUSE" | "cmd = HRP_PMC_IOC_TSC_FREQ"
    | "cmd = HRP_PMC_IOC_INSTRUCTED_POLL" | "cmd = HRP_PMC_IOC_INSTRUCTED_LOG" | "cmd = HRP_PMC_IOC_INSTRUCTED_POLL_AND_LOG"
    | (rdt) "cmd \<in> rdt_cmds" | "cmd \<notin> known_cmds cfg"
    by (cases "HRP_USE_RDT cfg"; cases "cmd \<in> rdt_cmds") (auto simp: known_cmds_def instructed_cmds_def)
  then show ?thesis
  proof cases
    case 1
    then show ?thesis
      using assms unfolding hrperf_ioctl_def
      by (auto simp: Let_def bindF_eq_Inr intro!: keeps_other split: if_splits)
  next
    case 2
    then show ?thesis
      using assms by (cases "instructed_profile s") (auto simp: ioctl_pause ioctl_start_pause_instructed keeps_other)
  next
    case 3
    then show ?thesis using assms by (auto simp: ioctl_tsc Let_def reply_def intro!: keeps_other split: if_splits)
  next
    case rdt
    then show ?thesis
      using assms unfolding hrperf_ioctl_def rdt_cmds_def
      by (elim insertE emptyE) (auto simp: ioc_defs reply_def bindF_eq_Inr intro!: keeps_other split: if_splits)
  qed (use assms smp_poll_keeps log_keeps poll_and_log_keeps in
      \<open>auto simp: ioctl_instructed ioctl_unknown instructed_poll_op_def instructed_log_op_def
        dest!: instructed_keeps [rotated]\<close>)
qed

inductive_cases sys_stepE: "sys_step cfg ke s es s'"

lemma sys_step_keeps: "sys_step cfg ke s es s' \<Longrightarrow> keeps s s'"
  by (elim sys_stepE)
    (auto intro: keepsFD [OF poller_step_keeps] keepsFD [OF logger_step_keeps] ioctl_keeps keeps_other)

lemma sys_run_keeps: "sys_run cfg ke s es s' \<Longrightarrow> keeps s s'"
  by (induction rule: sys_run.induct) (auto intro: keeps_trans sys_step_keeps)

section \<open>Properties of runs\<close>

lemma sys_step_good:
  assumes "plain cfg" and "appends (e_write ke) contents" and "sys_ok cfg s" and "sys_step cfg ke s es s'"
  shows "good_step cfg contents s es s'"
  using assms(4)
proof cases
  case (poller pe)
  then show ?thesis using poller_good [OF assms(1,3), of ke pe contents] by auto
next
  case logger
  then show ?thesis using logger_good [OF assms(2,3)] by auto
next
  case (ioctl ie cmd r out)
  then show ?thesis using ioctl_good [OF assms(1-3), of ie cmd] by auto
next
  case (hardware m)
  moreover have "sys_ok cfg (s\<lparr>mach := m\<rparr>)" using assms(3) by (simp add: sys_ok_def mod_ok_def)
  ultimately show ?thesis using good_same [OF assms(3)] by simp
qed

lemma sys_run_good:
  assumes "plain cfg" and "appends (e_write ke) contents" and "sys_run cfg ke s es s'" and "sys_ok cfg s"
  shows "good_step cfg contents s es s'"
  using assms(3)
proof induction
  case start
  then show ?case using good_same [OF assms(4,4)] by simp
next
  case (step es s' es' s'')
  then show ?case
    using sys_step_good [OF assms(1,2) _ step.hyps(2)] good_trans unfolding good_step_def by (meson accounts_trans)
qed

text \<open>
  C2. Every run conserves the entries: what the log file gained, taken CPU by CPU, followed by
  what is still buffered, is what was buffered at the start followed by the entries polled since,
  in order and without repetition. Only polled entries are missing, and none is if they fit the
  buffer. This holds for every interleaving of the two threads, the commands and the hardware.
\<close>

theorem run_conserves_entries:
  assumes "plain cfg" and "appends (e_write ke) contents" and "sys_ok cfg s" and "sys_run cfg ke s es s'"
  shows "\<exists>f f' log. log_file s = Some f \<and> log_file s' = Some f' \<and>
    contents f' = contents f @ concat (map (entry_bytes cfg) log) \<and>
    (\<forall>c \<in> set (hrp_selected_cpus s). \<exists>kept.
       mine c log @ rb_list (per_cpu_buffer s' c) = rb_list (per_cpu_buffer s c) @ kept \<and> subseq kept (mine c es) \<and>
       (length (rb_list (per_cpu_buffer s c)) + length (mine c es) \<le> rb_cap cfg \<longrightarrow> kept = mine c es))"
  using sys_run_good [OF assms(1,2,4,3)] unfolding good_step_def accounts_def kept_ok_def by blast

text \<open>
  C3. No run gets stuck in a fault: in every reachable state each thread can take its next step
  and every command returns, and the invariant of the module still holds.
\<close>

theorem run_never_faults:
  assumes "plain cfg" and "appends (e_write ke) contents" and "sys_ok cfg s" and "sys_run cfg ke s es s'"
  shows "sys_ok cfg s' \<and> (\<exists>t. poller_step cfg ke pe s' = Inr t) \<and> (\<exists>t. logger_step cfg ke s' = Inr t) \<and>
    (\<exists>r out t. hrperf_ioctl cfg ke ie cmd s' = Inr (r, out, t))"
proof -
  have "sys_ok cfg s'" using sys_run_good [OF assms(1,2,4,3)] unfolding good_step_def by blast
  then show ?thesis
    using poller_good [OF assms(1), of s' ke pe contents] logger_good [OF assms(2), of cfg s']
      ioctl_good [OF assms(1,2), of s' ie cmd] by blast
qed

section \<open>Life cycle\<close>

lemma andThen_Inr:
  "andThen a b s = Inr (r, s') \<longleftrightarrow>
     (\<exists>s1. a s = Inr (Ok0, s1) \<and> b s1 = Inr (r, s')) \<or> (\<exists>e. r = Neg e \<and> a s = Inr (Neg e, s'))"
proof (cases "a s")
  case (Inr x)
  then show ?thesis by (cases x; cases "fst x") (auto simp: andThen_def)
qed (simp add: andThen_def)

lemma andThen_Ok: "andThen a b s = Inr (Ok0, s') \<longleftrightarrow> (\<exists>s1. a s = Inr (Ok0, s1) \<and> b s1 = Inr (Ok0, s'))"
  by (simp add: andThen_Inr)

text \<open>What a successful initialisation leaves behind, step by step.\<close>

lemma init_tsc_Ok: "init_tsc cfg ie s = Inr (Ok0, s') \<Longrightarrow> \<exists>c. s' = s\<lparr>cycles_per_us := c\<rparr>"
  by (auto simp: init_tsc_def Let_def case_prod_beta split: if_splits intro: exI [of _ "cycles_per_us s"])

lemma init_device_Ok:
  "init_device ie s = Inr (Ok0, s') \<Longrightarrow> s' = s\<lparr>chrdev_region := True, char_dev := True, dev_class := True, device_p := True\<rparr>"
  by (auto simp: init_device_def Let_def split: if_splits option.splits)

lemma init_cpus_Ok:
  assumes "init_cpus cfg ie s = Inr (Ok0, s')"
  shows "\<exists>n p. s' = s\<lparr>hrp_selected_cpus := filter (\<lambda>c. c < i_mask_bits ie) (selected_cpus cfg), N_CPUS := n, N_POLLING_CPUS := p\<rparr>"
  using assms unfolding init_cpus_def Let_def by (auto split: if_splits intro!: exI)

lemma init_counters_Ok:
  "plain cfg \<Longrightarrow> init_counters cfg ke ie s = Inr (Ok0, s') \<Longrightarrow> \<exists>m. s' = s\<lparr>mach := m\<rparr>"
  by (auto simp: init_counters_def plain_def Let_def)

definition booted :: "hrp_config \<Rightarrow> 'f init_env \<Rightarrow> ('f, 'd) hrperf \<Rightarrow> ('f, 'd) hrperf \<Rightarrow> bool" where
  "booted cfg ie s s' \<longleftrightarrow>
     hrp_selected_cpus s' = filter (\<lambda>c. c < i_mask_bits ie) (selected_cpus cfg) \<and>
     owns cfg (hrp_selected_cpus s') (per_cpu_buffer s') (live (heap s)) (heap s') \<and>
     (\<forall>c \<in> set (hrp_selected_cpus s'). rb_wf cfg (per_cpu_buffer s' c) \<and> rb_list (per_cpu_buffer s' c) = []) \<and>
     chrdev_region s' \<and> char_dev s' \<and> dev_class s' \<and> device_p s' \<and>
     log_file s' = hrperf_init_log_file (i_filp ie) \<and> instructed_profile_lock s' = instructed_profile_lock s \<and>
     instructed_profile s' = instructed_profile s \<and> hrperf_running s' = hrperf_running s \<and>
     (if instructed_profile s then poller_thread s' = None \<and> logger_thread s' = None \<and> instructed_profile_wq s'
      else poller_thread s' = Some (kthread_run_on (HRP_PMC_POLLER_CPU cfg)) \<and>
           logger_thread s' = Some (kthread_run_on (HRP_PMC_LOGGER_CPU cfg)))"

lemma init_booted:
  assumes "plain cfg" and "HRP_HEAP_ALLOCATED_RB cfg" and "0 < HRP_PMC_BUFFER_SIZE cfg"
    and "heap_wf (heap s)" and "\<And>c. pages (per_cpu_buffer s c) = None"
    and "hrp_pmc_init cfg ke ie s = Inr (Ok0, s')"
  shows "booted cfg ie s s'"
proof -
  have "init_mbm cfg ie s = Inr (Ok0, s)" using assms(1) by (simp add: init_mbm_def plain_def)
  with assms(6) obtain s2 s3 s4 s5 s6 s7 s8 s9 where
    i: "init_tsc cfg ie s = Inr (Ok0, s2)" "init_device ie s2 = Inr (Ok0, s3)" "init_cpus cfg ie s3 = Inr (Ok0, s4)"
    "init_buffers cfg (hrp_selected_cpus s4) s4 = Inr (Ok0, s5)" "init_counters cfg ke ie s5 = Inr (Ok0, s6)"
    "init_poller cfg ie s6 = Inr (Ok0, s7)" "init_log cfg ie s7 = Inr (Ok0, s8)" "init_logger cfg ie s8 = Inr (Ok0, s9)"
    "init_wq ie s9 = Inr (Ok0, s')"
    by (auto simp: hrp_pmc_init_def andThen_Ok)
  obtain c n p where s4: "s4 = s\<lparr>cycles_per_us := c, chrdev_region := True, char_dev := True, dev_class := True, device_p := True,
      hrp_selected_cpus := filter (\<lambda>c. c < i_mask_bits ie) (selected_cpus cfg), N_CPUS := n, N_POLLING_CPUS := p\<rparr>"
    using init_tsc_Ok [OF i(1)] init_device_Ok [OF i(2)] init_cpus_Ok [OF i(3)] by auto
  have "distinct (hrp_selected_cpus s4)" "heap_wf (heap s4)" "\<And>c. pages (per_cpu_buffer s4 c) = None"
    using assms(4,5) by (simp_all add: s4)
  from init_buffers_spec [OF assms(3,2) this] obtain bufs h where s5: "s5 = s4\<lparr>per_cpu_buffer := bufs, heap := h\<rparr>"
    "owns cfg (hrp_selected_cpus s4) bufs (live (heap s4)) h"
    "\<forall>c \<in> set (hrp_selected_cpus s4). rb_wf cfg (bufs c) \<and> rb_list (bufs c) = []"
    using i(4) by auto
  obtain m where s6: "s6 = s5\<lparr>mach := m\<rparr>" using init_counters_Ok [OF assms(1) i(5)] by blast
  have keep: "instructed_profile s6 = instructed_profile s" by (simp add: s4 s5(1) s6)
  have base: "hrp_selected_cpus s6 = filter (\<lambda>c. c < i_mask_bits ie) (selected_cpus cfg)"
    "owns cfg (hrp_selected_cpus s6) (per_cpu_buffer s6) (live (heap s)) (heap s6)"
    "\<forall>c \<in> set (hrp_selected_cpus s6). rb_wf cfg (per_cpu_buffer s6 c) \<and> rb_list (per_cpu_buffer s6 c) = []"
    "chrdev_region s6" "char_dev s6" "dev_class s6" "device_p s6" "instructed_profile_lock s6 = instructed_profile_lock s"
    "hrperf_running s6 = hrperf_running s"
    using s5(2,3) by (simp_all add: s4 s5(1) s6)
  show ?thesis
  proof (cases "instructed_profile s")
    case True
    then have "s' = s6\<lparr>poller_thread := None, log_file := hrperf_init_log_file (i_filp ie), logger_thread := None, instructed_profile_wq := True\<rparr>"
      using i(6-9) keep by (auto simp: init_poller_def init_log_def init_logger_def init_wq_def split: if_splits)
    then show ?thesis using base keep True by (simp add: booted_def)
  next
    case False
    then have "s' = s6\<lparr>poller_thread := Some (kthread_run_on (HRP_PMC_POLLER_CPU cfg)), log_file := hrperf_init_log_file (i_filp ie),
        logger_thread := Some (kthread_run_on (HRP_PMC_LOGGER_CPU cfg))\<rparr>"
      using i(6-9) keep by (auto simp: init_poller_def init_log_def init_logger_def init_wq_def split: option.splits)
    then show ?thesis using base keep False by (simp add: booted_def)
  qed
qed

lemma booted_ok:
  assumes "booted cfg ie s s'" and "\<not> instructed_profile_lock s" and "i_filp ie = Inr f"
    and "HRP_POLL_POLLER_CORE cfg \<longrightarrow> HRP_PMC_POLLER_CPU cfg \<in> set (hrp_selected_cpus s')"
  shows "sys_ok cfg s'"
  using assms selected_cpus_lt
  by (auto simp: booted_def sys_ok_def mod_ok_def kthread_run_on_def hrperf_init_log_file_def split: if_splits)

text \<open>What the calls of \<open>kthread_stop\<close> leave behind when they return.\<close>

lemma wait_keeps: "keepsF s (foldF (wait_step cfg ke) es s)"
proof (rule keepsF_foldF)
  fix e and s :: "('a, 'b) hrperf"
  show "keepsF s (wait_step cfg ke e s)"
    by (cases e) (simp_all add: wait_step_def poller_step_keeps logger_step_keeps keepsF_Inr keeps_other)
qed simp

lemma poller_not_recheck: "th_pc t \<noteq> Recheck \<Longrightarrow> th_pc ((poller_next r ^^ n) t) \<noteq> Recheck"
proof (induction n)
  case (Suc n)
  have "th_pc u \<noteq> Recheck \<Longrightarrow> th_pc (poller_next r u) \<noteq> Recheck" for u
    by (cases "th_pc u") (simp_all add: poller_next_def goto_def)
  then show ?case using Suc by simp
qed simp

definition threads_ok :: "hrp_config \<Rightarrow> ('f, 'd) hrperf \<Rightarrow> bool" where
  "threads_ok cfg s \<longleftrightarrow> mod_ok cfg s \<and> (\<forall>t. poller_thread s = Some t \<longrightarrow> th_pc t \<noteq> Recheck)"

lemma logger_stopped:
  assumes "plain cfg" and "threads_ok cfg s"
  shows "kthread_stop_logger cfg ke es s = Inl Deadlock \<or>
    (\<exists>s'. kthread_stop_logger cfg ke es s = Inr s' \<and> threads_ok cfg s' \<and> keeps s s' \<and> exited (logger_thread s'))"
proof -
  let ?s = "s\<lparr>logger_thread := map_option ask_stop (logger_thread s)\<rparr>"
  have ok: "mod_ok cfg ?s" using assms(2) by (simp add: threads_ok_def)
  from wait_run [OF assms(1) ok, of ke es] obtain s' where s': "foldF (wait_step cfg ke) es ?s = Inr s'" "mod_ok cfg s'"
    "poller_thread s' = map_option (poller_next (hrperf_running s) ^^ poller_moves es) (poller_thread s)" by auto
  have "threads_ok cfg s'" using s'(2,3) assms(2) poller_not_recheck by (auto simp: threads_ok_def)
  moreover have "keeps s ?s" by (simp add: keeps_other)
  then have "keeps s s'" using keepsFD [OF wait_keeps s'(1)] keeps_trans by blast
  ultimately show ?thesis using s'(1) by (simp add: kthread_stop_logger_def)
qed

lemma poller_stopped:
  assumes "plain cfg" and "threads_ok cfg s"
  shows "kthread_stop_poller cfg ke es s = Inl Deadlock \<or>
    (\<exists>s'. kthread_stop_poller cfg ke es s = Inr s' \<and> keeps s s' \<and> exited (poller_thread s') \<and>
       (exited (logger_thread s) \<longrightarrow> exited (logger_thread s')))"
proof -
  let ?s = "s\<lparr>poller_thread := map_option ask_stop (poller_thread s)\<rparr>"
  have ok: "mod_ok cfg ?s"
    using assms(2) by (cases "poller_thread s") (auto simp: threads_ok_def mod_ok_def ask_stop_def)
  from wait_run [OF assms(1) ok, of ke es] obtain s' where s': "foldF (wait_step cfg ke) es ?s = Inr s'"
    "logger_thread s' = map_option (logger_next (hrperf_running s) ^^ logger_moves es) (logger_thread s)" by auto
  have "keeps s ?s" by (simp add: keeps_other)
  then have "keeps s s'" using keepsFD [OF wait_keeps s'(1)] keeps_trans by blast
  moreover have "exited (logger_thread s) \<longrightarrow> exited (logger_thread s')"
    using s'(2) funpow_after [where P = "\<lambda>t. th_pc t = Exited" and k = 0 and f = "logger_next (hrperf_running s)"] exited_next(2)
    by (auto simp: exited_def split: option.splits)
  ultimately show ?thesis using s'(1) by (simp add: kthread_stop_poller_def)
qed

lemma owns_keeps:
  assumes "owns cfg cpus (per_cpu_buffer s) L (heap s)" and "keeps s s'"
  shows "owns cfg cpus (per_cpu_buffer s') L (heap s')"
proof -
  have "rb_res cfg (per_cpu_buffer s' c) = rb_res cfg (per_cpu_buffer s c)"
    "pages_wf (per_cpu_buffer s' c) = pages_wf (per_cpu_buffer s c)" for c
    using assms(2) unfolding keeps_def same_mem_def rb_res_def pages_wf_def by presburger+
  moreover have "heap s' = heap s" using assms(2) by (simp add: keeps_def)
  ultimately show ?thesis using assms(1) unfolding owns_def by presburger
qed

text \<open>Both threads have exited, and the module's memory and its device are returned.\<close>

definition removed :: "(kres \<times> nat) set \<Rightarrow> ('f, 'd) hrperf \<Rightarrow> bool" where
  "removed L s \<longleftrightarrow> live (heap s) = L \<and> \<not> device_p s \<and> \<not> dev_class s \<and> \<not> char_dev s \<and> \<not> chrdev_region s \<and>
     exited (poller_thread s) \<and> exited (logger_thread s)"

lemma cleanup_after_stop:
  assumes "plain cfg" and "HRP_HEAP_ALLOCATED_RB cfg" and "threads_ok cfg s"
    and "owns cfg (hrp_selected_cpus s) (per_cpu_buffer s) L (heap s)" and "keeps s s2"
    and "(if logger_thread s \<noteq> None then kthread_stop_logger cfg ke (fst w) s else Inr s) = Inr s1"
    and "(if poller_thread s1 \<noteq> None then kthread_stop_poller cfg ke (snd w) s1 else Inr s1) = Inr s2"
    and "exited (poller_thread s2)" and "exited (logger_thread s2)"
  shows "\<exists>s'. cleanup cfg ke w s = Inr s' \<and> removed L s'"
proof -
  let ?s3 = "if instructed_profile_wq s2 then s2\<lparr>instructed_profile_wq := False\<rparr> else s2"
  have "keeps s2 ?s3" by (simp add: keeps_other)
  then have "keeps s ?s3" using assms(5) keeps_trans by blast
  then have own: "owns cfg (hrp_selected_cpus ?s3) (per_cpu_buffer ?s3) L (heap ?s3)" and sel: "hrp_selected_cpus ?s3 = hrp_selected_cpus s"
    using owns_keeps [OF assms(4)] unfolding keeps_def by simp_all
  have "distinct (hrp_selected_cpus ?s3)" using assms(3) sel by (simp add: threads_ok_def mod_ok_def)
  from deinit_cpus [OF assms(2) this own] obtain bufs h
    where d: "foldF (deinit_cpu cfg) (hrp_selected_cpus ?s3) ?s3 = Inr (?s3\<lparr>per_cpu_buffer := bufs, heap := h\<rparr>)" "live h = L"
    by blast
  have "cleanup cfg ke w s = Inr (?s3\<lparr>per_cpu_buffer := bufs, heap := h,
      log_file := hrperf_close_log_file (e_close ke) (log_file ?s3), device_p := False, dev_class := False, char_dev := False, chrdev_region := False\<rparr>)"
    using assms(1) unfolding cleanup_def assms(6) bindF_simps assms(7) Let_def d(1) by (simp add: plain_def)
  then show ?thesis using d(2) assms(8,9) by (simp add: removed_def)
qed

lemma cleanup_outcome:
  assumes "plain cfg" and "HRP_HEAP_ALLOCATED_RB cfg" and "threads_ok cfg s"
    and "owns cfg (hrp_selected_cpus s) (per_cpu_buffer s) L (heap s)"
  shows "cleanup cfg ke w s = Inl Deadlock \<or> (\<exists>s'. cleanup cfg ke w s = Inr s' \<and> removed L s')"
proof -
  let ?l = "if logger_thread s \<noteq> None then kthread_stop_logger cfg ke (fst w) s else Inr s"
  consider "?l = Inl Deadlock" | s1 where "?l = Inr s1" "threads_ok cfg s1" "keeps s s1" "exited (logger_thread s1)"
    using logger_stopped [OF assms(1,3), of ke "fst w"] assms(3) by (cases "logger_thread s") (auto simp: exited_def)
  then show ?thesis
  proof cases
    case 1
    then show ?thesis unfolding cleanup_def by simp
  next
    case 2
    let ?p = "if poller_thread s1 \<noteq> None then kthread_stop_poller cfg ke (snd w) s1 else Inr s1"
    consider "?p = Inl Deadlock" | s2 where "?p = Inr s2" "keeps s1 s2" "exited (poller_thread s2)" "exited (logger_thread s2)"
      using poller_stopped [OF assms(1) 2(2), of ke "snd w"] 2(4) by (cases "poller_thread s1") (auto simp: exited_def)
    then show ?thesis
    proof cases
      case 1
      then show ?thesis using 2(1) unfolding cleanup_def by simp
    next
      case (2 s2)
      then show ?thesis
        using cleanup_after_stop [OF assms(1-4), of s2] \<open>?l = Inr s1\<close> keeps_trans [OF \<open>keeps s s1\<close>] by blast
    qed
  qed
qed

lemma cleanup_returns:
  assumes "plain cfg" and "HRP_HEAP_ALLOCATED_RB cfg" and "threads_ok cfg s"
    and "owns cfg (hrp_selected_cpus s) (per_cpu_buffer s) L (heap s)"
    and "(if logger_thread s \<noteq> None then kthread_stop_logger cfg ke (fst w) s else Inr s) = Inr s1"
    and "(if poller_thread s1 \<noteq> None then kthread_stop_poller cfg ke (snd w) s1 else Inr s1) = Inr s2"
  shows "\<exists>s'. cleanup cfg ke w s = Inr s'"
proof -
  have s1: "threads_ok cfg s1" "keeps s s1" "exited (logger_thread s1)"
    using assms(3,5) logger_stopped [OF assms(1,3), of ke "fst w"] by (auto simp: exited_def split: if_splits)
  have "keeps s1 s2" "exited (poller_thread s2)" "exited (logger_thread s2)"
    using assms(6) poller_stopped [OF assms(1) s1(1), of ke "snd w"] s1(3) by (auto simp: exited_def split: if_splits)
  then show ?thesis using cleanup_after_stop [OF assms(1-4) _ assms(5,6)] keeps_trans [OF s1(2)] by blast
qed

text \<open>When the cleanup waits forever and when it returns.\<close>

lemma cleanup_waits:
  assumes "plain cfg" and "threads_ok cfg s"
  shows "in_window s (logger_thread s) \<Longrightarrow> cleanup cfg ke w s = Inl Deadlock"
    and "\<not> in_window s (logger_thread s) \<Longrightarrow> 3 \<le> logger_moves (fst w) \<Longrightarrow>
      \<exists>s1. (if logger_thread s \<noteq> None then kthread_stop_logger cfg ke (fst w) s else Inr s) = Inr s1 \<and>
        (in_window s1 (poller_thread s1) \<longrightarrow> cleanup cfg ke w s = Inl Deadlock) \<and>
        (\<not> in_window s1 (poller_thread s1) \<and> 4 \<le> poller_moves (snd w) \<longrightarrow>
           (\<exists>s2. (if poller_thread s1 \<noteq> None then kthread_stop_poller cfg ke (snd w) s1 else Inr s1) = Inr s2))"
proof -
  have mod: "mod_ok cfg s" using assms(2) by (simp add: threads_ok_def)
  show "in_window s (logger_thread s) \<Longrightarrow> cleanup cfg ke w s = Inl Deadlock"
    using stop_logger [OF assms(1) mod, of _ ke "fst w"] by (cases "logger_thread s") (auto simp: cleanup_def in_window_def)
  assume l: "\<not> in_window s (logger_thread s)" "3 \<le> logger_moves (fst w)"
  let ?l = "if logger_thread s \<noteq> None then kthread_stop_logger cfg ke (fst w) s else Inr s"
  obtain s1 where s1: "?l = Inr s1" "threads_ok cfg s1"
    using stop_logger [OF assms(1) mod, of _ ke "fst w"] logger_stopped [OF assms, of ke "fst w"] l assms(2)
    by (cases "logger_thread s") auto
  have "in_window s1 (poller_thread s1) \<longrightarrow> cleanup cfg ke w s = Inl Deadlock"
    using stop_poller [OF assms(1), of s1 _ ke "snd w"] s1
    by (cases "poller_thread s1") (auto simp: cleanup_def threads_ok_def in_window_def)
  moreover have "\<not> in_window s1 (poller_thread s1) \<and> 4 \<le> poller_moves (snd w) \<longrightarrow>
      (\<exists>s2. (if poller_thread s1 \<noteq> None then kthread_stop_poller cfg ke (snd w) s1 else Inr s1) = Inr s2)"
    using stop_poller [OF assms(1), of s1 _ ke "snd w"] s1(2) by (cases "poller_thread s1") (auto simp: threads_ok_def)
  ultimately show "\<exists>s1. ?l = Inr s1 \<and> (in_window s1 (poller_thread s1) \<longrightarrow> cleanup cfg ke w s = Inl Deadlock) \<and>
        (\<not> in_window s1 (poller_thread s1) \<and> 4 \<le> poller_moves (snd w) \<longrightarrow>
           (\<exists>s2. (if poller_thread s1 \<noteq> None then kthread_stop_poller cfg ke (snd w) s1 else Inr s1) = Inr s2))"
    using s1(1) by blast
qed

text \<open>At any point of a run the module is well formed and owns exactly what it allocated while loading.\<close>

lemma life_owns:
  assumes "plain cfg" and "HRP_HEAP_ALLOCATED_RB cfg" and "0 < HRP_PMC_BUFFER_SIZE cfg" and "appends (e_write ke) contents"
    and "heap_wf (heap s0)" and "\<And>c. pages (per_cpu_buffer s0 c) = None" and "\<not> instructed_profile_lock s0"
    and "HRP_POLL_POLLER_CORE cfg \<longrightarrow> HRP_PMC_POLLER_CPU cfg \<in> set (selected_cpus cfg) \<and> HRP_PMC_POLLER_CPU cfg < i_mask_bits ie"
    and "i_filp ie = Inr f" and "hrp_pmc_init cfg ke ie s0 = Inr (Ok0, s1)" and "sys_run cfg ke s1 es s2"
  shows "sys_ok cfg s2 \<and> owns cfg (hrp_selected_cpus s2) (per_cpu_buffer s2) (live (heap s0)) (heap s2)"
proof -
  have b: "booted cfg ie s0 s1" using init_booted [OF assms(1-3,5,6,10)] .
  have ok: "sys_ok cfg s1" using booted_ok [OF b assms(7,9)] b assms(8) by (auto simp: booted_def)
  have k: "keeps s1 s2" using sys_run_keeps [OF assms(11)] .
  then show ?thesis
    using sys_run_good [OF assms(1,4,11) ok] owns_keeps [OF _ k] b by (auto simp: good_step_def booted_def keeps_def)
qed

text \<open>
  C10. The life of the module: if its initialisation succeeds and the log file could be opened,
  then after every run from there the removal of the module, with the threads going on in any order
  while it waits for them, either is still waiting for a thread or has ended both threads, freed exactly
  the memory the module had allocated and unregistered its device. It waits forever if the logger
  is in its window before \<open>schedule\<close> when the removal begins, or the poller when the logger has exited;
  otherwise it ends, once the logger has made three steps in the first wait and the poller four in
  the second.
\<close>

theorem module_life_cycle:
  assumes "plain cfg" and "HRP_HEAP_ALLOCATED_RB cfg" and "0 < HRP_PMC_BUFFER_SIZE cfg" and "appends (e_write ke) contents"
    and "heap_wf (heap s0)" and "\<And>c. pages (per_cpu_buffer s0 c) = None" and "\<not> instructed_profile_lock s0"
    and "HRP_POLL_POLLER_CORE cfg \<longrightarrow> HRP_PMC_POLLER_CPU cfg \<in> set (selected_cpus cfg) \<and> HRP_PMC_POLLER_CPU cfg < i_mask_bits ie"
    and "i_filp ie = Inr f" and "hrp_pmc_init cfg ke ie s0 = Inr (Ok0, s1)"
    and "sys_run cfg ke s1 es s2"
  shows "(hrp_pmc_exit cfg ke w s2 = Inl Deadlock \<or>
      (\<exists>s3. hrp_pmc_exit cfg ke w s2 = Inr s3 \<and> live (heap s3) = live (heap s0) \<and>
         \<not> device_p s3 \<and> \<not> dev_class s3 \<and> \<not> char_dev s3 \<and> \<not> chrdev_region s3 \<and>
         exited (poller_thread s3) \<and> exited (logger_thread s3))) \<and>
    (in_window s2 (logger_thread s2) \<longrightarrow> hrp_pmc_exit cfg ke w s2 = Inl Deadlock) \<and>
    (\<not> in_window s2 (logger_thread s2) \<and> 3 \<le> logger_moves (fst w) \<longrightarrow>
      (\<exists>sl. (if logger_thread s2 \<noteq> None then kthread_stop_logger cfg ke (fst w) s2 else Inr s2) = Inr sl \<and>
        (in_window sl (poller_thread sl) \<longrightarrow> hrp_pmc_exit cfg ke w s2 = Inl Deadlock) \<and>
        (\<not> in_window sl (poller_thread sl) \<and> 4 \<le> poller_moves (snd w) \<longrightarrow> (\<exists>s3. hrp_pmc_exit cfg ke w s2 = Inr s3))))"
proof -
  have own: "owns cfg (hrp_selected_cpus s2) (per_cpu_buffer s2) (live (heap s0)) (heap s2)" and ok: "threads_ok cfg s2"
    using life_owns [OF assms] by (simp_all add: sys_ok_def threads_ok_def)
  note outcome = cleanup_outcome [OF assms(1,2) ok own, of ke w]
  have ends: "\<exists>s3. cleanup cfg ke w s2 = Inr s3"
    if "(if logger_thread s2 \<noteq> None then kthread_stop_logger cfg ke (fst w) s2 else Inr s2) = Inr sl"
      "(if poller_thread sl \<noteq> None then kthread_stop_poller cfg ke (snd w) sl else Inr sl) = Inr sp" for sl sp
    using cleanup_returns [OF assms(1,2) ok own that] by blast
  show ?thesis
    unfolding hrp_pmc_exit_def
    using outcome cleanup_waits [OF assms(1) ok, where ke = ke and w = w] ends unfolding removed_def by blast
qed

definition dev :: "('f, 'd) hrperf \<Rightarrow> bool \<times> bool \<times> bool \<times> bool" where
  "dev s = (device_p s, dev_class s, char_dev s, chrdev_region s)"

definition keeps_dev :: "('f, 'd) init_step \<Rightarrow> bool" where
  "keeps_dev a \<longleftrightarrow> (\<forall>s r s'. a s = Inr (r, s') \<longrightarrow> dev s' = dev s)"

lemma keeps_dev_andThen: "keeps_dev a \<Longrightarrow> keeps_dev b \<Longrightarrow> keeps_dev (andThen a b)"
  unfolding keeps_dev_def by (fastforce simp: andThen_Inr)

lemma init_buffers_dev: "init_buffers cfg cpus s = Inr (r, s') \<Longrightarrow> dev s' = dev s"
proof (induction cpus arbitrary: s)
  case (Cons c cpus)
  then show ?case by (fastforce simp: bindF_eq_Inr Let_def dev_def split: if_splits)
qed simp

lemma later_steps_keep_dev:
  "keeps_dev (init_cpus cfg ie)" "keeps_dev (\<lambda>s. init_buffers cfg (hrp_selected_cpus s) s)"
  "keeps_dev (init_counters cfg ke ie)" "keeps_dev (init_poller cfg ie)" "keeps_dev (init_log cfg ie)"
  "keeps_dev (init_logger cfg ie)" "keeps_dev (init_wq ie)"
  unfolding keeps_dev_def
  by (auto simp: init_cpus_def init_counters_def init_poller_def init_log_def init_logger_def init_wq_def dev_def
      Let_def bindF_eq_Inr dest!: init_buffers_dev split: if_splits option.splits)

lemma init_tsc_result:
  "\<exists>r c. init_tsc cfg ie s = Inr (r, s\<lparr>cycles_per_us := c\<rparr>) \<and>
     (r = Ok0 \<longleftrightarrow> (HRP_USE_TSC cfg \<longrightarrow> fst (hrp_calibrate_tsc (i_tsc ie) (cycles_per_us s)) \<noteq> 0))"
  by (cases "hrp_calibrate_tsc (i_tsc ie) (cycles_per_us s)")
    (auto simp: init_tsc_def intro: exI [of _ "cycles_per_us s"])

text \<open>
  C27. What a failed initialisation leaves behind: once the device has been created, every later
  error return leaves the device, its class, the character device and its number registered,
  although the module is not loaded; an earlier error return leaves none of them.
\<close>

theorem init_failure_leaves_device:
  assumes "\<not> HRP_USE_RDT cfg" and "hrp_pmc_init cfg ke ie s = Inr (Neg e, s')"
    and "\<not> device_p s" and "\<not> dev_class s" and "\<not> char_dev s" and "\<not> chrdev_region s"
  shows "let created = (HRP_USE_TSC cfg \<longrightarrow> fst (hrp_calibrate_tsc (i_tsc ie) (cycles_per_us s)) \<noteq> 0) \<and>
           i_register ie \<and> i_cdev_add ie \<and> i_class ie = None \<and> i_device ie = None
    in device_p s' = created \<and> dev_class s' = created \<and> char_dev s' = created \<and> chrdev_region s' = created"
proof -
  define rest where "rest = andThen (init_cpus cfg ie) (andThen (\<lambda>s. init_buffers cfg (hrp_selected_cpus s) s)
         (andThen (init_counters cfg ke ie) (andThen (init_poller cfg ie) (andThen (init_log cfg ie)
           (andThen (init_logger cfg ie) (init_wq ie))))))"
  have rest: "keeps_dev rest" unfolding rest_def by (intro keeps_dev_andThen later_steps_keep_dev)
  have init: "andThen (init_tsc cfg ie) (andThen (init_device ie) rest) s = Inr (Neg e, s')"
    using assms(1,2) by (simp add: hrp_pmc_init_def andThen_def init_mbm_def rest_def)
  obtain r1 c where tsc: "init_tsc cfg ie s = Inr (r1, s\<lparr>cycles_per_us := c\<rparr>)"
    "r1 = Ok0 \<longleftrightarrow> (HRP_USE_TSC cfg \<longrightarrow> fst (hrp_calibrate_tsc (i_tsc ie) (cycles_per_us s)) \<noteq> 0)"
    using init_tsc_result by blast
  show ?thesis
  proof (cases r1)
    case (Neg e')
    then show ?thesis using init tsc assms(3-6) by (auto simp: andThen_def)
  next
    case Ok0
    then have d: "andThen (init_device ie) rest (s\<lparr>cycles_per_us := c\<rparr>) = Inr (Neg e, s')" using init tsc(1) by (simp add: andThen_def)
    show ?thesis
    proof (cases "i_register ie \<and> i_cdev_add ie \<and> i_class ie = None \<and> i_device ie = None")
      case True
      then have "rest (s\<lparr>cycles_per_us := c, chrdev_region := True, char_dev := True, dev_class := True, device_p := True\<rparr>) = Inr (Neg e, s')"
        using d by (simp add: andThen_def init_device_def)
      then show ?thesis using rest True Ok0 tsc(2) unfolding keeps_dev_def by (auto simp: dev_def)
    next
      case False
      then show ?thesis
        using d assms(3-6) by (auto simp: andThen_def init_device_def Let_def split: if_splits option.splits)
    qed
  qed
qed

section \<open>Which CPUs are programmed\<close>

definition programmed :: "(u32 \<times> u64) list \<Rightarrow> nat \<Rightarrow> machine \<Rightarrow> bool" where
  "programmed ws c m \<longleftrightarrow> (\<forall>(a, v) \<in> set ws. msr m c a = v)"

lemma esel_programs:
  assumes "pmc_writes cfg = Some ws"
  shows "programmed ws cpu (hrperf_pmc_enable_and_esel cfg cpu m)"
    and "programmed ws c m \<Longrightarrow> programmed ws c (hrperf_pmc_enable_and_esel cfg cpu m)"
    and "c \<noteq> cpu \<Longrightarrow> msr (hrperf_pmc_enable_and_esel cfg cpu m) c = msr m c"
  using assms distinct_pmc_writes [OF assms]
  by (auto simp: programmed_def hrperf_pmc_enable_and_esel_def msr_wrmsrl_all fun_eq_iff)

lemma fold_programs:
  assumes "pmc_writes cfg = Some ws"
  shows "if c \<in> set cpus then programmed ws c (fold (hrperf_pmc_enable_and_esel cfg) cpus m)
    else msr (fold (hrperf_pmc_enable_and_esel cfg) cpus m) c = msr m c"
proof -
  have "programmed ws c (fold (hrperf_pmc_enable_and_esel cfg) cpus m)" if "programmed ws c m" for cpus m
    using that by (induction cpus arbitrary: m) (simp_all add: esel_programs(2) [OF assms])
  then show ?thesis
    by (induction cpus arbitrary: m) (auto simp: esel_programs(1,3) [OF assms])
qed

lemma rdpmc_msr: "msr (fold enable_rdpmc_in_user_space cpus m) = msr m"
  by (induction cpus arbitrary: m) (simp_all add: enable_rdpmc_in_user_space_def)

text \<open>
  C26. Loading the module programs the counters of the selected online CPUs, with selections that count
  in user and kernel mode, but not of the CPU that runs the initialisation: a cross call leaves the
  calling CPU out. If that CPU is selected, it is polled like the others while its counters are as before.
\<close>

theorem init_programs_other_cpus:
  assumes "plain cfg" and "\<not> HRP_POLL_POLLER_CORE cfg" and "pmc_writes cfg = Some ws" and "init_counters cfg ke ie s = Inr (r, s')"
  shows "if c \<in> set (hrp_selected_cpus s) \<and> c \<in> set (cpu_online (mach s)) \<and> c \<noteq> i_cpu ie
    then (\<forall>a \<in> perfevtsels. counts_everywhere (msr (mach s') c a)) \<and> msr (mach s') c MSR_IA32_GLOBAL_CTRL = GLOBAL_CTRL_VALUE
    else msr (mach s') c = msr (mach s) c"
proof -
  let ?t = "smp_targets (mach s) (i_cpu ie) (hrp_selected_cpus s)"
  have t: "c \<in> set ?t \<longleftrightarrow> c \<in> set (hrp_selected_cpus s) \<and> c \<in> set (cpu_online (mach s)) \<and> c \<noteq> i_cpu ie"
    by (auto simp: smp_targets_def)
  have m: "msr (mach s') = msr (fold (hrperf_pmc_enable_and_esel cfg) ?t (mach s))"
    using assms(1,2,4) by (auto simp: init_counters_def plain_def Let_def rdpmc_msr)
  have "(\<forall>a \<in> perfevtsels. counts_everywhere (msr (mach s') c a)) \<and> msr (mach s') c MSR_IA32_GLOBAL_CTRL = GLOBAL_CTRL_VALUE"
    if "programmed ws c (mach s')"
  proof -
    have "(MSR_IA32_GLOBAL_CTRL, GLOBAL_CTRL_VALUE) \<in> set ws"
      using assms(3) by (auto simp: pmc_writes_def split: if_splits option.splits)
    moreover have "counts_everywhere (msr (mach s') c a)" if "a \<in> perfevtsels" for a
      using pmc_writes_selects_all [OF assms(3) that] pmc_writes_counting [OF assms(3) _ that] \<open>programmed ws c (mach s')\<close>
      by (auto simp: programmed_def)
    ultimately show ?thesis using that by (auto simp: programmed_def)
  qed
  then show ?thesis using fold_programs [OF assms(3), of c ?t "mach s"] unfolding t programmed_def m by auto
qed

section \<open>Witnesses\<close>

text \<open>Instructed mode on three CPUs, one entry buffered on each, then one poll-and-log command.\<close>

definition st3i :: "(u8 list, u64 \<Rightarrow> u32) hrperf" where
  "st3i = st3\<lparr>per_cpu_buffer := bufs3\<rparr>"

lemma st3i_ok: "sys_ok cfg4 st3i"
  by (simp add: sys_ok_def mod_ok_def st3i_def st3_def bufs3_contents cfg4_simps)

lemma instructed_run:
  fixes ie :: ioctl_env
  assumes "plain cfg" and "appends (e_write ke) contents" and "sys_ok cfg s" and "instructed_profile s" and "instructed_profile_wq s"
  shows "\<exists>s'. sys_run cfg ke s (polled cfg (o_poll ie) s) s'"
proof -
  have "\<exists>s'. instructed_poll_and_log cfg ke (o_poll ie) (HRP_PMC_POLLER_CPU cfg) s = Inr s'"
    using poll_good [OF assms(1,3), of ke "o_poll ie" contents] log_good [OF assms(2), of cfg]
    unfolding instructed_poll_and_log_def instructed_poll_op_def instructed_log_op_def good_step_def by fastforce
  then obtain s' where "hrperf_ioctl cfg ke ie HRP_PMC_IOC_INSTRUCTED_POLL_AND_LOG s = Inr (Ok0, [], s')"
    using assms(4,5) by (auto simp: ioctl_instructed no_reply_def enqueue_instructed_profile_op_def)
  from sys_run.step [OF sys_run.start sys_step.ioctl [OF this]] show ?thesis by (auto simp: ioctl_entries_def)
qed

lemma st3i_run: "\<exists>s'. sys_run cfg4 ke3 st3i (polled cfg4 pe3 st3i) s'"
  using instructed_run [OF cfg4_simps(1) ke3_appends st3i_ok, of ie3] by (simp add: ie3_def st3i_def st3_def)

theorem run_conserves_entries_witness:
  "\<exists>s' f' log kept. sys_run cfg4 ke3 st3i (polled cfg4 pe3 st3i) s' \<and> log_file s' = Some f' \<and>
     f' = concat (map (entry_bytes cfg4) log) \<and>
     mine 0 log @ rb_list (per_cpu_buffer s' 0) = zero_entry # kept \<and> kept = mine 0 (polled cfg4 pe3 st3i)"
proof -
  obtain s' where r: "sys_run cfg4 ke3 st3i (polled cfg4 pe3 st3i) s'" using st3i_run by blast
  have i: "log_file st3i = Some []" "0 \<in> set (hrp_selected_cpus st3i)" "rb_list (per_cpu_buffer st3i 0) = [zero_entry]"
    by (simp_all add: st3i_def st3_def bufs3_contents zero_entry_def)
  have "polled_cpus cfg4 1 st3i = [0, 2]"
    by (simp add: polled_cpus_def smp_targets_def st3i_def st3_def mach3_def cfg4_def config_h_def)
  then have "length (mine 0 (polled cfg4 pe3 st3i)) = 1"
    by (simp add: polled_def cfg4_simps mine_def poll_entry_def)
  with run_conserves_entries [OF cfg4_simps(1) ke3_appends st3i_ok r] r i show ?thesis
    by (fastforce simp: rb4_contents)
qed

theorem run_never_faults_witness:
  "\<exists>s'. sys_run cfg4 ke3 st3i (polled cfg4 pe3 st3i) s' \<and> sys_ok cfg4 s' \<and> (\<exists>t. poller_step cfg4 ke3 pe3 s' = Inr t)"
proof -
  obtain s' where r: "sys_run cfg4 ke3 st3i (polled cfg4 pe3 st3i) s'" using st3i_run by blast
  show ?thesis using run_never_faults [OF cfg4_simps(1) ke3_appends st3i_ok r, of pe3] r by blast
qed

text \<open>Loading the module on a machine with three CPUs.\<close>

definition st0 :: "bool \<Rightarrow> kheap \<Rightarrow> (u8 list, u64 \<Rightarrow> u32) hrperf" where
  "st0 b h = st3\<lparr>instructed_profile := b, instructed_profile_wq := False, per_cpu_buffer := (\<lambda>_. static_rb cfg4),
     log_file := None, chrdev_region := False, char_dev := False, dev_class := False, device_p := False, heap := h\<rparr>"

definition init3 :: "u8 list init_env" where
  "init3 = \<lparr>i_cpu = 0, i_cpuid = cpuid2, i_tsc = \<lparr>start_lo = 0, start_hi = 0, end_lo = 2000, end_hi = 0, start_time = 0, end_time = 1000\<rparr>, i_register = True, i_cdev_add = True, i_class = None,
     i_device = None, i_nr_cpus = 256, i_mask_bits = 3, i_pci = [], i_nodes = 1, i_poller = None, i_filp = Inr [],
     i_logger = None, i_wq = True\<rparr>"

lemma selected_below:
  assumes "k \<le> 256"
  shows "filter (\<lambda>c. c < k) (selected_cpus cfg) =
    filter (\<lambda>i. i div 64 < length (hrp_pmc_cpu_selection_mask_bits cfg) \<and>
                 bit (hrp_pmc_cpu_selection_mask_bits cfg ! (i div 64)) (i mod 64)) [0..<k]"
proof -
  have "[0..<256] = [0..<k] @ [k..<256]" using assms upt_add_eq_append [of 0 k "256 - k"] by simp
  then show ?thesis by (auto simp: selected_cpus_def HRP_PMC_CPU_SELECTION_MASK_BITS_def filter_empty_conv intro!: filter_cong)
qed

lemma selected3: "filter (\<lambda>c. c < 3) (selected_cpus cfg4) = [0, 1, 2]"
proof -
  have "bit (0x00FFFFFFFFFFFFFF :: u64) i" if "i < 3" for i
  proof -
    have m: "(0x00FFFFFFFFFFFFFF :: u64) = Bit_Operations.mask 56" by (simp add: mask_eq_exp_minus_1)
    show ?thesis unfolding m using that by (simp add: bit_mask_iff)
  qed
  then show ?thesis by (simp add: selected_below cfg4_def config_h_def upt_rec)
qed

lemma init3_tsc: "hrp_calibrate_tsc (i_tsc init3) c = (2000, 2000)"
  by (simp add: hrp_calibrate_tsc_def rdtsc_value_def rdtscp_value_def init3_def)

lemma init3_start: "init_tsc cfg4 init3 (st0 b h) = Inr (Ok0, st0 b h)"
  "init_device init3 (st0 b h) = Inr (Ok0, (st0 b h)\<lparr>chrdev_region := True, char_dev := True, dev_class := True, device_p := True\<rparr>)"
  "init_cpus cfg4 init3 s = Inr (Ok0, s\<lparr>hrp_selected_cpus := [0, 1, 2], N_CPUS := 3, N_POLLING_CPUS := 2\<rparr>)"
proof -
  have m: "i_mask_bits init3 = 3" "i_nr_cpus init3 = 256" by (simp_all add: init3_def)
  show "init_tsc cfg4 init3 (st0 b h) = Inr (Ok0, st0 b h)"
    by (simp add: init_tsc_def init3_tsc cfg4_def config_h_def st0_def st3_def)
  show "init_device init3 (st0 b h) = Inr (Ok0, (st0 b h)\<lparr>chrdev_region := True, char_dev := True, dev_class := True, device_p := True\<rparr>)"
    by (simp add: init_device_def init3_def)
  show "init_cpus cfg4 init3 s = Inr (Ok0, s\<lparr>hrp_selected_cpus := [0, 1, 2], N_CPUS := 3, N_POLLING_CPUS := 2\<rparr>)"
    by (simp add: init_cpus_def m selected3 cfg4_simps HRP_PMC_CPU_SELECTION_MASK_BITS_def)
qed

definition st4 :: "bool \<Rightarrow> kheap \<Rightarrow> (u8 list, u64 \<Rightarrow> u32) hrperf" where
  "st4 b h = (st0 b h)\<lparr>chrdev_region := True, char_dev := True, dev_class := True, device_p := True,
     hrp_selected_cpus := [0, 1, 2], N_CPUS := 3, N_POLLING_CPUS := 2\<rparr>"

definition init_rest :: "(u8 list, u64 \<Rightarrow> u32) init_step" where
  "init_rest = andThen (init_counters cfg4 ke3 init3) (andThen (init_poller cfg4 init3) (andThen (init_log cfg4 init3)
      (andThen (init_logger cfg4 init3) (init_wq init3))))"

lemma init3_prefix: "hrp_pmc_init cfg4 ke3 init3 (st0 b h) = andThen (init_buffers cfg4 [0, 1, 2]) init_rest (st4 b h)"
proof -
  have "init_mbm cfg4 init3 s = Inr (Ok0, s)" for s :: "(u8 list, u64 \<Rightarrow> u32) hrperf"
    using cfg4_simps(1) by (simp add: plain_def init_mbm_def)
  moreover have "hrp_selected_cpus (st4 b h) = [0, 1, 2]" by (simp add: st4_def)
  moreover have "init_cpus cfg4 init3 ((st0 b h)\<lparr>chrdev_region := True, char_dev := True, dev_class := True, device_p := True\<rparr>) = Inr (Ok0, st4 b h)"
    by (simp add: init3_start(3) st4_def)
  ultimately show ?thesis by (simp add: hrp_pmc_init_def andThen_def init3_start(1,2) init_rest_def del: init_buffers.simps)
qed

lemma st4_fields: "per_cpu_buffer (st4 b h) = (\<lambda>_. static_rb cfg4)" "heap (st4 b h) = h"
  by (simp_all add: st4_def st0_def)

lemmas init_buffers_eval = init_ring_buffer_def hrp_alloc_rb_buf_def kalloc_def cfg4_def config_h_def Let_def static_rb_def

lemma st0_init: "\<exists>s1. hrp_pmc_init cfg4 ke3 init3 (st0 b heap0) = Inr (Ok0, s1)"
proof -
  have "\<exists>s'. init_rest s = Inr (Ok0, s')" for s
    using cfg4_simps(1) by (cases "instructed_profile s")
      (simp_all add: andThen_def init_counters_def init_poller_def init_log_def init_logger_def init_wq_def init3_def
        plain_def Let_def init_rest_def)
  moreover have "\<exists>s'. init_buffers cfg4 [0, 1, 2] (st4 b heap0) = Inr (Ok0, s')"
    by (simp add: st4_fields heap0_def init_buffers_eval)
  ultimately show ?thesis unfolding init3_prefix andThen_Ok by blast
qed

lemma init3_enomem: "\<exists>s'. hrp_pmc_init cfg4 ke3 init3 (st0 b (heap_up_to 1)) = Inr (Neg ENOMEM, s')"
proof -
  have "\<exists>s'. init_buffers cfg4 [0, 1, 2] (st4 b (heap_up_to 1)) = Inr (Neg ENOMEM, s')"
    by (simp add: st4_fields heap_up_to_def init_buffers_eval)
  then show ?thesis unfolding init3_prefix andThen_Inr by blast
qed

lemma st0_pre:
  "heap_wf (heap (st0 False heap0))" "\<And>c. pages (per_cpu_buffer (st0 False heap0) c) = None" "\<not> instructed_profile_lock (st0 False heap0)"
  "HRP_POLL_POLLER_CORE cfg4 \<longrightarrow> HRP_PMC_POLLER_CPU cfg4 \<in> set (selected_cpus cfg4) \<and> HRP_PMC_POLLER_CPU cfg4 < i_mask_bits init3"
  "i_filp init3 = Inr []" "0 < HRP_PMC_BUFFER_SIZE cfg4" "live (heap (st0 False heap0)) = {}" "\<not> instructed_profile (st0 False heap0)"
  by (simp_all add: st0_def st3_def heap0_def heap_wf_def static_rb_def init3_def cfg4_simps)

text \<open>The removal of the module that was just loaded: each thread exits while it is waited for.\<close>

definition wait3 :: "wait_event list \<times> wait_event list" where
  "wait3 = ([W_Logger, W_Logger, W_Logger], [W_Poller pe3, W_Poller pe3, W_Logger, W_Poller pe3, W_Poller pe3])"

lemma wait3_moves: "3 \<le> logger_moves (fst wait3)" "4 \<le> poller_moves (snd wait3)" "poller_moves (fst wait3) = 0"
  by (simp_all add: wait3_def logger_moves_def poller_moves_def)

lemma st0_windows:
  assumes "hrp_pmc_init cfg4 ke3 init3 (st0 False heap0) = Inr (Ok0, s1)"
  shows "\<not> in_window s1 (logger_thread s1)"
    and "(if logger_thread s1 \<noteq> None then kthread_stop_logger cfg4 ke3 (fst wait3) s1 else Inr s1) = Inr sl \<Longrightarrow> \<not> in_window sl (poller_thread sl)"
proof -
  have t: "poller_thread s1 = Some (kthread_run_on (HRP_PMC_POLLER_CPU cfg4))" "logger_thread s1 = Some (kthread_run_on (HRP_PMC_LOGGER_CPU cfg4))"
    using init_booted [OF cfg4_simps(1,4) st0_pre(6,1,2) assms] st0_pre(8) by (auto simp: booted_def)
  then show w: "\<not> in_window s1 (logger_thread s1)" by (simp add: in_window_def kthread_run_on_def)
  have "mod_ok cfg4 s1"
    using life_owns [OF cfg4_simps(1,4) st0_pre(6) ke3_appends st0_pre(1-5) assms sys_run.start] by (simp add: sys_ok_def)
  from stop_logger [OF cfg4_simps(1) this t(2), of ke3 "fst wait3"]
  show "(if logger_thread s1 \<noteq> None then kthread_stop_logger cfg4 ke3 (fst wait3) s1 else Inr s1) = Inr sl \<Longrightarrow> \<not> in_window sl (poller_thread sl)"
    using w t wait3_moves by (auto simp: in_window_def kthread_run_on_def)
qed

lemma st0_exit:
  assumes "hrp_pmc_init cfg4 ke3 init3 (st0 False heap0) = Inr (Ok0, s1)"
  shows "\<exists>s3. hrp_pmc_exit cfg4 ke3 wait3 s1 = Inr s3"
proof -
  have own: "owns cfg4 (hrp_selected_cpus s1) (per_cpu_buffer s1) (live (heap (st0 False heap0))) (heap s1)" and ok: "threads_ok cfg4 s1"
    using life_owns [OF cfg4_simps(1,4) st0_pre(6) ke3_appends st0_pre(1-5) assms sys_run.start] by (simp_all add: sys_ok_def threads_ok_def)
  show ?thesis
    using cleanup_waits(2) [OF cfg4_simps(1) ok st0_windows(1) [OF assms] wait3_moves(1), of ke3] st0_windows(2) [OF assms] wait3_moves(2)
      cleanup_returns [OF cfg4_simps(1,4) ok own]
    unfolding hrp_pmc_exit_def by blast
qed

theorem module_life_cycle_witness:
  "\<exists>s1 s3. hrp_pmc_init cfg4 ke3 init3 (st0 False heap0) = Inr (Ok0, s1) \<and> hrp_pmc_exit cfg4 ke3 wait3 s1 = Inr s3 \<and>
     live (heap s3) = {} \<and> \<not> device_p s3"
proof -
  obtain s1 where i: "hrp_pmc_init cfg4 ke3 init3 (st0 False heap0) = Inr (Ok0, s1)" using st0_init by blast
  note life = module_life_cycle [OF cfg4_simps(1,4) st0_pre(6) ke3_appends st0_pre(1-5) i sys_run.start, of wait3]
  obtain s3 where "hrp_pmc_exit cfg4 ke3 wait3 s1 = Inr s3" using life st0_windows [OF i] wait3_moves by blast
  then show ?thesis using life i st0_pre(7) by auto
qed

theorem init_failure_leaves_device_witness:
  "\<exists>s'. hrp_pmc_init cfg4 ke3 init3 (st0 False (heap_up_to 1)) = Inr (Neg ENOMEM, s') \<and> device_p s' \<and> chrdev_region s'"
proof -
  obtain s' where i: "hrp_pmc_init cfg4 ke3 init3 (st0 False (heap_up_to 1)) = Inr (Neg ENOMEM, s')" using init3_enomem by blast
  have pre: "\<not> HRP_USE_RDT cfg4" "\<not> device_p (st0 False h)" "\<not> dev_class (st0 False h)" "\<not> char_dev (st0 False h)" "\<not> chrdev_region (st0 False h)" for h
    using cfg4_simps(1) by (simp_all add: plain_def st0_def)
  have "i_register init3" "i_cdev_add init3" "i_class init3 = None" "i_device init3 = None" by (simp_all add: init3_def)
  with init_failure_leaves_device [OF pre(1) i pre(2-5)] i show ?thesis by (auto simp: init3_tsc Let_def)
qed

text \<open>CPU 0 loads the module: CPU 2 is programmed, CPU 0 is not, and both are polled.\<close>

theorem init_programs_other_cpus_witness:
  "\<exists>s'. init_counters cfg4 ke3 init3 st3 = Inr (Ok0, s') \<and> msr (mach s') 2 MSR_IA32_GLOBAL_CTRL = GLOBAL_CTRL_VALUE \<and>
     msr (mach s') 0 = msr (mach st3) 0 \<and> set (polled_cpus cfg4 1 st3) = {0, 2}"
proof -
  obtain ws where ws: "pmc_writes cfg4 = Some ws" by (simp add: pmc_writes_def cfg4_def config_h_def)
  obtain m where i: "init_counters cfg4 ke3 init3 st3 = Inr (Ok0, st3\<lparr>mach := m\<rparr>)"
    using cfg4_simps(1) by (simp add: init_counters_def plain_def Let_def)
  have "2 \<in> set (cpu_online (mach st3))" "i_cpu init3 = 0" by (simp_all add: st3_simps mach3_def init3_def)
  then show ?thesis
    using init_programs_other_cpus [OF cfg4_simps(1,2) ws i, of 2] init_programs_other_cpus [OF cfg4_simps(1,2) ws i, of 0] i
    by (simp add: st3_simps st3_polled del: One_nat_def)
qed

end
