(* ===== verification/User_Api.thy ===== *)
theory User_Api
  imports System
begin

text \<open>
  The user-space side of the control interface: the wrappers of \<open>src/workloads/hrperf_api.h\<close>, the
  older ones of \<open>src/workloads/hrperf_control.h\<close> and \<open>src/src/hrperf_api.h\<close>, and the tools built on them.
  A process has a table of open file descriptors; an \<open>ioctl\<close> on a descriptor of the
  device is the command handler of the module. The theory shows that a wrapper is one command and
  leaves no descriptor behind, what the values handed back are, and how far one call reaches:
  from the wrapper to the bytes of the log file.
\<close>

section \<open>Descriptors\<close>

text \<open>What a table of descriptors promises: a descriptor is fresh and is given back once.\<close>

locale descriptor_table =
  fixes lookup :: "'t \<Rightarrow> int \<Rightarrow> 'o option"
    and alloc :: "'o \<Rightarrow> 't \<Rightarrow> int \<times> 't"
    and release :: "int \<Rightarrow> 't \<Rightarrow> 't option"
  assumes alloc_fresh: "alloc x t = (fd, t') \<Longrightarrow> 0 \<le> fd \<and> lookup t fd = None \<and> lookup t' fd = Some x"
    and release_alloc: "alloc x t = (fd, t') \<Longrightarrow> release fd t' = Some t"
    and release_closed: "lookup t fd = None \<longleftrightarrow> release fd t = None"
    and lookup_negative: "fd < 0 \<Longrightarrow> lookup t fd = None"
begin

lemma alloc_release:
  obtains fd t' where "alloc x t = (fd, t')" "\<not> fd < 0" "lookup t' fd = Some x" "release fd t' = Some t" "release fd t = None"
proof -
  obtain fd t' where a: "alloc x t = (fd, t')" by fastforce
  then show thesis
    using that [of fd t'] alloc_fresh [OF a] release_alloc [OF a] release_closed [of t fd] by auto
qed

lemma release_negative: "fd < 0 \<Longrightarrow> release fd t = None"
  using lookup_negative release_closed by blast

end

datatype fobj = HrperfDevice | OtherFile nat

type_synonym fd_table = "(int \<times> fobj) list"

definition lookup_fd :: "fd_table \<Rightarrow> int \<Rightarrow> fobj option" where
  "lookup_fd t fd = (if fd < 0 then None else map_of t fd)"

text \<open>\<open>open\<close> hands out the lowest descriptor that is not in use.\<close>

definition lowest_fd :: "fd_table \<Rightarrow> int" where
  "lowest_fd t = hd (filter (\<lambda>n. n \<notin> fst ` set t) (map int [0..<Suc (length t)]))"

definition alloc_fd :: "fobj \<Rightarrow> fd_table \<Rightarrow> int \<times> fd_table" where
  "alloc_fd x t = (lowest_fd t, (lowest_fd t, x) # t)"

definition release_fd :: "int \<Rightarrow> fd_table \<Rightarrow> fd_table option" where
  "release_fd fd t = (if lookup_fd t fd = None then None else Some (filter (\<lambda>(n, x). n \<noteq> fd) t))"

lemma lowest_fd: "0 \<le> lowest_fd t \<and> lowest_fd t \<notin> fst ` set t"
proof -
  let ?free = "filter (\<lambda>n. n \<notin> fst ` set t) (map int [0..<Suc (length t)])"
  have "?free \<noteq> []"
  proof
    assume "?free = []"
    then have "int ` {0..<Suc (length t)} \<subseteq> fst ` set t" unfolding filter_empty_conv by (auto simp del: upt_Suc)
    then have "card (int ` {0..<Suc (length t)}) \<le> card (fst ` set t)" by (simp add: card_mono)
    moreover have "card (fst ` set t) \<le> length t" by (metis card_image_le card_length finite_set le_trans)
    ultimately show False by (simp add: card_image)
  qed
  then have "lowest_fd t \<in> set ?free" unfolding lowest_fd_def by (rule hd_in_set)
  then show ?thesis unfolding set_filter by (auto simp del: upt_Suc)
qed

interpretation fdt: descriptor_table lookup_fd alloc_fd release_fd
proof
  fix x t fd t'
  assume a: "alloc_fd x t = (fd, t')"
  then have fd: "0 \<le> fd" "fd \<notin> fst ` set t" "t' = (fd, x) # t" using lowest_fd [of t] by (auto simp: alloc_fd_def)
  show "0 \<le> fd \<and> lookup_fd t fd = None \<and> lookup_fd t' fd = Some x"
    using fd by (auto simp: lookup_fd_def map_of_eq_None_iff)
  have "filter (\<lambda>(n, x). n \<noteq> fd) t = t" using fd(2) by (force intro!: filter_True)
  then show "release_fd fd t' = Some t" using fd by (simp add: release_fd_def lookup_fd_def)
qed (auto simp: release_fd_def lookup_fd_def)

section \<open>System calls\<close>

text \<open>
  A process: the module behind the device, its descriptors, and how often it closed a descriptor
  that was not open. \<open>a_open\<close> says whether the kernel lets it open the device, if there is one.
\<close>

record ('f, 'd) process =
  kern :: "('f, 'd) hrperf"
  fds :: fd_table
  bad_closes :: nat

record api_env =
  a_open :: bool
  a_ioctl :: ioctl_env

definition open_hrperf :: "api_env \<Rightarrow> ('f, 'd) process \<Rightarrow> int \<times> ('f, 'd) process" where
  "open_hrperf ae w =
     (if a_open ae \<and> device_p (kern w)
      then (let (fd, t) = alloc_fd HrperfDevice (fds w) in (fd, w\<lparr>fds := t\<rparr>))
      else (-1, w))"

definition hrperf_ioctl_api ::
  "hrp_config \<Rightarrow> ('f, 'd) kernel_env \<Rightarrow> ioctl_env \<Rightarrow> int \<Rightarrow> ioc \<Rightarrow> ('f, 'd) process \<Rightarrow> (int \<times> u8 list \<times> ('f, 'd) process) may" where
  "hrperf_ioctl_api cfg ke ie fd request w =
     (case lookup_fd (fds w) fd of
        Some HrperfDevice \<Rightarrow>
          bindF (hrperf_ioctl cfg ke ie request (kern w)) (\<lambda>(r, out, s).
            Inr (case r of Ok0 \<Rightarrow> 0 | Neg e \<Rightarrow> -1, out, w\<lparr>kern := s\<rparr>))
      | _ \<Rightarrow> Inr (-1, [], w))"

definition sys_close :: "int \<Rightarrow> ('f, 'd) process \<Rightarrow> ('f, 'd) process" where
  "sys_close fd w =
     (case release_fd fd (fds w) of
        Some t \<Rightarrow> w\<lparr>fds := t\<rparr>
      | None \<Rightarrow> w\<lparr>bad_closes := Suc (bad_closes w)\<rparr>)"

section \<open>Commands as the wrappers spell them\<close>

definition HRP_PMC_IOC_START_api :: ioc where "HRP_PMC_IOC_START_api = IO (CHR ''k'') 1"
definition HRP_IOC_STOP :: ioc where "HRP_IOC_STOP = IO (CHR ''k'') 2"
definition HRP_PMC_IOC_INSTRUCTED_POLL_api :: ioc where "HRP_PMC_IOC_INSTRUCTED_POLL_api = IO (CHR ''k'') 3"
definition HRP_PMC_IOC_INSTRUCTED_LOG_api :: ioc where "HRP_PMC_IOC_INSTRUCTED_LOG_api = IO (CHR ''k'') 4"
definition HRP_PMC_IOC_INSTRUCTED_POLL_AND_LOG_api :: ioc where
  "HRP_PMC_IOC_INSTRUCTED_POLL_AND_LOG_api = IO (CHR ''k'') 5"
definition HRP_PMC_IOC_RDT_SET_RMID_ON_CORE_api :: ioc where
  "HRP_PMC_IOC_RDT_SET_RMID_ON_CORE_api = IOW (CHR ''k'') 6 sizeof_rmid_set_info_t"
definition HRP_PMC_IOC_TSC_FREQ_api :: ioc where "HRP_PMC_IOC_TSC_FREQ_api = IOR (CHR ''k'') 10 8"
definition HRP_PMC_IOC_RDT_SCALE_FACTOR_api :: ioc where "HRP_PMC_IOC_RDT_SCALE_FACTOR_api = IOR (CHR ''k'') 11 4"
definition HRP_PMC_IOC_RDT_MAX_RMID_api :: ioc where "HRP_PMC_IOC_RDT_MAX_RMID_api = IOR (CHR ''k'') 12 4"

lemma api_commands:
  "HRP_PMC_IOC_START_api = HRP_PMC_IOC_START" "HRP_IOC_STOP = HRP_PMC_IOC_PAUSE"
  "HRP_PMC_IOC_INSTRUCTED_POLL_api = HRP_PMC_IOC_INSTRUCTED_POLL"
  "HRP_PMC_IOC_INSTRUCTED_LOG_api = HRP_PMC_IOC_INSTRUCTED_LOG"
  "HRP_PMC_IOC_INSTRUCTED_POLL_AND_LOG_api = HRP_PMC_IOC_INSTRUCTED_POLL_AND_LOG"
  "HRP_PMC_IOC_RDT_SET_RMID_ON_CORE_api = HRP_PMC_IOC_RDT_SET_RMID_ON_CORE"
  "HRP_PMC_IOC_TSC_FREQ_api = HRP_PMC_IOC_TSC_FREQ"
  "HRP_PMC_IOC_RDT_SCALE_FACTOR_api = HRP_PMC_IOC_RDT_SCALE_FACTOR"
  "HRP_PMC_IOC_RDT_MAX_RMID_api = HRP_PMC_IOC_RDT_MAX_RMID"
  by (simp_all add: ioc_defs HRP_PMC_IOC_MAGIC_def HRP_PMC_IOC_START_api_def HRP_IOC_STOP_def
      HRP_PMC_IOC_INSTRUCTED_POLL_api_def HRP_PMC_IOC_INSTRUCTED_LOG_api_def
      HRP_PMC_IOC_INSTRUCTED_POLL_AND_LOG_api_def HRP_PMC_IOC_RDT_SET_RMID_ON_CORE_api_def
      HRP_PMC_IOC_TSC_FREQ_api_def HRP_PMC_IOC_RDT_SCALE_FACTOR_api_def HRP_PMC_IOC_RDT_MAX_RMID_api_def)

section \<open>Wrappers\<close>

definition hrperf_start ::
  "hrp_config \<Rightarrow> ('f, 'd) kernel_env \<Rightarrow> api_env \<Rightarrow> ('f, 'd) process \<Rightarrow> (int \<times> ('f, 'd) process) may" where
  "hrperf_start cfg ke ae w =
     (let (fd, w) = open_hrperf ae w in
      if fd < 0 then Inr (1, w)
      else
        bindF (hrperf_ioctl_api cfg ke (a_ioctl ae) fd HRP_PMC_IOC_START_api w) (\<lambda>(r, out, w).
          if r < 0 then Inr (1, sys_close fd w)
          else Inr (0, sys_close fd w)))"

definition hrperf_pause ::
  "hrp_config \<Rightarrow> ('f, 'd) kernel_env \<Rightarrow> api_env \<Rightarrow> ('f, 'd) process \<Rightarrow> (int \<times> ('f, 'd) process) may" where
  "hrperf_pause cfg ke ae w =
     (let (fd, w) = open_hrperf ae w in
      if fd < 0 then Inr (1, w)
      else
        bindF (hrperf_ioctl_api cfg ke (a_ioctl ae) fd HRP_IOC_STOP w) (\<lambda>(r, out, w).
          if r < 0 then Inr (1, sys_close fd w)
          else Inr (0, sys_close fd w)))"

text \<open>The result is a local variable that the command fills in; the handler copies it in the machine's byte order.\<close>

definition hrperf_get_tsc_freq ::
  "hrp_config \<Rightarrow> ('f, 'd) kernel_env \<Rightarrow> api_env \<Rightarrow> ('f, 'd) process \<Rightarrow> (u64 \<times> ('f, 'd) process) may" where
  "hrperf_get_tsc_freq cfg ke ae w =
     (let (fd, w) = open_hrperf ae w in
      if fd < 0 then Inr (0, w)
      else
        bindF (hrperf_ioctl_api cfg ke (a_ioctl ae) fd HRP_PMC_IOC_TSC_FREQ_api w) (\<lambda>(r, tsc_freq, w).
          if r < 0 then Inr (0, sys_close fd w)
          else Inr (le_word tsc_freq, sys_close fd w)))"

definition hrperf_set_rmid ::
  "hrp_config \<Rightarrow> ('f, 'd) kernel_env \<Rightarrow> api_env \<Rightarrow> u32 \<Rightarrow> u32 \<Rightarrow> ('f, 'd) process \<Rightarrow> (int \<times> ('f, 'd) process) may" where
  "hrperf_set_rmid cfg ke ae core new_rmid w =
     (let (fd, w) = open_hrperf ae w;
          rmid_set_args = \<lparr>rsi_rmid = new_rmid, rsi_core_id = core\<rparr> in
      if fd < 0 then Inr (1, w)
      else
        bindF (hrperf_ioctl_api cfg ke ((a_ioctl ae)\<lparr>o_rmid_args := rmid_set_args\<rparr>) fd HRP_PMC_IOC_RDT_SET_RMID_ON_CORE_api w)
          (\<lambda>(r, out, w).
             if r < 0 then Inr (1, sys_close fd w)
             else Inr (0, sys_close fd w)))"

definition hrperf_get_rdt_scale_factor ::
  "hrp_config \<Rightarrow> ('f, 'd) kernel_env \<Rightarrow> api_env \<Rightarrow> ('f, 'd) process \<Rightarrow> (u32 \<times> ('f, 'd) process) may" where
  "hrperf_get_rdt_scale_factor cfg ke ae w =
     (let (fd, w) = open_hrperf ae w in
      if fd < 0 then Inr (0, w)
      else
        bindF (hrperf_ioctl_api cfg ke (a_ioctl ae) fd HRP_PMC_IOC_RDT_SCALE_FACTOR_api w) (\<lambda>(r, scale_factor, w).
          if r < 0 then Inr (0, sys_close fd w)
          else Inr (le_word scale_factor, sys_close fd w)))"

definition hrperf_get_rdt_max_rmid ::
  "hrp_config \<Rightarrow> ('f, 'd) kernel_env \<Rightarrow> api_env \<Rightarrow> ('f, 'd) process \<Rightarrow> (u32 \<times> ('f, 'd) process) may" where
  "hrperf_get_rdt_max_rmid cfg ke ae w =
     (let (fd, w) = open_hrperf ae w in
      if fd < 0 then Inr (0, w)
      else
        bindF (hrperf_ioctl_api cfg ke (a_ioctl ae) fd HRP_PMC_IOC_RDT_MAX_RMID_api w) (\<lambda>(r, max_rmid, w).
          if r < 0 then Inr (0, sys_close fd w)
          else Inr (le_word max_rmid, sys_close fd w)))"

text \<open>
  The three instructing wrappers have no early return: after a failed \<open>open\<close> they go on with the
  descriptor -1, and after a failed command they close the descriptor twice.
\<close>

definition hrperf_instruct_log ::
  "hrp_config \<Rightarrow> ('f, 'd) kernel_env \<Rightarrow> api_env \<Rightarrow> ('f, 'd) process \<Rightarrow> ('f, 'd) process may" where
  "hrperf_instruct_log cfg ke ae w =
     (let (fd, w) = open_hrperf ae w in
      bindF (hrperf_ioctl_api cfg ke (a_ioctl ae) fd HRP_PMC_IOC_INSTRUCTED_LOG_api w) (\<lambda>(r, out, w).
        (let w = (if r < 0 then sys_close fd w else w) in Inr (sys_close fd w))))"

definition hrperf_instruct_poll ::
  "hrp_config \<Rightarrow> ('f, 'd) kernel_env \<Rightarrow> api_env \<Rightarrow> ('f, 'd) process \<Rightarrow> ('f, 'd) process may" where
  "hrperf_instruct_poll cfg ke ae w =
     (let (fd, w) = open_hrperf ae w in
      bindF (hrperf_ioctl_api cfg ke (a_ioctl ae) fd HRP_PMC_IOC_INSTRUCTED_POLL_api w) (\<lambda>(r, out, w).
        (let w = (if r < 0 then sys_close fd w else w) in Inr (sys_close fd w))))"

definition hrperf_instruct_poll_and_log ::
  "hrp_config \<Rightarrow> ('f, 'd) kernel_env \<Rightarrow> api_env \<Rightarrow> ('f, 'd) process \<Rightarrow> ('f, 'd) process may" where
  "hrperf_instruct_poll_and_log cfg ke ae w =
     (let (fd, w) = open_hrperf ae w in
      bindF (hrperf_ioctl_api cfg ke (a_ioctl ae) fd HRP_PMC_IOC_INSTRUCTED_POLL_AND_LOG_api w) (\<lambda>(r, out, w).
        (let w = (if r < 0 then sys_close fd w else w) in Inr (sys_close fd w))))"

text \<open>The older header spells the same calls out, with \<open>open\<close> and \<open>ioctl\<close> in place.\<close>

definition hrperf_start_control ::
  "hrp_config \<Rightarrow> ('f, 'd) kernel_env \<Rightarrow> api_env \<Rightarrow> ('f, 'd) process \<Rightarrow> (int \<times> ('f, 'd) process) may" where
  "hrperf_start_control cfg ke ae w =
     (case open_hrperf ae w of (fd, w) \<Rightarrow>
        if fd < 0 then Inr (1, w)
        else bindF (hrperf_ioctl_api cfg ke (a_ioctl ae) fd (IO (CHR ''k'') 1) w) (\<lambda>(r, out, w).
               Inr (if r < 0 then 1 else 0, sys_close fd w)))"

definition hrperf_pause_control ::
  "hrp_config \<Rightarrow> ('f, 'd) kernel_env \<Rightarrow> api_env \<Rightarrow> ('f, 'd) process \<Rightarrow> (int \<times> ('f, 'd) process) may" where
  "hrperf_pause_control cfg ke ae w =
     (case open_hrperf ae w of (fd, w) \<Rightarrow>
        if fd < 0 then Inr (1, w)
        else bindF (hrperf_ioctl_api cfg ke (a_ioctl ae) fd (IO (CHR ''k'') 2) w) (\<lambda>(r, out, w).
               Inr (if r < 0 then 1 else 0, sys_close fd w)))"

section \<open>A wrapper is one command\<close>

text \<open>What a wrapper is meant to do: one command, if the device can be opened, and no trace in the process.\<close>

definition dev_call ::
  "hrp_config \<Rightarrow> ('f, 'd) kernel_env \<Rightarrow> bool \<Rightarrow> ioctl_env \<Rightarrow> ioc \<Rightarrow> ('f, 'd) process \<Rightarrow> (u8 list option \<times> ('f, 'd) process) may" where
  "dev_call cfg ke ok ie cmd w =
     (if ok \<and> device_p (kern w) then
        bindF (hrperf_ioctl cfg ke ie cmd (kern w)) (\<lambda>(r, out, s).
          Inr (if r = Ok0 then Some out else None, w\<lparr>kern := s\<rparr>))
      else Inr (None, w))"

definition status_of :: "u8 list option \<Rightarrow> int" where
  "status_of out = (if out = None then 1 else 0)"

definition value_of :: "u8 list option \<Rightarrow> 'a::len word" where
  "value_of out = (case out of None \<Rightarrow> 0 | Some bs \<Rightarrow> le_word bs)"

lemma open_ioctl_close:
  assumes "e = g None"
    and "\<And>fd w. f fd w = bindF (hrperf_ioctl_api cfg ke ie fd cmd w) (\<lambda>(r, out, w). Inr (g (if r < 0 then None else Some out), sys_close fd w))"
  shows "(let (fd, w) = open_hrperf ae w in if fd < 0 then Inr (e, w) else f fd w) =
    bindF (dev_call cfg ke (a_open ae) ie cmd w) (\<lambda>(out, w). Inr (g out, w))"
proof (cases "a_open ae \<and> device_p (kern w)")
  case True
  obtain fd t' where "alloc_fd HrperfDevice (fds w) = (fd, t')" "\<not> fd < 0" "lookup_fd t' fd = Some HrperfDevice"
    "release_fd fd t' = Some (fds w)"
    using fdt.alloc_release [of HrperfDevice "fds w"] by blast
  then show ?thesis
    using True
    by (cases "hrperf_ioctl cfg ke ie cmd (kern w)")
      (auto simp: assms open_hrperf_def hrperf_ioctl_api_def dev_call_def sys_close_def split: ret.split prod.split)
next
  case False
  then have "open_hrperf ae w = (-1, w)" "dev_call cfg ke (a_open ae) ie cmd w = Inr (None, w)"
    by (auto simp: open_hrperf_def dev_call_def)
  then show ?thesis by (simp add: assms(1))
qed

text \<open>The closing calls of the instructing wrappers that hit a descriptor that is not open.\<close>

definition extra_closes :: "bool \<Rightarrow> u8 list option \<Rightarrow> nat" where
  "extra_closes opened out = (if out \<noteq> None then 0 else if opened then 1 else 2)"

lemma open_ioctl_close2:
  "(let (fd, w) = open_hrperf ae w in
      bindF (hrperf_ioctl_api cfg ke ie fd cmd w) (\<lambda>(r, out, w).
        (let w = (if r < 0 then sys_close fd w else w) in Inr (sys_close fd w)))) =
   bindF (dev_call cfg ke (a_open ae) ie cmd w) (\<lambda>(out, w').
     Inr (w'\<lparr>bad_closes := bad_closes w' + extra_closes (a_open ae \<and> device_p (kern w)) out\<rparr>))"
proof (cases "a_open ae \<and> device_p (kern w)")
  case True
  obtain fd t' where "alloc_fd HrperfDevice (fds w) = (fd, t')" "\<not> fd < 0" "lookup_fd t' fd = Some HrperfDevice"
    "release_fd fd t' = Some (fds w)" "release_fd fd (fds w) = None"
    using fdt.alloc_release [of HrperfDevice "fds w"] by blast
  then show ?thesis
    using True
    by (cases "hrperf_ioctl cfg ke ie cmd (kern w)")
      (auto simp: open_hrperf_def hrperf_ioctl_api_def dev_call_def sys_close_def extra_closes_def split: ret.split prod.split)
next
  case False
  then have "open_hrperf ae w = (-1, w)" "dev_call cfg ke (a_open ae) ie cmd w = Inr (None, w)"
    "extra_closes (a_open ae \<and> device_p (kern w)) None = 2"
    by (auto simp: open_hrperf_def dev_call_def extra_closes_def)
  then show ?thesis by (simp add: hrperf_ioctl_api_def sys_close_def fdt.lookup_negative fdt.release_negative)
qed

lemma start_pause_are_commands:
  "hrperf_start cfg ke ae w =
     bindF (dev_call cfg ke (a_open ae) (a_ioctl ae) HRP_PMC_IOC_START w) (\<lambda>(out, w). Inr (status_of out, w))"
  "hrperf_pause cfg ke ae w =
     bindF (dev_call cfg ke (a_open ae) (a_ioctl ae) HRP_PMC_IOC_PAUSE w) (\<lambda>(out, w). Inr (status_of out, w))"
  "hrperf_set_rmid cfg ke ae core new w =
     bindF (dev_call cfg ke (a_open ae) ((a_ioctl ae)\<lparr>o_rmid_args := \<lparr>rsi_rmid = new, rsi_core_id = core\<rparr>\<rparr>)
       HRP_PMC_IOC_RDT_SET_RMID_ON_CORE w) (\<lambda>(out, w). Inr (status_of out, w))"
  unfolding hrperf_start_def hrperf_pause_def hrperf_set_rmid_def api_commands
    Let_def [of "\<lparr>rsi_rmid = new, rsi_core_id = core\<rparr>"]
  by (rule open_ioctl_close; auto simp: status_of_def intro!: arg_cong2 [of _ _ _ _ bindF])+

lemma getters_are_commands:
  "hrperf_get_tsc_freq cfg ke ae w =
     bindF (dev_call cfg ke (a_open ae) (a_ioctl ae) HRP_PMC_IOC_TSC_FREQ w) (\<lambda>(out, w). Inr (value_of out, w))"
  "hrperf_get_rdt_scale_factor cfg ke ae w =
     bindF (dev_call cfg ke (a_open ae) (a_ioctl ae) HRP_PMC_IOC_RDT_SCALE_FACTOR w) (\<lambda>(out, w). Inr (value_of out, w))"
  "hrperf_get_rdt_max_rmid cfg ke ae w =
     bindF (dev_call cfg ke (a_open ae) (a_ioctl ae) HRP_PMC_IOC_RDT_MAX_RMID w) (\<lambda>(out, w). Inr (value_of out, w))"
  unfolding hrperf_get_tsc_freq_def hrperf_get_rdt_scale_factor_def hrperf_get_rdt_max_rmid_def api_commands
  by (rule open_ioctl_close; auto simp: value_of_def intro!: arg_cong2 [of _ _ _ _ bindF])+

lemma instruct_are_commands:
  "hrperf_instruct_log cfg ke ae w = bindF (dev_call cfg ke (a_open ae) (a_ioctl ae) HRP_PMC_IOC_INSTRUCTED_LOG w) (\<lambda>(out, w').
     Inr (w'\<lparr>bad_closes := bad_closes w' + extra_closes (a_open ae \<and> device_p (kern w)) out\<rparr>))"
  "hrperf_instruct_poll cfg ke ae w = bindF (dev_call cfg ke (a_open ae) (a_ioctl ae) HRP_PMC_IOC_INSTRUCTED_POLL w) (\<lambda>(out, w').
     Inr (w'\<lparr>bad_closes := bad_closes w' + extra_closes (a_open ae \<and> device_p (kern w)) out\<rparr>))"
  "hrperf_instruct_poll_and_log cfg ke ae w = bindF (dev_call cfg ke (a_open ae) (a_ioctl ae) HRP_PMC_IOC_INSTRUCTED_POLL_AND_LOG w) (\<lambda>(out, w').
     Inr (w'\<lparr>bad_closes := bad_closes w' + extra_closes (a_open ae \<and> device_p (kern w)) out\<rparr>))"
  unfolding hrperf_instruct_log_def hrperf_instruct_poll_def hrperf_instruct_poll_and_log_def api_commands
  by (rule open_ioctl_close2)+

lemma control_header:
  "hrperf_start_control cfg ke ae w = hrperf_start cfg ke ae w"
  "hrperf_pause_control cfg ke ae w = hrperf_pause cfg ke ae w"
  by (auto simp: hrperf_start_control_def hrperf_start_def hrperf_pause_control_def hrperf_pause_def
      HRP_PMC_IOC_START_api_def HRP_IOC_STOP_def split: prod.split intro!: arg_cong2 [of _ _ _ _ bindF])

text \<open>
  C22. The wrappers that start, pause, set an RMID or ask for a value are exactly one command to the
  module if the device can be opened, and an error otherwise: on every path the descriptor is
  closed once and the table of descriptors is as before. The older header does the same.
\<close>

theorem api_wrappers_are_commands:
  "hrperf_start cfg ke ae w =
     bindF (dev_call cfg ke (a_open ae) (a_ioctl ae) HRP_PMC_IOC_START w) (\<lambda>(out, w). Inr (status_of out, w)) \<and>
   hrperf_pause cfg ke ae w =
     bindF (dev_call cfg ke (a_open ae) (a_ioctl ae) HRP_PMC_IOC_PAUSE w) (\<lambda>(out, w). Inr (status_of out, w)) \<and>
   hrperf_set_rmid cfg ke ae core new w =
     bindF (dev_call cfg ke (a_open ae) ((a_ioctl ae)\<lparr>o_rmid_args := \<lparr>rsi_rmid = new, rsi_core_id = core\<rparr>\<rparr>)
       HRP_PMC_IOC_RDT_SET_RMID_ON_CORE w) (\<lambda>(out, w). Inr (status_of out, w)) \<and>
   hrperf_get_tsc_freq cfg ke ae w =
     bindF (dev_call cfg ke (a_open ae) (a_ioctl ae) HRP_PMC_IOC_TSC_FREQ w) (\<lambda>(out, w). Inr (value_of out, w)) \<and>
   hrperf_get_rdt_scale_factor cfg ke ae w =
     bindF (dev_call cfg ke (a_open ae) (a_ioctl ae) HRP_PMC_IOC_RDT_SCALE_FACTOR w) (\<lambda>(out, w). Inr (value_of out, w)) \<and>
   hrperf_get_rdt_max_rmid cfg ke ae w =
     bindF (dev_call cfg ke (a_open ae) (a_ioctl ae) HRP_PMC_IOC_RDT_MAX_RMID w) (\<lambda>(out, w). Inr (value_of out, w)) \<and>
   hrperf_start_control cfg ke ae w = hrperf_start cfg ke ae w \<and>
   hrperf_pause_control cfg ke ae w = hrperf_pause cfg ke ae w"
  by (intro conjI start_pause_are_commands getters_are_commands control_header)

text \<open>
  An instructing wrapper whose command is refused closes its descriptor twice, and one that could
  not open the device closes the descriptor -1 twice; otherwise it is one command. So the process
  has a stray \<open>close\<close> on exactly the error paths, which in a process with several threads can hit
  a descriptor that another thread has just been given.
\<close>

theorem instruct_closes_twice:
  assumes "f = hrperf_instruct_log cfg ke ae \<and> cmd = HRP_PMC_IOC_INSTRUCTED_LOG \<or>
    f = hrperf_instruct_poll cfg ke ae \<and> cmd = HRP_PMC_IOC_INSTRUCTED_POLL \<or>
    f = hrperf_instruct_poll_and_log cfg ke ae \<and> cmd = HRP_PMC_IOC_INSTRUCTED_POLL_AND_LOG"
  shows "(if a_open ae \<and> device_p (kern w)
      then \<forall>r out s. hrperf_ioctl cfg ke (a_ioctl ae) cmd (kern w) = Inr (r, out, s) \<longrightarrow>
             f w = Inr (w\<lparr>kern := s, bad_closes := bad_closes w + (if r = Ok0 then 0 else 1)\<rparr>)
      else f w = Inr (w\<lparr>bad_closes := bad_closes w + 2\<rparr>))"
  using assms by (elim disjE) (auto simp: instruct_are_commands dev_call_def extra_closes_def)

section \<open>What the values are\<close>

lemma ioctl_rdt_values:
  assumes "HRP_USE_RDT cfg"
  shows "hrperf_ioctl cfg ke ie HRP_PMC_IOC_RDT_SCALE_FACTOR s = reply (o_copied ie) (le_bytes 4 (mbm_get_scaling_factor (g_mbm_mgr s))) s"
    and "hrperf_ioctl cfg ke ie HRP_PMC_IOC_RDT_MAX_RMID s = reply (o_copied ie) (le_bytes 4 (mbm_get_max_rmid (g_mbm_mgr s))) s"
  unfolding hrperf_ioctl_def using assms by (simp_all add: ioc_defs)

text \<open>
  A value that a getter returns is the module's: the calibrated frequency, the scaling factor and
  the largest RMID arrive unchanged, 0 stands for an error, and the frequency is never 0 otherwise.
\<close>

theorem api_values_are_the_modules:
  assumes "a_open ae" and "device_p (kern w)" and "8 \<le> o_copied (a_ioctl ae)"
  shows "(\<exists>w'. hrperf_get_tsc_freq cfg ke ae w = Inr (cycles_per_us (kern w'), w') \<and> fds w' = fds w \<and>
      (cycles_per_us (kern w) \<noteq> 0 \<longrightarrow> w' = w) \<and>
      (cycles_per_us (kern w) = 0 \<longrightarrow> cycles_per_us (kern w') = fst (hrp_calibrate_tsc (o_tsc (a_ioctl ae)) 0))) \<and>
    hrperf_get_rdt_scale_factor cfg ke ae w =
      Inr (if HRP_USE_RDT cfg then mbm_get_scaling_factor (g_mbm_mgr (kern w)) else 0, w) \<and>
    hrperf_get_rdt_max_rmid cfg ke ae w =
      Inr (if HRP_USE_RDT cfg then mbm_get_max_rmid (g_mbm_mgr (kern w)) else 0, w)"
proof (intro conjI)
  show "\<exists>w'. hrperf_get_tsc_freq cfg ke ae w = Inr (cycles_per_us (kern w'), w') \<and> fds w' = fds w \<and>
      (cycles_per_us (kern w) \<noteq> 0 \<longrightarrow> w' = w) \<and>
      (cycles_per_us (kern w) = 0 \<longrightarrow> cycles_per_us (kern w') = fst (hrp_calibrate_tsc (o_tsc (a_ioctl ae)) 0))"
    using assms
    by (cases "cycles_per_us (kern w) = 0")
      (auto simp: getters_are_commands dev_call_def ioctl_tsc reply_def value_of_def le_word_le_bytes_id Let_def)
  have "hrperf_ioctl cfg ke ie cmd s = Inr (Neg ENOTTY, [], s)"
    if "\<not> HRP_USE_RDT cfg" "cmd = HRP_PMC_IOC_RDT_SCALE_FACTOR \<or> cmd = HRP_PMC_IOC_RDT_MAX_RMID" for ie cmd and s :: "('a, 'b) hrperf"
    using that by (auto simp: cmd_sets ioc_defs intro!: ioctl_unknown)
  then show "hrperf_get_rdt_scale_factor cfg ke ae w = Inr (if HRP_USE_RDT cfg then mbm_get_scaling_factor (g_mbm_mgr (kern w)) else 0, w)"
    "hrperf_get_rdt_max_rmid cfg ke ae w = Inr (if HRP_USE_RDT cfg then mbm_get_max_rmid (g_mbm_mgr (kern w)) else 0, w)"
    using assms
    by (cases "HRP_USE_RDT cfg";
        simp add: getters_are_commands dev_call_def ioctl_rdt_values reply_def value_of_def le_word_le_bytes_id)+
qed

section \<open>From a call to the log file\<close>

text \<open>The entries of one poll in the order of the log: CPU by CPU.\<close>

definition polled_in_order :: "hrp_config \<Rightarrow> poll_env \<Rightarrow> ('f, 'd) hrperf \<Rightarrow> HrperfLogEntry list" where
  "polled_in_order cfg pe s =
     map (poll_entry cfg pe (mach s)) (filter (\<lambda>c. c \<in> set (polled_cpus cfg (HRP_PMC_POLLER_CPU cfg) s)) (hrp_selected_cpus s))"

lemma concat_singletons: "(\<And>c. c \<in> set cs \<Longrightarrow> g c = (if P c then [h c] else [])) \<Longrightarrow> concat (map g cs) = map h (filter P cs)"
  by (induction cs) auto

lemma poll_and_log_file:
  assumes "plain cfg" and "appends (e_write ke) contents" and "sys_ok cfg s" and "log_file s = Some f"
    and "\<And>c. c \<in> set (hrp_selected_cpus s) \<Longrightarrow> rb_list (per_cpu_buffer s c) = []" and "0 < rb_cap cfg"
  shows "\<exists>bufs f'. instructed_poll_and_log cfg ke pe (HRP_PMC_POLLER_CPU cfg) s =
      Inr (s\<lparr>per_cpu_buffer := bufs, log_file := Some f'\<rparr>) \<and>
    contents f' = contents f @ concat (map (entry_bytes cfg) (polled_in_order cfg pe s)) \<and>
    (\<forall>c \<in> set (hrp_selected_cpus s). rb_list (bufs c) = [])"
proof -
  let ?P = "polled_cpus cfg (HRP_PMC_POLLER_CPU cfg) s"
  have ok: "mod_ok cfg s" "log_file s \<noteq> None" using assms(3,4) by (auto simp: sys_ok_def)
  obtain bufs where b: "smp_poll_pmus cfg ke pe (HRP_PMC_POLLER_CPU cfg) s = Inr (s\<lparr>per_cpu_buffer := bufs\<rparr>)"
    "\<And>c. if c \<in> set ?P
       then rb_wf cfg (bufs c) \<and> rb_list (bufs c) = push (rb_cap cfg) (rb_list (per_cpu_buffer s c)) (poll_entry cfg pe (mach s) c)
       else bufs c = per_cpu_buffer s c"
    using poll_ok [OF assms(1) ok(1), of ke pe] by blast
  obtain bufs0 where "Inr (s\<lparr>per_cpu_buffer := bufs\<rparr>) = (Inr (s\<lparr>per_cpu_buffer := bufs0\<rparr>) :: ('a, 'b) hrperf may)"
    "mod_ok cfg (s\<lparr>per_cpu_buffer := bufs0\<rparr>)"
    using poll_sys [OF assms(1) ok, of ke pe contents] unfolding b(1) by blast
  then have m: "mod_ok cfg (s\<lparr>per_cpu_buffer := bufs\<rparr>)" by (simp only: sum.inject)
  have "rb_list (bufs c) = (if c \<in> set ?P then [poll_entry cfg pe (mach s) c] else [])"
    if "c \<in> set (hrp_selected_cpus s)" for c
    using assms(5) [OF that] assms(6) b(2) [of c] by (auto simp: push_def split: if_splits)
  then have "concat (map (\<lambda>c. rb_list (bufs c)) (hrp_selected_cpus s)) = polled_in_order cfg pe s"
    unfolding polled_in_order_def by (rule concat_singletons)
  moreover have "log_file (s\<lparr>per_cpu_buffer := bufs\<rparr>) = Some f" using assms(4) by simp
  from log_ok [OF assms(2) m this] obtain bufs' f'
    where l: "log_for_all_cpus cfg ke (s\<lparr>per_cpu_buffer := bufs\<rparr>) = Inr (s\<lparr>per_cpu_buffer := bufs', log_file := Some f'\<rparr>)"
      "contents f' = contents f @ buffered_bytes cfg bufs (hrp_selected_cpus s)"
      "\<And>c. c \<in> set (hrp_selected_cpus s) \<Longrightarrow> rb_list (bufs' c) = []"
    by fastforce
  ultimately show ?thesis
    using b(1) by (intro exI [of _ bufs'] exI [of _ f'])
      (simp add: instructed_poll_and_log_def instructed_poll_op_def instructed_log_op_def buffered_bytes_entries)
qed

text \<open>
  C9. In instructed mode one call of \<open>hrperf_instruct_poll_and_log\<close> with empty buffers adds to the log
  file exactly one entry for every selected CPU that is polled, in the order of the CPUs, and a
  reader that decodes what was added gets these entries back with every logged field.
\<close>

theorem instruct_poll_and_log_reaches_file:
  assumes "plain cfg" and "appends (e_write ke) contents" and "sys_ok cfg (kern w)" and "log_file (kern w) = Some f"
    and "\<And>c. c \<in> set (hrp_selected_cpus (kern w)) \<Longrightarrow> rb_list (per_cpu_buffer (kern w) c) = []" and "0 < rb_cap cfg"
    and "instructed_profile (kern w)" and "instructed_profile_wq (kern w)" and "a_open ae" and "device_p (kern w)"
  shows "\<exists>w' f' added. hrperf_instruct_poll_and_log cfg ke ae w = Inr w' \<and> log_file (kern w') = Some f' \<and>
    contents f' = contents f @ added \<and>
    decode_log cfg added = map (logged_fields cfg) (polled_in_order cfg (o_poll (a_ioctl ae)) (kern w)) \<and>
    (\<forall>c \<in> set (hrp_selected_cpus (kern w)). rb_list (per_cpu_buffer (kern w') c) = []) \<and>
    fds w' = fds w \<and> bad_closes w' = bad_closes w"
proof -
  obtain bufs f' where p: "instructed_poll_and_log cfg ke (o_poll (a_ioctl ae)) (HRP_PMC_POLLER_CPU cfg) (kern w) =
      Inr ((kern w)\<lparr>per_cpu_buffer := bufs, log_file := Some f'\<rparr>)"
    "contents f' = contents f @ concat (map (entry_bytes cfg) (polled_in_order cfg (o_poll (a_ioctl ae)) (kern w)))"
    "\<forall>c \<in> set (hrp_selected_cpus (kern w)). rb_list (bufs c) = []"
    using poll_and_log_file [OF assms(1-6)] by blast
  then show ?thesis
    using assms(7-10)
    by (simp add: instruct_are_commands dev_call_def ioctl_instructed no_reply_def enqueue_instructed_profile_op_def
        extra_closes_def decode_log_bytes)
qed

section \<open>Tools\<close>

text \<open>
  The command line tools. What they print is left out. \<open>strtoul\<close> with base 10 skips white
  space, takes a sign, and saturates; the tool then keeps the low 32 bits.
\<close>

definition isspace :: "char \<Rightarrow> bool" where
  "isspace c \<longleftrightarrow> c \<in> {CHR '' '', CHR 0x09, CHR 0x0A, CHR 0x0B, CHR 0x0C, CHR 0x0D}"

definition isdigit :: "char \<Rightarrow> bool" where
  "isdigit c \<longleftrightarrow> 48 \<le> (of_char c :: nat) \<and> (of_char c :: nat) \<le> 57"

definition digits_value :: "string \<Rightarrow> nat" where
  "digits_value ds = foldl (\<lambda>n d. 10 * n + (of_char d - 48)) 0 ds"

definition strtoul :: "string \<Rightarrow> u64" where
  "strtoul str =
     (let t = dropWhile isspace str;
          (neg, t) = (case t of c # cs \<Rightarrow> if c = CHR ''-'' then (True, cs) else if c = CHR ''+'' then (False, cs) else (False, t)
                      | [] \<Rightarrow> (False, []));
          n = digits_value (takeWhile isdigit t) in
      if 2 ^ 64 \<le> n then -1
      else if neg then - word_of_nat n else word_of_nat n)"

text \<open>The successive results of \<open>getopt (argc, argv, "r:c:h")\<close> before -1.\<close>

datatype opt = Opt_r string | Opt_c string | Opt_h | Opt_other

record rmid_opts =
  rmid_opt :: u32
  core_opt :: u32
  rmid_set :: bool
  core_id_set :: bool

fun rmid_parse :: "opt list \<Rightarrow> rmid_opts \<Rightarrow> int + rmid_opts" where
  "rmid_parse [] a = Inr a"
| "rmid_parse (Opt_r optarg # os) a = rmid_parse os (a\<lparr>rmid_opt := ucast (strtoul optarg), rmid_set := True\<rparr>)"
| "rmid_parse (Opt_c optarg # os) a = rmid_parse os (a\<lparr>core_opt := ucast (strtoul optarg), core_id_set := True\<rparr>)"
| "rmid_parse (Opt_h # os) a = Inl 0"
| "rmid_parse (Opt_other # os) a = Inl 1"

definition rdt_set_rmid_main ::
  "hrp_config \<Rightarrow> ('f, 'd) kernel_env \<Rightarrow> api_env \<Rightarrow> opt list \<Rightarrow> ('f, 'd) process \<Rightarrow> (int \<times> ('f, 'd) process) may" where
  "rdt_set_rmid_main cfg ke ae os w =
     (case rmid_parse os \<lparr>rmid_opt = 0, core_opt = 0, rmid_set = False, core_id_set = False\<rparr> of
        Inl r \<Rightarrow> Inr (r, w)
      | Inr a \<Rightarrow>
          if \<not> rmid_set a \<or> \<not> core_id_set a then Inr (1, w)
          else bindF (hrperf_set_rmid cfg ke ae (core_opt a) (rmid_opt a) w) (\<lambda>(result, w).
                 if result \<noteq> 0 then Inr (1, w) else Inr (0, w)))"

definition tsc_freq_main ::
  "hrp_config \<Rightarrow> ('f, 'd) kernel_env \<Rightarrow> api_env \<Rightarrow> ('f, 'd) process \<Rightarrow> (int \<times> ('f, 'd) process) may" where
  "tsc_freq_main cfg ke ae w = bindF (hrperf_get_tsc_freq cfg ke ae w) (\<lambda>(freq, w). Inr (0, w))"

definition rdt_max_rmid_main ::
  "hrp_config \<Rightarrow> ('f, 'd) kernel_env \<Rightarrow> api_env \<Rightarrow> ('f, 'd) process \<Rightarrow> (int \<times> ('f, 'd) process) may" where
  "rdt_max_rmid_main cfg ke ae w =
     bindF (hrperf_get_rdt_max_rmid cfg ke ae w) (\<lambda>(max_rmid, w). if max_rmid = 0 then Inr (-1, w) else Inr (0, w))"

definition rdt_scale_main ::
  "hrp_config \<Rightarrow> ('f, 'd) kernel_env \<Rightarrow> api_env \<Rightarrow> ('f, 'd) process \<Rightarrow> (int \<times> ('f, 'd) process) may" where
  "rdt_scale_main cfg ke ae w =
     bindF (hrperf_get_rdt_scale_factor cfg ke ae w) (\<lambda>(scale_factor, w). if scale_factor = 0 then Inr (-1, w) else Inr (0, w))"

definition start_main ::
  "hrp_config \<Rightarrow> ('f, 'd) kernel_env \<Rightarrow> api_env \<Rightarrow> ('f, 'd) process \<Rightarrow> (int \<times> ('f, 'd) process) may" where
  "start_main cfg ke ae w = bindF (hrperf_start cfg ke ae w) (\<lambda>(r, w). Inr (0, w))"

definition pause_main ::
  "hrp_config \<Rightarrow> ('f, 'd) kernel_env \<Rightarrow> api_env \<Rightarrow> ('f, 'd) process \<Rightarrow> (int \<times> ('f, 'd) process) may" where
  "pause_main cfg ke ae w = bindF (hrperf_pause cfg ke ae w) (\<lambda>(r, w). Inr (0, w))"

definition instruct_log_main ::
  "hrp_config \<Rightarrow> ('f, 'd) kernel_env \<Rightarrow> api_env \<Rightarrow> ('f, 'd) process \<Rightarrow> (int \<times> ('f, 'd) process) may" where
  "instruct_log_main cfg ke ae w = bindF (hrperf_instruct_log cfg ke ae w) (\<lambda>w. Inr (0, w))"

definition instruct_poll_main ::
  "hrp_config \<Rightarrow> ('f, 'd) kernel_env \<Rightarrow> api_env \<Rightarrow> ('f, 'd) process \<Rightarrow> (int \<times> ('f, 'd) process) may" where
  "instruct_poll_main cfg ke ae w = bindF (hrperf_instruct_poll cfg ke ae w) (\<lambda>w. Inr (0, w))"

definition instruct_poll_log_main ::
  "hrp_config \<Rightarrow> ('f, 'd) kernel_env \<Rightarrow> api_env \<Rightarrow> ('f, 'd) process \<Rightarrow> (int \<times> ('f, 'd) process) may" where
  "instruct_poll_log_main cfg ke ae w = bindF (hrperf_instruct_poll_and_log cfg ke ae w) (\<lambda>w. Inr (0, w))"

text \<open>What an option list says: the last argument of each kind, if there is one.\<close>

definition last_arg :: "(opt \<Rightarrow> string option) \<Rightarrow> opt list \<Rightarrow> u32 option" where
  "last_arg sel os = (case rev (List.map_filter sel os) of [] \<Rightarrow> None | t # ts \<Rightarrow> Some (ucast (strtoul t)))"

fun r_arg :: "opt \<Rightarrow> string option" where
  "r_arg (Opt_r t) = Some t" | "r_arg _ = None"

fun c_arg :: "opt \<Rightarrow> string option" where
  "c_arg (Opt_c t) = Some t" | "c_arg _ = None"

definition orelse :: "'a option \<Rightarrow> 'a \<Rightarrow> 'a" where
  "orelse x d = (case x of None \<Rightarrow> d | Some y \<Rightarrow> y)"

lemma last_arg_Cons:
  "last_arg sel (o1 # os) = (case last_arg sel os of Some v \<Rightarrow> Some v | None \<Rightarrow> map_option (\<lambda>t. ucast (strtoul t)) (sel o1))"
  by (cases "rev (List.map_filter sel os)") (auto simp: last_arg_def map_filter_simps split: option.split)

lemma last_arg_Nil: "last_arg sel [] = None"
  by (simp add: last_arg_def map_filter_simps)

lemma rmid_parse_result:
  assumes "Opt_h \<notin> set os" and "Opt_other \<notin> set os"
  shows "rmid_parse os a = Inr \<lparr>rmid_opt = orelse (last_arg r_arg os) (rmid_opt a), core_opt = orelse (last_arg c_arg os) (core_opt a),
    rmid_set = (rmid_set a \<or> last_arg r_arg os \<noteq> None), core_id_set = (core_id_set a \<or> last_arg c_arg os \<noteq> None)\<rparr>"
  using assms
proof (induction os arbitrary: a)
  case (Cons o1 os)
  then show ?case by (cases o1) (auto simp: last_arg_Cons orelse_def split: option.split)
qed (simp add: last_arg_Nil orelse_def)

lemma rmid_parse_usage:
  "find (\<lambda>x. x = Opt_h \<or> x = Opt_other) os = Some x \<Longrightarrow> rmid_parse os a = Inl (if x = Opt_h then 0 else 1)"
proof (induction os arbitrary: a)
  case (Cons o1 os)
  then show ?case by (cases o1) auto
qed simp

text \<open>
  The tool that sets an RMID issues its command exactly when the options are well-formed and both
  values are given, with the last value given for each; otherwise it leaves the module alone and
  does not touch the device.
\<close>

theorem rdt_set_rmid_main_outcome:
  "rdt_set_rmid_main cfg ke ae os w =
     (case find (\<lambda>x. x = Opt_h \<or> x = Opt_other) os of
        Some x \<Rightarrow> Inr (if x = Opt_h then 0 else 1, w)
      | None \<Rightarrow>
          (case (last_arg c_arg os, last_arg r_arg os) of
             (Some core, Some r) \<Rightarrow> bindF (hrperf_set_rmid cfg ke ae core r w) (\<lambda>(result, w). Inr (if result \<noteq> 0 then 1 else 0, w))
           | _ \<Rightarrow> Inr (1, w)))"
proof (cases "find (\<lambda>x. x = Opt_h \<or> x = Opt_other) os")
  case None
  then have "Opt_h \<notin> set os" "Opt_other \<notin> set os" by (auto simp: find_None_iff)
  then show ?thesis
    using None
    by (auto simp: rdt_set_rmid_main_def rmid_parse_result orelse_def split: option.split intro!: arg_cong2 [of _ _ _ _ bindF])
qed (simp add: rdt_set_rmid_main_def rmid_parse_usage)

section \<open>Witnesses\<close>

text \<open>A process with its three standard descriptors, and a module in instructed mode with empty buffers.\<close>

definition rb4e :: HrperfRingBuffer where
  "rb4e = rb4\<lparr>head := 3\<rparr>"

definition proc3 :: "(u8 list, u64 \<Rightarrow> u32) process" where
  "proc3 = \<lparr>kern = st3\<lparr>per_cpu_buffer := (\<lambda>_. rb4e)\<rparr>, fds = [(0, OtherFile 0), (1, OtherFile 1), (2, OtherFile 2)], bad_closes = 0\<rparr>"

definition ae3 :: api_env where
  "ae3 = \<lparr>a_open = True, a_ioctl = ie3\<rparr>"

lemma rb4e: "rb_wf cfg4 rb4e" "rb_list rb4e = []"
  using rb4_wf by (simp_all add: rb4e_def rb_wf_def rb_list_def ring_slice_def rb4_def cfg4_def config_h_def)

lemma proc3_simps: "hrp_selected_cpus (kern proc3) = [0, 1, 2]" "per_cpu_buffer (kern proc3) c = rb4e" "a_open ae3"
  "device_p (kern proc3)" "instructed_profile (kern proc3)" "instructed_profile_wq (kern proc3)" "log_file (kern proc3) = Some []"
  "8 \<le> o_copied (a_ioctl ae3)" "cycles_per_us (kern proc3) = 2000"
  by (simp_all add: proc3_def st3_def ae3_def ie3_def)

lemma proc3_ok: "sys_ok cfg4 (kern proc3)"
  by (simp add: sys_ok_def mod_ok_def proc3_def st3_def rb4e cfg4_simps)

lemma proc3_polled: "polled_in_order cfg4 pe (kern proc3) = map (poll_entry cfg4 pe mach3) [0, 2]"
  by (simp add: polled_in_order_def polled_cpus_def smp_targets_def proc3_def st3_def mach3_def cfg4_def config_h_def)

theorem instruct_poll_and_log_reaches_file_witness:
  "\<exists>w' f'. hrperf_instruct_poll_and_log cfg4 ke3 ae3 proc3 = Inr w' \<and> log_file (kern w') = Some f' \<and>
     decode_log cfg4 f' = map (logged_fields cfg4) (map (poll_entry cfg4 pe3 mach3) [0, 2])"
proof -
  have "o_poll (a_ioctl ae3) = pe3" by (simp add: ae3_def ie3_def)
  then show ?thesis
    using instruct_poll_and_log_reaches_file [OF cfg4_simps(1) ke3_appends proc3_ok proc3_simps(7) _ _ proc3_simps(5,6,3,4)]
    by (simp add: proc3_simps rb4e(2) rb4_contents(2) proc3_polled) metis
qed

theorem instruct_closes_twice_witness:
  "hrperf_instruct_poll cfg4 ke3 (ae3\<lparr>a_open := False\<rparr>) proc3 = Inr (proc3\<lparr>bad_closes := 2\<rparr>)"
  using instruct_closes_twice [of "hrperf_instruct_poll cfg4 ke3 (ae3\<lparr>a_open := False\<rparr>)" cfg4 ke3 "ae3\<lparr>a_open := False\<rparr>"
      HRP_PMC_IOC_INSTRUCTED_POLL proc3]
  by (simp add: proc3_def)

theorem api_values_are_the_modules_witness:
  "hrperf_get_tsc_freq cfg4 ke3 ae3 proc3 = Inr (2000, proc3) \<and> hrperf_get_rdt_max_rmid cfg4 ke3 ae3 proc3 = Inr (0, proc3)"
  using api_values_are_the_modules [OF proc3_simps(3,4,8), of cfg4 ke3] cfg4_simps(1) by (auto simp: proc3_simps plain_def)

end
