(* ===== verification/Workloads.thy ===== *)
theory Workloads
  imports User_Api "HOL-Library.Signed_Division"
begin

text \<open>
  The load generators of \<open>src/workloads\<close>: programs that start the profiler, keep the memory or a CPU
  busy, and pause it again. They are modelled on top of the wrappers, with the module running
  beside them. The theory shows what their profiles consist of: the polls between start
  and pause and at most one more, and what each of them does when something fails.
\<close>

section \<open>The module beside a program\<close>

text \<open>What the module and the machine do while no process uses the device, with the polls one by one.\<close>

definition poll_of :: "hrp_config \<Rightarrow> poll_env \<Rightarrow> ('f, 'd) hrperf \<Rightarrow> HrperfLogEntry list list" where
  "poll_of cfg pe s =
     (case poller_thread s of None \<Rightarrow> [] | Some t \<Rightarrow> if th_pc t = Work then [polled cfg pe s] else [])"

inductive quiet_run ::
  "hrp_config \<Rightarrow> ('f, 'd) kernel_env \<Rightarrow> ('f, 'd) hrperf \<Rightarrow> HrperfLogEntry list list \<Rightarrow> ('f, 'd) hrperf \<Rightarrow> bool"
  for cfg ke s where
  start: "quiet_run cfg ke s [] s"
| poller: "quiet_run cfg ke s ps s' \<Longrightarrow> poller_step cfg ke pe s' = Inr s'' \<Longrightarrow> quiet_run cfg ke s (ps @ poll_of cfg pe s') s''"
| logger: "quiet_run cfg ke s ps s' \<Longrightarrow> logger_step cfg ke s' = Inr s'' \<Longrightarrow> quiet_run cfg ke s ps s''"
| hardware: "quiet_run cfg ke s ps s' \<Longrightarrow> quiet_run cfg ke s ps (s'\<lparr>mach := m\<rparr>)"

lemma quiet_run_is_run: "quiet_run cfg ke s ps s' \<Longrightarrow> sys_run cfg ke s (concat ps) s'"
proof (induction rule: quiet_run.induct)
  case (poller ps s' pe s'')
  have "concat (poll_of cfg pe s') = poller_entries cfg pe s'"
    by (simp add: poll_of_def poller_entries_def split: option.split)
  then show ?case using sys_run.step [OF poller.IH sys_step.poller [OF poller.hyps(2)]] by simp
next
  case (logger ps s' s'')
  then show ?case using sys_run.step [OF logger.IH sys_step.logger] by fastforce
next
  case (hardware ps s' m)
  then show ?case using sys_run.step [OF hardware.IH sys_step.hardware] by fastforce
qed (simp add: sys_run.start)

lemma sys_run_trans: "sys_run cfg ke s1 fs s2 \<Longrightarrow> sys_run cfg ke s es s1 \<Longrightarrow> sys_run cfg ke s (es @ fs) s2"
  by (induction rule: sys_run.induct) (simp_all flip: append_assoc add: sys_run.step)

text \<open>
  A poller that finds monitoring off polls at most once more: if it is about to poll, or asleep
  with its wake-up already on the way.
\<close>

definition polls_left :: "('f, 'd) hrperf \<Rightarrow> nat" where
  "polls_left s =
     (case poller_thread s of
        None \<Rightarrow> 0
      | Some t \<Rightarrow> if th_pc t = Work \<or> th_pc t = Sched \<and> th_state t = TASK_RUNNING then 1 else 0)"

text \<open>The flags that only commands change.\<close>

definition flags :: "('f, 'd) hrperf \<Rightarrow> bool \<times> bool \<times> bool" where
  "flags s = (hrperf_running s, instructed_profile s, device_p s)"

lemma polls_left_le: "polls_left s \<le> 1"
  by (simp add: polls_left_def split: option.split)

lemma quiet_poller:
  assumes "plain cfg" and "sys_ok cfg s" and "poller_step cfg ke pe s = Inr s'"
  shows "flags s' = flags s" and "\<not> hrperf_running s \<Longrightarrow> length (poll_of cfg pe s) + polls_left s' \<le> polls_left s"
proof -
  have "flags s' = flags s \<and> (\<not> hrperf_running s \<longrightarrow> length (poll_of cfg pe s) + polls_left s' \<le> polls_left s)"
  proof (cases "poller_thread s")
    case (Some t)
    have ok: "mod_ok cfg s" "th_cpu t = HRP_PMC_POLLER_CPU cfg" using assms(2) Some by (auto simp: sys_ok_def mod_ok_def)
    show ?thesis
      using poll_ok [OF assms(1) ok(1), of ke pe] assms(3) Some ok(2)
      by (cases "th_pc t")
        (auto simp: poller_step_def flags_def poll_of_def polls_left_def goto_def split: if_splits)
  qed (use assms(3) in \<open>auto simp: poller_step_def poll_of_def\<close>)
  then show "flags s' = flags s" and "\<not> hrperf_running s \<Longrightarrow> length (poll_of cfg pe s) + polls_left s' \<le> polls_left s" by auto
qed

lemma quiet_logger:
  assumes "appends (e_write ke) contents" and "sys_ok cfg s" and "logger_step cfg ke s = Inr s'"
  shows "flags s' = flags s \<and> polls_left s' = polls_left s"
proof (cases "logger_thread s")
  case (Some t)
  obtain f where "mod_ok cfg s" "log_file s = Some f" using assms(2) by (auto simp: sys_ok_def mod_ok_def)
  then show ?thesis
    using log_ok [OF assms(1)] assms(3) Some
    by (cases "th_pc t") (fastforce simp: logger_step_def flags_def polls_left_def goto_def split: if_splits)+
qed (use assms(3) in \<open>simp add: logger_step_def\<close>)

lemma quiet_run_flags:
  assumes "plain cfg" and "appends (e_write ke) contents" and "sys_ok cfg s" and "quiet_run cfg ke s ps s'"
  shows "sys_ok cfg s' \<and> flags s' = flags s \<and> (\<not> hrperf_running s \<longrightarrow> length ps + polls_left s' \<le> polls_left s)"
  using assms(4)
proof induction
  case (poller ps s' pe s'')
  have "sys_ok cfg s''"
    using sys_run_good [OF assms(1,2) quiet_run_is_run [OF quiet_run.poller [OF poller.hyps]] assms(3)] by (simp add: good_step_def)
  then show ?case using quiet_poller [OF assms(1) _ poller.hyps(2)] poller.IH by (auto simp: flags_def)
next
  case (logger ps s' s'')
  have "sys_ok cfg s''"
    using sys_run_good [OF assms(1,2) quiet_run_is_run [OF quiet_run.logger [OF logger.hyps]] assms(3)] by (simp add: good_step_def)
  then show ?case using quiet_logger [OF assms(2) _ logger.hyps(2)] logger.IH by auto
next
  case (hardware ps s' m)
  then show ?case by (simp add: sys_ok_def mod_ok_def flags_def polls_left_def)
qed (use assms(3) in simp)

section \<open>Programs\<close>

text \<open>
  A program: its process and the region it has allocated. What the C library and the rest of the
  machine answer: the calls of the wrappers by number, whether memory, affinity and threads
  are granted, the readings of the clock (by thread), and what becomes of the module meanwhile,
  in the phases before the start, during the work and after the pause.
\<close>

record ('f, 'd) prog =
  proc :: "('f, 'd) process"
  region :: "u8 list option"

record ('f, 'd) work_env =
  w_api :: "nat \<Rightarrow> api_env"
  w_malloc :: bool
  w_pin :: bool
  w_create :: "nat \<Rightarrow> bool"
  w_join :: "nat \<Rightarrow> bool"
  w_time :: "nat \<Rightarrow> nat \<Rightarrow> int"
  w_meanwhile :: "nat \<Rightarrow> ('f, 'd) hrperf \<Rightarrow> ('f, 'd) hrperf"

abbreviation module :: "('f, 'd) prog \<Rightarrow> ('f, 'd) hrperf" where
  "module p \<equiv> kern (proc p)"

definition meanwhile :: "('f, 'd) work_env \<Rightarrow> nat \<Rightarrow> ('f, 'd) prog \<Rightarrow> ('f, 'd) prog" where
  "meanwhile we k p = p\<lparr>proc := (proc p)\<lparr>kern := w_meanwhile we k (module p)\<rparr>\<rparr>"

lemma meanwhile_simps [simp]:
  "region (meanwhile we k p) = region p" "module (meanwhile we k p) = w_meanwhile we k (module p)"
  "fds (proc (meanwhile we k p)) = fds (proc p)"
  by (simp_all add: meanwhile_def)

definition EXIT_SUCCESS :: int where "EXIT_SUCCESS = 0"
definition EXIT_FAILURE :: int where "EXIT_FAILURE = 1"

text \<open>\<open>malloc\<close> followed by \<open>memset\<close>, accesses to the region, and \<open>free\<close>.\<close>

definition malloc_memset :: "nat \<Rightarrow> u8 \<Rightarrow> ('f, 'd) prog \<Rightarrow> ('f, 'd) prog" where
  "malloc_memset n v p = p\<lparr>region := Some (replicate n v)\<rparr>"

definition load_byte :: "nat \<Rightarrow> ('f, 'd) prog \<Rightarrow> u8 may" where
  "load_byte i p =
     (case region p of
        None \<Rightarrow> Inl NullDeref
      | Some r \<Rightarrow> if i < length r then Inr (r ! i) else Inl OutOfBounds)"

definition store_byte :: "nat \<Rightarrow> u8 \<Rightarrow> ('f, 'd) prog \<Rightarrow> ('f, 'd) prog may" where
  "store_byte i v p =
     (case region p of
        None \<Rightarrow> Inl NullDeref
      | Some r \<Rightarrow> if i < length r then Inr (p\<lparr>region := Some (r[i := v])\<rparr>) else Inl OutOfBounds)"

definition free_region :: "('f, 'd) prog \<Rightarrow> ('f, 'd) prog may" where
  "free_region p = (case region p of None \<Rightarrow> Inl BadFree | Some r \<Rightarrow> Inr (p\<lparr>region := None\<rparr>))"

text \<open>A call of a wrapper whose result the program ignores.\<close>

definition ignoring :: "(('f, 'd) process \<Rightarrow> (int \<times> ('f, 'd) process) may) \<Rightarrow> ('f, 'd) prog \<Rightarrow> ('f, 'd) prog may" where
  "ignoring f p = bindF (f (proc p)) (\<lambda>(r, w). Inr (p\<lparr>proc := w\<rparr>))"

section \<open>Reading memory (utmem.c, mbw1.c)\<close>

definition REGION_SIZE :: nat where "REGION_SIZE = 1 * 1024 * 1024 * 1024"
definition MEMORY_SIZE :: nat where "MEMORY_SIZE = 4 * 1024 * 1024 * 1024"

definition scan :: "nat \<Rightarrow> ('f, 'd) prog \<Rightarrow> ('f, 'd) prog may" where
  "scan n p = foldF (\<lambda>i p. bindF (load_byte i p) (\<lambda>value. Inr p)) [0..<n] p"

definition scan_memory ::
  "hrp_config \<Rightarrow> ('f, 'd) kernel_env \<Rightarrow> ('f, 'd) work_env \<Rightarrow> ('f, 'd) prog \<Rightarrow> ('f, 'd) prog may" where
  "scan_memory cfg ke we p =
     bindF (ignoring (hrperf_start_control cfg ke (w_api we 0)) p) (\<lambda>p.
     bindF (scan REGION_SIZE (meanwhile we 1 p)) (\<lambda>p.
     bindF (ignoring (hrperf_pause_control cfg ke (w_api we 1)) p) (\<lambda>p.
     Inr (meanwhile we 2 p))))"

definition utmem_main ::
  "hrp_config \<Rightarrow> ('f, 'd) kernel_env \<Rightarrow> ('f, 'd) work_env \<Rightarrow> ('f, 'd) prog \<Rightarrow> (int \<times> ('f, 'd) prog) may" where
  "utmem_main cfg ke we p =
     (if \<not> w_malloc we then Inr (EXIT_FAILURE, p)
      else
        (let p = meanwhile we 0 (malloc_memset REGION_SIZE 127 p) in
         if \<not> w_create we 0 then bindF (free_region p) (\<lambda>p. Inr (EXIT_FAILURE, p))
         else
           bindF (scan_memory cfg ke we p) (\<lambda>p.
           bindF (free_region p) (\<lambda>p. Inr (EXIT_SUCCESS, p)))))"

text \<open>\<open>CLOCK_MONOTONIC_RAW\<close> readings, and the time between two of them in nanoseconds.\<close>

record timespec =
  tv_sec :: int
  tv_nsec :: int

definition elapsed_ns :: "timespec \<Rightarrow> timespec \<Rightarrow> u64" where
  "elapsed_ns t0 t1 =
     (let start_ns = word_of_int (tv_sec t0) * 1000000000 + word_of_int (tv_nsec t0);
          end_ns = word_of_int (tv_sec t1) * 1000000000 + word_of_int (tv_nsec t1) in
      end_ns - start_ns)"

definition memory_scanner_mbw1 ::
  "hrp_config \<Rightarrow> ('f, 'd) kernel_env \<Rightarrow> ('f, 'd) work_env \<Rightarrow> ('f, 'd) prog \<Rightarrow> ('f, 'd) prog may" where
  "memory_scanner_mbw1 cfg ke we p =
     bindF (ignoring (hrperf_start_control cfg ke (w_api we 0)) p) (\<lambda>p.
     bindF (scan MEMORY_SIZE (meanwhile we 1 p)) (\<lambda>p.
     bindF (ignoring (hrperf_pause_control cfg ke (w_api we 1)) p) (\<lambda>p.
     Inr (meanwhile we 2 p))))"

text \<open>
  \<open>mbw1.c\<close> ignores the result of \<open>pthread_create\<close>: if no thread was created, \<open>pthread_join\<close> is called with
  an uninitialised handle, which is a fault here.
\<close>

definition mbw1_main ::
  "hrp_config \<Rightarrow> ('f, 'd) kernel_env \<Rightarrow> ('f, 'd) work_env \<Rightarrow> ('f, 'd) prog \<Rightarrow> (int \<times> ('f, 'd) prog) may" where
  "mbw1_main cfg ke we p =
     (if \<not> w_malloc we then Inr (1, p)
      else
        (let p = meanwhile we 0 (malloc_memset MEMORY_SIZE 0 p) in
         bindF (if w_create we 0 then memory_scanner_mbw1 cfg ke we p else Inl NullDeref) (\<lambda>p.
         bindF (free_region p) (\<lambda>p. Inr (0, p)))))"

section \<open>Writing memory (utrmem.c, mbw2.c)\<close>

definition fill_memory ::
  "hrp_config \<Rightarrow> ('f, 'd) kernel_env \<Rightarrow> ('f, 'd) work_env \<Rightarrow> ('f, 'd) prog \<Rightarrow> ('f, 'd) prog may" where
  "fill_memory cfg ke we p =
     bindF (ignoring (hrperf_start cfg ke (w_api we 0)) p) (\<lambda>p.
     bindF (foldF (\<lambda>i p. store_byte i 231 p) [0..<REGION_SIZE] (meanwhile we 1 p)) (\<lambda>p.
     bindF (ignoring (hrperf_pause cfg ke (w_api we 1)) p) (\<lambda>p.
     Inr (meanwhile we 2 p))))"

text \<open>The time \<open>fill_memory\<close> reports; C division truncates towards zero.\<close>

definition duration_ms :: "timespec \<Rightarrow> timespec \<Rightarrow> int" where
  "duration_ms t0 t1 =
     (tv_sec t1 - tv_sec t0) * 1000 + (tv_nsec t1 - tv_nsec t0) sdiv 1000000"

text \<open>The verification loop: the first index that does not hold 231.\<close>

fun verify :: "nat list \<Rightarrow> ('f, 'd) prog \<Rightarrow> nat option may" where
  "verify [] p = Inr None"
| "verify (i # is) p = bindF (load_byte i p) (\<lambda>v. if v \<noteq> 231 then Inr (Some i) else verify is p)"

definition utrmem_main ::
  "hrp_config \<Rightarrow> ('f, 'd) kernel_env \<Rightarrow> ('f, 'd) work_env \<Rightarrow> ('f, 'd) prog \<Rightarrow> (int \<times> ('f, 'd) prog) may" where
  "utrmem_main cfg ke we p =
     (if \<not> w_malloc we then Inr (EXIT_FAILURE, p)
      else
        (let p = meanwhile we 0 (malloc_memset REGION_SIZE 127 p) in
         if \<not> w_create we 0 then bindF (free_region p) (\<lambda>p. Inr (EXIT_FAILURE, p))
         else
           bindF (fill_memory cfg ke we p) (\<lambda>p.
           bindF (verify [0..<REGION_SIZE] p) (\<lambda>bad.
           bindF (free_region p) (\<lambda>p.
           Inr (if bad \<noteq> None then EXIT_FAILURE else EXIT_SUCCESS, p))))))"

definition memory_writer ::
  "hrp_config \<Rightarrow> ('f, 'd) kernel_env \<Rightarrow> ('f, 'd) work_env \<Rightarrow> ('f, 'd) prog \<Rightarrow> ('f, 'd) prog may" where
  "memory_writer cfg ke we p =
     bindF (ignoring (hrperf_start_control cfg ke (w_api we 0)) p) (\<lambda>p.
     bindF (foldF (\<lambda>i p. store_byte i (ucast (word_of_nat i AND 0xFF :: u64)) p) [0..<MEMORY_SIZE] (meanwhile we 1 p)) (\<lambda>p.
     bindF (ignoring (hrperf_pause_control cfg ke (w_api we 1)) p) (\<lambda>p.
     Inr (meanwhile we 2 p))))"

definition mbw2_main ::
  "hrp_config \<Rightarrow> ('f, 'd) kernel_env \<Rightarrow> ('f, 'd) work_env \<Rightarrow> ('f, 'd) prog \<Rightarrow> (int \<times> ('f, 'd) prog) may" where
  "mbw2_main cfg ke we p =
     (if \<not> w_malloc we then Inr (1, p)
      else
        (let p = meanwhile we 0 (malloc_memset MEMORY_SIZE 0 p) in
         if \<not> w_create we 0 then bindF (free_region p) (\<lambda>p. Inr (1, p))
         else
           bindF (memory_writer cfg ke we p) (\<lambda>p.
           bindF (free_region p) (\<lambda>p. Inr (0, p)))))"

section \<open>Memory and CPU in turn, for a time (mixed.c)\<close>

text \<open>
  A program that may run forever: \<open>None\<close> says that it does. \<open>timed_loop\<close> is
  \<open>while (difftime (time (NULL), start_time) < RUN_TIME)\<close>, with the readings of the clock numbered
  from the one after \<open>start_time\<close>.
\<close>

definition bindL :: "'a may option \<Rightarrow> ('a \<Rightarrow> 'b may option) \<Rightarrow> 'b may option" where
  "bindL m f = (case m of None \<Rightarrow> None | Some (Inl e) \<Rightarrow> Some (Inl e) | Some (Inr x) \<Rightarrow> f x)"

definition RUN_TIME :: int where "RUN_TIME = 1"

partial_function (option) timed_loop :: "(nat \<Rightarrow> int) \<Rightarrow> nat \<Rightarrow> ('s \<Rightarrow> 's may) \<Rightarrow> 's \<Rightarrow> 's may option" where
  "timed_loop clock k body s =
     (if clock k - clock 0 < RUN_TIME then
        (case body s of Inl e \<Rightarrow> Some (Inl e) | Inr s' \<Rightarrow> timed_loop clock (Suc k) body s')
      else Some (Inr s))"

definition memory_scanner :: "('f, 'd) work_env \<Rightarrow> ('f, 'd) prog \<Rightarrow> ('f, 'd) prog may option" where
  "memory_scanner we p = timed_loop (w_time we 0) 1 (scan MEMORY_SIZE) p"

text \<open>The Fibonacci numbers \<open>a\<close> and \<open>b\<close>, modulo \<open>2 ^ 64\<close>.\<close>

definition cpu_intensive_task :: "('f, 'd) work_env \<Rightarrow> (u64 \<times> u64) may option" where
  "cpu_intensive_task we = timed_loop (w_time we 1) 1 (\<lambda>(a, b). let temp = a + b in Inr (b, temp)) (0, 1)"

text \<open>
  \<open>pthread_join\<close> of a thread that was just created and that nobody else joins has no documented reason to fail;
  the branches for its failure are kept, but the thread has come to its end in them as well. What a
  join that returned early would leave behind, a region that is freed while the thread scans it, is left out.
\<close>

definition mixed_main ::
  "hrp_config \<Rightarrow> ('f, 'd) kernel_env \<Rightarrow> ('f, 'd) work_env \<Rightarrow> ('f, 'd) prog \<Rightarrow> (int \<times> ('f, 'd) prog) may option" where
  "mixed_main cfg ke we p =
     (let fail = (\<lambda>p. Some (bindF (free_region p) (\<lambda>p. Inr (EXIT_FAILURE, p)))) in
      if \<not> w_pin we then Some (Inr (EXIT_FAILURE, p))
      else if \<not> w_malloc we then Some (Inr (EXIT_FAILURE, p))
      else
        (let p = meanwhile we 0 (malloc_memset MEMORY_SIZE 0 p) in
         bindL (Some (ignoring (hrperf_start_control cfg ke (w_api we 0)) p)) (\<lambda>p.
         if \<not> w_create we 0 then fail p
         else
           bindL (memory_scanner we (meanwhile we 1 p)) (\<lambda>p.
           if \<not> w_join we 0 then fail p
           else if \<not> w_create we 1 then fail p
           else
             bindL (cpu_intensive_task we) (\<lambda>ab.
             if \<not> w_join we 1 then fail (meanwhile we 2 p)
             else
               bindL (Some (ignoring (hrperf_pause_control cfg ke (w_api we 1)) (meanwhile we 2 p))) (\<lambda>p.
               Some (bindF (free_region p) (\<lambda>p. Inr (EXIT_SUCCESS, meanwhile we 3 p)))))))))"

section \<open>A busy CPU (cpu1.c)\<close>

partial_function (option) spin :: "u64 \<Rightarrow> u64 \<Rightarrow> unit option" where
  "spin a b = (let temp = a + b in spin b temp)"

definition cpu1_main ::
  "hrp_config \<Rightarrow> ('f, 'd) kernel_env \<Rightarrow> ('f, 'd) work_env \<Rightarrow> ('f, 'd) prog \<Rightarrow> (int \<times> ('f, 'd) prog) may option" where
  "cpu1_main cfg ke we p =
     (if \<not> w_pin we then Some (Inr (EXIT_FAILURE, p))
      else if \<not> w_create we 0 then Some (Inr (EXIT_FAILURE, p))
      else
        bindL (Some (ignoring (hrperf_start_control cfg ke (w_api we 0)) p)) (\<lambda>p.
        case spin 0 1 of
          None \<Rightarrow> None
        | Some u \<Rightarrow> if \<not> w_join we 0 then Some (Inr (EXIT_FAILURE, p)) else Some (Inr (0, p))))"

section \<open>What a program does to the module\<close>

text \<open>Beside the program only the module's threads and the hardware are active.\<close>

definition beside :: "hrp_config \<Rightarrow> ('f, 'd) kernel_env \<Rightarrow> ('f, 'd) work_env \<Rightarrow> bool" where
  "beside cfg ke we \<longleftrightarrow> (\<forall>k s. \<exists>ps. quiet_run cfg ke s ps (w_meanwhile we k s))"

text \<open>The module as a program should find it: loaded, paused and its poller asleep.\<close>

definition idle :: "hrp_config \<Rightarrow> ('f, 'd) hrperf \<Rightarrow> bool" where
  "idle cfg s \<longleftrightarrow> sys_ok cfg s \<and> flags s = (False, False, True) \<and> polls_left s = 0"

lemma ignoring_command:
  assumes "a_open ae" and "device_p (module p)" and "hrperf_ioctl cfg ke (a_ioctl ae) cmd (module p) = Inr (r, out, s')"
    and "f = hrperf_start cfg ke ae \<and> cmd = HRP_PMC_IOC_START \<or> f = hrperf_pause cfg ke ae \<and> cmd = HRP_PMC_IOC_PAUSE"
  shows "ignoring f p = Inr (p\<lparr>proc := (proc p)\<lparr>kern := s'\<rparr>\<rparr>)"
  using assms by (elim disjE) (auto simp: ignoring_def start_pause_are_commands dev_call_def)

lemma beside_phase:
  assumes "plain cfg" and "appends (e_write ke) contents" and "sys_ok cfg s" and "beside cfg ke we"
  obtains ps where "quiet_run cfg ke s ps (w_meanwhile we k s)" "sys_ok cfg (w_meanwhile we k s)" "flags (w_meanwhile we k s) = flags s"
    "\<not> hrperf_running s \<Longrightarrow> length ps \<le> polls_left s"
proof -
  obtain ps where "quiet_run cfg ke s ps (w_meanwhile we k s)" using assms(4) by (auto simp: beside_def)
  then show thesis using quiet_run_flags [OF assms(1-3)] by (intro that [of ps]) fastforce+
qed

lemma start_command:
  assumes "sys_ok cfg s" and "flags s = (False, False, True)"
  obtains s1 where "\<And>ie. hrperf_ioctl cfg ke ie HRP_PMC_IOC_START s = Inr (Ok0, [], s1)"
    "sys_ok cfg s1" "flags s1 = (True, False, True)" "sys_run cfg ke s [] s1"
proof -
  have f: "\<not> hrperf_running s" "\<not> instructed_profile s" "device_p s" using assms(2) by (auto simp: flags_def)
  obtain t l where t: "poller_thread s = Some t" "logger_thread s = Some l" using assms(1) f(2) by (auto simp: sys_ok_def)
  define s1 where "s1 = s\<lparr>hrperf_running := True, poller_thread := Some (t\<lparr>th_state := TASK_RUNNING\<rparr>),
    logger_thread := Some (l\<lparr>th_state := TASK_RUNNING\<rparr>)\<rparr>"
  have i: "hrperf_ioctl cfg ke ie HRP_PMC_IOC_START s = Inr (Ok0, [], s1)" for ie
    using ioctl_start [OF f(2) t] f(1) by (simp add: s1_def)
  have "sys_run cfg ke s [] s1"
    using sys_run.step [OF sys_run.start sys_step.ioctl [OF i]] by (simp add: ioctl_entries_def ioc_defs)
  moreover have "sys_ok cfg s1" using assms(1) t by (auto simp: s1_def sys_ok_def mod_ok_def)
  moreover have "flags s1 = (True, False, True)" using f by (simp add: s1_def flags_def)
  ultimately show thesis using that i by blast
qed

lemma pause_command:
  assumes "sys_ok cfg s" and "\<not> instructed_profile s"
  shows "hrperf_ioctl cfg ke ie HRP_PMC_IOC_PAUSE s = Inr (Ok0, [], s\<lparr>hrperf_running := False\<rparr>)"
    and "sys_ok cfg (s\<lparr>hrperf_running := False\<rparr>)" and "sys_run cfg ke s [] (s\<lparr>hrperf_running := False\<rparr>)"
proof -
  show i: "hrperf_ioctl cfg ke ie HRP_PMC_IOC_PAUSE s = Inr (Ok0, [], s\<lparr>hrperf_running := False\<rparr>)" for ie
    using ioctl_pause [OF assms(2)] .
  show "sys_ok cfg (s\<lparr>hrperf_running := False\<rparr>)" using assms(1) by (auto simp: sys_ok_def mod_ok_def)
  show "sys_run cfg ke s [] (s\<lparr>hrperf_running := False\<rparr>)"
    using sys_run.step [OF sys_run.start sys_step.ioctl [OF i]] by (simp add: ioctl_entries_def ioc_defs)
qed

text \<open>
  The profile of a piece of work: the module is started, polls the window while the work is done,
  is paused, and polls at most once more.
\<close>

definition profile ::
  "hrp_config \<Rightarrow> ('f, 'd) kernel_env \<Rightarrow> ('f, 'd) work_env \<Rightarrow> ('f, 'd) hrperf \<Rightarrow>
   HrperfLogEntry list list \<Rightarrow> HrperfLogEntry list list \<Rightarrow> ('f, 'd) hrperf \<Rightarrow> bool" where
  "profile cfg ke we s window after s' \<longleftrightarrow>
     (\<exists>s1. hrperf_ioctl cfg ke (a_ioctl (w_api we 0)) HRP_PMC_IOC_START s = Inr (Ok0, [], s1) \<and>
        quiet_run cfg ke s1 window (w_meanwhile we 1 s1)) \<and>
     length after \<le> 1 \<and> sys_run cfg ke s (concat (window @ after)) s' \<and> flags s' = (False, False, True)"

text \<open>The common shape of the thread functions.\<close>

definition profiled_work ::
  "hrp_config \<Rightarrow> ('f, 'd) kernel_env \<Rightarrow> ('f, 'd) work_env \<Rightarrow> (('f, 'd) prog \<Rightarrow> ('f, 'd) prog may) \<Rightarrow> ('f, 'd) prog \<Rightarrow> ('f, 'd) prog may" where
  "profiled_work cfg ke we work p =
     bindF (ignoring (hrperf_start cfg ke (w_api we 0)) p) (\<lambda>p.
     bindF (work (meanwhile we 1 p)) (\<lambda>p.
     bindF (ignoring (hrperf_pause cfg ke (w_api we 1)) p) (\<lambda>p.
     Inr (meanwhile we 2 p))))"

lemma thread_shapes:
  "scan_memory cfg ke we = profiled_work cfg ke we (scan REGION_SIZE)"
  "memory_scanner_mbw1 cfg ke we = profiled_work cfg ke we (scan MEMORY_SIZE)"
  "fill_memory cfg ke we = profiled_work cfg ke we (foldF (\<lambda>i p. store_byte i 231 p) [0..<REGION_SIZE])"
  "memory_writer cfg ke we = profiled_work cfg ke we
     (foldF (\<lambda>i p. store_byte i (ucast (word_of_nat i AND 0xFF :: u64)) p) [0..<MEMORY_SIZE])"
  by (simp_all add: fun_eq_iff scan_memory_def memory_scanner_mbw1_def fill_memory_def memory_writer_def profiled_work_def
      control_header [abs_def])

lemma bracket:
  assumes "plain cfg" and "appends (e_write ke) contents" and "beside cfg ke we" and "sys_ok cfg (module p)"
    and "flags (module p) = (False, False, True)" and "a_open (w_api we 0)" and "a_open (w_api we 1)"
    and "\<And>q. region q = region p \<Longrightarrow> work q = Inr (q\<lparr>region := r\<rparr>)"
  shows "\<exists>window after s'. profile cfg ke we (module p) window after s' \<and>
    profiled_work cfg ke we work p = Inr (p\<lparr>proc := (proc p)\<lparr>kern := s'\<rparr>, region := r\<rparr>)"
proof -
  obtain s1 where s1: "\<And>ie. hrperf_ioctl cfg ke ie HRP_PMC_IOC_START (module p) = Inr (Ok0, [], s1)"
    "sys_ok cfg s1" "flags s1 = (True, False, True)" "sys_run cfg ke (module p) [] s1"
    using start_command [OF assms(4,5)] by blast
  let ?s2 = "w_meanwhile we 1 s1"
  obtain window where w: "quiet_run cfg ke s1 window ?s2" "sys_ok cfg ?s2" "flags ?s2 = (True, False, True)"
    using beside_phase [OF assms(1,2) s1(2) assms(3), of 1] s1(3) by metis
  let ?s3 = "?s2\<lparr>hrperf_running := False\<rparr>"
  have i: "\<not> instructed_profile ?s2" "device_p ?s2" using w(3) by (auto simp: flags_def)
  note s3 = pause_command [OF w(2) i(1)]
  have f: "flags ?s3 = (False, False, True)" "\<not> hrperf_running ?s3" using w(3) by (auto simp: flags_def)
  obtain after where a: "quiet_run cfg ke ?s3 after (w_meanwhile we 2 ?s3)" "flags (w_meanwhile we 2 ?s3) = (False, False, True)"
    "length after \<le> 1"
    using beside_phase [OF assms(1,2) s3(2) assms(3), of 2] f polls_left_le [of ?s3] by (metis order.trans)
  have "sys_run cfg ke (module p) (concat (window @ after)) (w_meanwhile we 2 ?s3)"
    using sys_run_trans [OF quiet_run_is_run [OF a(1)]
        sys_run_trans [OF s3(3) sys_run_trans [OF quiet_run_is_run [OF w(1)] s1(4)]]] by simp
  then have "profile cfg ke we (module p) window after (w_meanwhile we 2 ?s3)"
    using s1(1) w(1) a(2,3) unfolding profile_def by blast
  moreover have "device_p (module p)" using assms(5) by (simp add: flags_def)
  then have "ignoring (hrperf_start cfg ke (w_api we 0)) p = Inr (p\<lparr>proc := (proc p)\<lparr>kern := s1\<rparr>\<rparr>)"
    using ignoring_command [OF assms(6) _ s1(1)] by blast
  moreover have "ignoring (hrperf_pause cfg ke (w_api we 1)) q = Inr (q\<lparr>proc := (proc q)\<lparr>kern := ?s3\<rparr>\<rparr>)" if "module q = ?s2" for q
    by (rule ignoring_command [OF assms(7), where cmd = HRP_PMC_IOC_PAUSE]) (use s3(1) i(2) that in auto)
  ultimately show ?thesis by (fastforce simp: profiled_work_def assms(8) meanwhile_def simp del: One_nat_def)
qed

lemma region_same: "region q = r \<Longrightarrow> q\<lparr>region := r\<rparr> = q"
  by (cases q) auto

lemma scan_ok: "region p = Some r \<Longrightarrow> n \<le> length r \<Longrightarrow> scan n p = Inr p"
  unfolding scan_def by (induction n) (simp_all add: foldF_upt_Suc load_byte_def del: upt_Suc)

lemma fill_ok:
  "region p = Some r \<Longrightarrow> n \<le> length r \<Longrightarrow>
   foldF (\<lambda>i p. store_byte i (f i) p) [0..<n] p = Inr (p\<lparr>region := Some (map f [0..<n] @ drop n r)\<rparr>)"
proof (induction n)
  case 0
  then show ?case by (simp add: region_same)
next
  case (Suc n)
  then have "foldF (\<lambda>i p. store_byte i (f i) p) [0..<n] p = Inr (p\<lparr>region := Some (map f [0..<n] @ drop n r)\<rparr>)" by simp
  moreover have "drop n r = r ! n # drop (Suc n) r" using Suc.prems by (simp add: Cons_nth_drop_Suc)
  ultimately show ?case
    unfolding foldF_upt_Suc using Suc.prems by (simp add: store_byte_def [of n] list_update_append)
qed

lemma verify_ok: "region p = Some (replicate n 231) \<Longrightarrow> set is \<subseteq> {..<n} \<Longrightarrow> verify is p = Inr None"
  by (induction "is") (auto simp: load_byte_def)

lemma phase_before:
  assumes "plain cfg" and "appends (e_write ke) contents" and "beside cfg ke we" and "idle cfg (module p)"
  shows "sys_ok cfg (w_meanwhile we 0 (module p))" and "flags (w_meanwhile we 0 (module p)) = (False, False, True)"
    and "quiet_run cfg ke (module p) [] (w_meanwhile we 0 (module p))"
proof -
  have s: "sys_ok cfg (module p)" "flags (module p) = (False, False, True)" "polls_left (module p) = 0" "\<not> hrperf_running (module p)"
    using assms(4) by (auto simp: idle_def flags_def)
  from beside_phase [OF assms(1,2) s(1) assms(3), of 0] obtain ps
    where ps: "quiet_run cfg ke (module p) ps (w_meanwhile we 0 (module p))" "sys_ok cfg (w_meanwhile we 0 (module p))"
      "flags (w_meanwhile we 0 (module p)) = flags (module p)" "length ps \<le> polls_left (module p)" using s(4) by metis
  then show "sys_ok cfg (w_meanwhile we 0 (module p))" "flags (w_meanwhile we 0 (module p)) = (False, False, True)"
    "quiet_run cfg ke (module p) [] (w_meanwhile we 0 (module p))" using s(2,3) by simp_all
qed

text \<open>The programs that do their work in one thread, and what they leave in the region.\<close>

lemma work_done:
  "region q = Some (replicate n v) \<Longrightarrow> scan n q = Inr (q\<lparr>region := Some (replicate n v)\<rparr>)"
  "region q = Some (replicate n v) \<Longrightarrow> foldF (\<lambda>i p. store_byte i (f i) p) [0..<n] q = Inr (q\<lparr>region := Some (map f [0..<n])\<rparr>)"
  by (simp_all add: scan_ok region_same fill_ok)

lemma prepared_work:
  assumes "plain cfg" and "appends (e_write ke) contents" and "beside cfg ke we" and "idle cfg (module p)"
    and "a_open (w_api we 0)" and "a_open (w_api we 1)"
    and "\<And>q. region q = Some (replicate n v) \<Longrightarrow> work q = Inr (q\<lparr>region := Some r\<rparr>)"
  obtains window after s' where "profile cfg ke we (w_meanwhile we 0 (module p)) window after s'"
    "profiled_work cfg ke we work (meanwhile we 0 (malloc_memset n v p)) = Inr (p\<lparr>proc := (proc p)\<lparr>kern := s'\<rparr>, region := Some r\<rparr>)"
proof -
  let ?q = "meanwhile we 0 (malloc_memset n v p)"
  have q: "module ?q = w_meanwhile we 0 (module p)" "region ?q = Some (replicate n v)"
    by (simp_all add: meanwhile_def malloc_memset_def)
  have e: "?q\<lparr>proc := (proc ?q)\<lparr>kern := s'\<rparr>, region := Some r\<rparr> = p\<lparr>proc := (proc p)\<lparr>kern := s'\<rparr>, region := Some r\<rparr>" for s'
    by (simp add: meanwhile_def malloc_memset_def)
  from bracket [OF assms(1-3), of ?q work "Some r", unfolded q e, OF phase_before(1,2) [OF assms(1-4)] assms(5-7)] that
  show thesis by blast
qed

lemma profiled_main:
  assumes "plain cfg" and "appends (e_write ke) contents" and "beside cfg ke we" and "idle cfg (module p)"
    and "a_open (w_api we 0)" and "a_open (w_api we 1)" and "w_malloc we" and "w_create we 0"
    and "main \<in> {utmem_main, mbw1_main, utrmem_main, mbw2_main}"
  shows "\<exists>window after s'. profile cfg ke we (w_meanwhile we 0 (module p)) window after s' \<and>
    main cfg ke we p = Inr (EXIT_SUCCESS, p\<lparr>proc := (proc p)\<lparr>kern := s'\<rparr>, region := None\<rparr>)"
proof -
  note run = prepared_work [OF assms(1-6)]
  note finish = Let_def thread_shapes free_region_def EXIT_SUCCESS_def assms(7,8)
  from assms(9) consider "main = utmem_main" | "main = mbw1_main" | "main = utrmem_main" | "main = mbw2_main" by blast
  then show ?thesis
  proof cases
    case 1
    show ?thesis unfolding 1 by (rule run [OF work_done(1) [of _ REGION_SIZE 127]]) (assumption, intro exI conjI, assumption, simp add: utmem_main_def finish)
  next
    case 2
    show ?thesis unfolding 2 by (rule run [OF work_done(1) [of _ MEMORY_SIZE 0]]) (assumption, intro exI conjI, assumption, simp add: mbw1_main_def finish)
  next
    case 3
    show ?thesis unfolding 3
      by (rule run [OF work_done(2) [of _ REGION_SIZE 127 "\<lambda>_. 231"]])
        (assumption, intro exI conjI, assumption, simp add: utrmem_main_def finish map_replicate_const verify_ok [where n = REGION_SIZE] subset_iff)
  next
    case 4
    show ?thesis unfolding 4
      by (rule run [OF work_done(2) [of _ MEMORY_SIZE 0 "\<lambda>i. ucast (word_of_nat i AND 0xFF :: u64)"]]) (assumption, intro exI conjI, assumption, simp add: mbw2_main_def finish)
  qed
qed

lemma kept_ok_subseq: "kept_ok n old polls out new \<Longrightarrow> subseq out (old @ polls)"
proof -
  assume "kept_ok n old polls out new"
  then obtain kept where "out @ new = old @ kept" "subseq kept polls" by (auto simp: kept_ok_def)
  moreover have "subseq out (out @ new)" by (simp add: subseq_rev_drop_many)
  ultimately show ?thesis by (metis list_emb_append_mono subseq_order.order_refl subseq_order.trans)
qed

text \<open>
  C12. The profile of a load generator is the profile of its work: each of the programs that read or
  write a region of memory starts the module, works, pauses it and ends successfully with the
  region freed and the descriptors as before, and the bytes that its run adds to the log are
  entries that were buffered before, entries of the polls between start and pause, and the
  entries of at most one more poll, in this order on every CPU.
\<close>

theorem workload_profile:
  assumes "plain cfg" and "appends (e_write ke) contents" and "beside cfg ke we" and "idle cfg (module p)"
    and "a_open (w_api we 0)" and "a_open (w_api we 1)" and "w_malloc we" and "w_create we 0"
    and "main \<in> {utmem_main, mbw1_main, utrmem_main, mbw2_main}"
  shows "\<exists>window after s' f f' log. profile cfg ke we (w_meanwhile we 0 (module p)) window after s' \<and>
    main cfg ke we p = Inr (EXIT_SUCCESS, p\<lparr>proc := (proc p)\<lparr>kern := s'\<rparr>, region := None\<rparr>) \<and>
    log_file (module p) = Some f \<and> log_file s' = Some f' \<and> contents f' = contents f @ concat (map (entry_bytes cfg) log) \<and>
    (\<forall>c \<in> set (hrp_selected_cpus (module p)).
       subseq (mine c log) (rb_list (per_cpu_buffer (module p) c) @ mine c (concat (window @ after))))"
proof -
  obtain window after s' where w: "profile cfg ke we (w_meanwhile we 0 (module p)) window after s'"
    "main cfg ke we p = Inr (EXIT_SUCCESS, p\<lparr>proc := (proc p)\<lparr>kern := s'\<rparr>, region := None\<rparr>)"
    using profiled_main [OF assms] by blast
  have "sys_run cfg ke (w_meanwhile we 0 (module p)) (concat (window @ after)) s'" using w(1) by (simp add: profile_def)
  from sys_run_trans [OF this quiet_run_is_run [OF phase_before(3) [OF assms(1-4)]]]
  have "sys_run cfg ke (module p) (concat (window @ after)) s'" by simp
  moreover have "sys_ok cfg (module p)" using assms(4) by (simp add: idle_def)
  ultimately have "accounts cfg contents (module p) (concat (window @ after)) s'"
    using sys_run_good [OF assms(1,2)] by (simp add: good_step_def)
  then show ?thesis using w kept_ok_subseq unfolding accounts_def by blast
qed

section \<open>Programs that may not end\<close>

lemma timed_loop_ends:
  assumes "k \<le> n" and "\<not> clock n - clock 0 < RUN_TIME" and "I s" and "\<And>s. I s \<Longrightarrow> \<exists>s'. body s = Inr s' \<and> I s'"
  shows "\<exists>s'. timed_loop clock k body s = Some (Inr s') \<and> I s'"
  using assms(1,3)
proof (induction k arbitrary: s rule: inc_induct)
  case base
  then show ?case using assms(2) by (subst timed_loop.simps) simp
next
  case (step k)
  obtain s' where "body s = Inr s'" "I s'" using assms(4) [OF step.prems] by blast
  then show ?case using step.IH [of s'] step.prems by (subst timed_loop.simps) auto
qed

text \<open>The loop that computes Fibonacci numbers until the clock has advanced by a second.\<close>

fun fib :: "nat \<Rightarrow> nat" where
  "fib 0 = 0"
| "fib (Suc 0) = 1"
| "fib (Suc (Suc n)) = fib n + fib (Suc n)"

lemma cpu_task_fib:
  assumes "k \<le> n" and "\<And>j. k \<le> j \<Longrightarrow> j < n \<Longrightarrow> clock j - clock 0 < RUN_TIME" and "\<not> clock n - clock 0 < RUN_TIME"
  shows "timed_loop clock k (\<lambda>(a, b). let temp = a + b in Inr (b, temp)) (word_of_nat (fib i), word_of_nat (fib (Suc i))) =
    Some (Inr (word_of_nat (fib (i + (n - k))) :: u64, word_of_nat (fib (Suc (i + (n - k))))))"
  using assms(1,2)
proof (induction k arbitrary: i rule: inc_induct)
  case base
  then show ?case using assms(3) by (subst timed_loop.simps) simp
next
  case (step k)
  obtain m where m: "n = Suc (k + m)" using step.hyps less_imp_Suc_add by blast
  then have "timed_loop clock (Suc k) (\<lambda>(a, b). let temp = a + b in Inr (b, temp)) (word_of_nat (fib (Suc i)), word_of_nat (fib (Suc (Suc i)))) =
    Some (Inr (word_of_nat (fib (Suc i + m)) :: u64, word_of_nat (fib (Suc (Suc i + m)))))"
    using step.IH [of "Suc i"] step.prems by simp
  then show ?case using step.prems [of k] m by (subst timed_loop.simps) (simp add: Let_def)
qed

lemma spin_diverges: "spin a b = None"
proof (cases "spin a b")
  case (Some u)
  have False by (rule spin.raw_induct [OF _ Some]) (auto simp: Let_def)
  then show ?thesis ..
qed

lemma bindL_simps [simp]: "bindL (Some (Inr x)) f = f x" "bindL (Some (Inl e)) f = Some (Inl e)" "bindL None f = None"
  by (simp_all add: bindL_def)

text \<open>The clock of a thread advances.\<close>

definition ticks :: "(nat \<Rightarrow> int) \<Rightarrow> bool" where
  "ticks clock \<longleftrightarrow> (\<exists>n \<ge> 1. \<not> clock n - clock 0 < RUN_TIME)"

lemma memory_scanner_ends:
  assumes "ticks (w_time we 0)" and "region p = Some (replicate MEMORY_SIZE v)"
  shows "memory_scanner we p = Some (Inr p)"
proof -
  obtain n where n: "1 \<le> n" "\<not> w_time we 0 n - w_time we 0 0 < RUN_TIME" using assms(1) by (auto simp: ticks_def)
  have "\<exists>q. timed_loop (w_time we 0) 1 (scan MEMORY_SIZE) p = Some (Inr q) \<and> q = p"
    by (rule timed_loop_ends [OF n]) (use assms(2) in \<open>auto simp: scan_ok\<close>)
  then show ?thesis by (simp add: memory_scanner_def)
qed

lemma cpu_task_ends: "ticks (w_time we 1) \<Longrightarrow> \<exists>ab. cpu_intensive_task we = Some (Inr ab)"
  using timed_loop_ends [of 1 _ "w_time we 1" "\<lambda>_. True" "(0, 1)" "\<lambda>(a, b). let temp = a + b in Inr (b, temp)"]
  by (fastforce simp: cpu_intensive_task_def ticks_def Let_def)

text \<open>The paths through \<open>main\<close>, once the calls it makes are known.\<close>

lemma mixed_paths:
  assumes "w_pin we" and "w_malloc we" and "ignoring (hrperf_start cfg ke (w_api we 0)) (meanwhile we 0 (malloc_memset MEMORY_SIZE 0 p)) = Inr p1"
    and "memory_scanner we (meanwhile we 1 p1) = Some (Inr (meanwhile we 1 p1))" and "cpu_intensive_task we = Some (Inr ab)"
    and "ignoring (hrperf_pause cfg ke (w_api we 1)) (meanwhile we 2 (meanwhile we 1 p1)) = Inr p4"
    and "region p1 = Some r" and "region p4 = Some r"
  shows "mixed_main cfg ke we p = Some (Inr
    (if \<not> w_create we 0 then (EXIT_FAILURE, p1\<lparr>region := None\<rparr>)
     else if \<not> w_join we 0 \<or> \<not> w_create we 1 then (EXIT_FAILURE, (meanwhile we 1 p1)\<lparr>region := None\<rparr>)
     else if \<not> w_join we 1 then (EXIT_FAILURE, (meanwhile we 2 (meanwhile we 1 p1))\<lparr>region := None\<rparr>)
     else (EXIT_SUCCESS, meanwhile we 3 (p4\<lparr>region := None\<rparr>))))"
  unfolding mixed_main_def Let_def control_header
  by (simp add: assms free_region_def del: One_nat_def)

text \<open>
  C28. The program that loads memory and CPU in turn ends and frees its region, and is successful
  exactly if both threads could be created and joined. On every other path after the start it
  returns without pausing: monitoring stays on.
\<close>

theorem mixed_leaves_monitoring_on:
  assumes "plain cfg" and "appends (e_write ke) contents" and "beside cfg ke we" and "idle cfg (module p)"
    and "a_open (w_api we 0)" and "a_open (w_api we 1)" and "w_pin we" and "w_malloc we"
    and "ticks (w_time we 0)" and "ticks (w_time we 1)"
  shows "\<exists>r p'. mixed_main cfg ke we p = Some (Inr (r, p')) \<and> region p' = None \<and> fds (proc p') = fds (proc p) \<and>
    r = (if w_create we 0 \<and> w_join we 0 \<and> w_create we 1 \<and> w_join we 1 then EXIT_SUCCESS else EXIT_FAILURE) \<and>
    (hrperf_running (module p') \<longleftrightarrow> r = EXIT_FAILURE)"
proof -
  let ?p0 = "meanwhile we 0 (malloc_memset MEMORY_SIZE 0 p)"
  have p0: "module ?p0 = w_meanwhile we 0 (module p)" "region ?p0 = Some (replicate MEMORY_SIZE 0)" "fds (proc ?p0) = fds (proc p)"
    by (simp_all add: malloc_memset_def)
  note s0 = phase_before(1,2) [OF assms(1-4)]
  obtain s1 where s1: "\<And>ie. hrperf_ioctl cfg ke ie HRP_PMC_IOC_START (w_meanwhile we 0 (module p)) = Inr (Ok0, [], s1)"
    "sys_ok cfg s1" "flags s1 = (True, False, True)"
    using start_command [OF s0] by metis
  let ?p1 = "?p0\<lparr>proc := (proc ?p0)\<lparr>kern := s1\<rparr>\<rparr>" and ?s2 = "w_meanwhile we 1 s1" and ?s3 = "w_meanwhile we 2 (w_meanwhile we 1 s1)"
  let ?s4 = "?s3\<lparr>hrperf_running := False\<rparr>"
  let ?p3 = "meanwhile we 2 (meanwhile we 1 ?p1)"
  have s2: "sys_ok cfg ?s2" "flags ?s2 = (True, False, True)"
    using beside_phase [OF assms(1,2) s1(2) assms(3), of 1] s1(3) by auto
  have s3: "sys_ok cfg ?s3" "flags ?s3 = (True, False, True)"
    using beside_phase [OF assms(1,2) s2(1) assms(3), of 2] s2(2) by auto
  have i: "\<not> instructed_profile ?s3" "device_p ?s3" using s3(2) by (auto simp: flags_def)
  have running: "hrperf_running s1" "hrperf_running ?s2" "hrperf_running ?s3" using s1(3) s2(2) s3(2) by (auto simp: flags_def)
  have off: "\<not> hrperf_running (w_meanwhile we 3 ?s4)"
    using beside_phase [OF assms(1,2) pause_command(2) [OF s3(1) i(1)] assms(3), of 3] by (auto simp: flags_def)
  have start: "ignoring (hrperf_start cfg ke (w_api we 0)) ?p0 = Inr ?p1"
    by (rule ignoring_command [OF assms(5), where cmd = HRP_PMC_IOC_START]) (use s1(1) s0(2) p0(1) in \<open>auto simp: flags_def\<close>)
  have pause: "ignoring (hrperf_pause cfg ke (w_api we 1)) ?p3 = Inr (?p3\<lparr>proc := (proc ?p3)\<lparr>kern := ?s4\<rparr>\<rparr>)"
    by (rule ignoring_command [OF assms(6), where cmd = HRP_PMC_IOC_PAUSE]) (use pause_command(1) [OF s3(1) i(1)] i(2) in auto)
  have scan: "memory_scanner we (meanwhile we 1 ?p1) = Some (Inr (meanwhile we 1 ?p1))"
    by (rule memory_scanner_ends [OF assms(9), of _ 0]) (use p0(2) in simp)
  obtain ab where cpu: "cpu_intensive_task we = Some (Inr ab)" using cpu_task_ends [OF assms(10)] by blast
  show ?thesis
    using mixed_paths [OF assms(7,8) start scan cpu pause] p0(2,3) running off by (auto simp: EXIT_SUCCESS_def EXIT_FAILURE_def)
qed

text \<open>The program that keeps a CPU busy never comes back to pause the module.\<close>

theorem cpu1_never_returns:
  assumes "w_pin we" and "w_create we 0" and "ignoring (hrperf_start_control cfg ke (w_api we 0)) p = Inr p1"
  shows "cpu1_main cfg ke we p = None"
  using assms by (simp add: cpu1_main_def spin_diverges)

text \<open>The reported times: \<open>elapsed_ns\<close> is exact; \<open>duration_ms\<close> is the number of whole milliseconds or one more.\<close>

lemma elapsed_ns_exact:
  assumes "ns = (tv_sec t1 - tv_sec t0) * 1000000000 + (tv_nsec t1 - tv_nsec t0)" and "0 \<le> ns" and "ns < 2 ^ 64"
  shows "uint (elapsed_ns t0 t1) = ns"
proof -
  have "elapsed_ns t0 t1 = word_of_int ns" by (simp add: elapsed_ns_def Let_def assms(1) algebra_simps)
  then show ?thesis using assms(2,3) by (simp add: uint_word_of_int)
qed

lemma duration_ms_rounding:
  assumes "ns = (tv_sec t1 - tv_sec t0) * 1000000000 + (tv_nsec t1 - tv_nsec t0)"
  shows "duration_ms t0 t1 \<in> {ns div 1000000, ns div 1000000 + 1}"
proof -
  let ?d = "tv_nsec t1 - tv_nsec t0"
  have "ns = ?d + (tv_sec t1 - tv_sec t0) * 1000 * 1000000" using assms by simp
  then have n: "ns div 1000000 = (tv_sec t1 - tv_sec t0) * 1000 + ?d div 1000000" by simp
  have "?d sdiv 1000000 = (if 0 \<le> ?d then ?d div 1000000 else - (- ?d div 1000000))"
    by (auto simp: signed_divide_int_def sgn_if)
  moreover have "- (- x div 1000000) \<in> {x div 1000000, x div 1000000 + 1}" for x :: int
    by (auto simp: zdiv_zminus1_eq_if)
  ultimately show ?thesis unfolding duration_ms_def n by (cases "0 \<le> ?d") fastforce+
qed

section \<open>Witnesses\<close>

text \<open>A module with its poller asleep beside a program; in every phase the poller takes four steps.\<close>

definition poller_moves :: "(u8 list, u64 \<Rightarrow> u32) hrperf \<Rightarrow> (u8 list, u64 \<Rightarrow> u32) hrperf" where
  "poller_moves s = (case poller_step cfg4 ke3 pe3 s of Inl e \<Rightarrow> s | Inr s' \<Rightarrow> s')"

definition we3 :: "(u8 list, u64 \<Rightarrow> u32) work_env" where
  "we3 = \<lparr>w_api = (\<lambda>_. ae3), w_malloc = True, w_pin = True, w_create = (\<lambda>k. k = 0), w_join = (\<lambda>_. True),
     w_time = (\<lambda>_ k. int k), w_meanwhile = (\<lambda>_. poller_moves ^^ 4)\<rparr>"

definition prog3 :: "(u8 list, u64 \<Rightarrow> u32) prog" where
  "prog3 = \<lparr>proc = proc3\<lparr>kern := (st3m Sched)\<lparr>poller_thread := Some \<lparr>th_cpu = 1, th_state = TASK_INTERRUPTIBLE, th_stop = False, th_pc = Sched\<rparr>\<rparr>\<rparr>,
     region = None\<rparr>"

lemma moves_quiet: "\<exists>ps. quiet_run cfg4 ke3 s ps ((poller_moves ^^ n) s)"
proof (induction n)
  case (Suc n)
  then obtain ps where "quiet_run cfg4 ke3 s ps ((poller_moves ^^ n) s)" by blast
  then show ?case
    using quiet_run.poller [of cfg4 ke3 s ps "(poller_moves ^^ n) s" pe3]
    by (cases "poller_step cfg4 ke3 pe3 ((poller_moves ^^ n) s)") (auto simp: poller_moves_def [of "(poller_moves ^^ n) s"])
qed (auto intro: quiet_run.start)

lemma we3_beside: "beside cfg4 ke3 we3"
  using moves_quiet by (simp add: beside_def we3_def del: funpow.simps)

lemma prog3_idle: "idle cfg4 (module prog3)"
  by (simp add: idle_def prog3_def sys_ok_def mod_ok_def st3m_def st3t_def st3_def bufs3_contents cfg4_simps flags_def polls_left_def)

lemma we3_simps: "a_open (w_api we3 k)" "w_malloc we3" "w_pin we3" "w_create we3 0" "\<not> w_create we3 1" "ticks (w_time we3 k)"
  by (auto simp: we3_def ae3_def ticks_def RUN_TIME_def)

theorem workload_profile_witness:
  "\<exists>window after s'. utrmem_main cfg4 ke3 we3 prog3 = Inr (EXIT_SUCCESS, prog3\<lparr>proc := (proc prog3)\<lparr>kern := s'\<rparr>, region := None\<rparr>) \<and>
     profile cfg4 ke3 we3 (w_meanwhile we3 0 (module prog3)) window after s' \<and> log_file s' \<noteq> None"
  using workload_profile [OF cfg4_simps(1) ke3_appends we3_beside prog3_idle we3_simps(1,1,2,4), of utrmem_main] by blast

theorem mixed_leaves_monitoring_on_witness:
  "\<exists>p'. mixed_main cfg4 ke3 we3 prog3 = Some (Inr (EXIT_FAILURE, p')) \<and> hrperf_running (module p')"
  using mixed_leaves_monitoring_on [OF cfg4_simps(1) ke3_appends we3_beside prog3_idle we3_simps(1,1,3,2,6,6)] we3_simps(5) by auto

end
