(* ===== verification/Hardware_Tests.thy ===== *)
theory Hardware_Tests
  imports Workloads
begin

text \<open>
  The measuring programs of \<open>src/hardware\<close>: \<open>cpu_acc_test.c\<close> repeats a computation to see a CPU speed up,
  \<open>mem_bw_test.c\<close> and \<open>numa_test.c\<close> read a large buffer with several threads. The theory shows
  that the threads read every part of the buffer once and nothing else, what the error paths leave
  behind, and that the computation overflows.
\<close>

section \<open>Computation (cpu_acc_test.c)\<close>

text \<open>The value of an \<open>int\<close> expression; an overflow is undefined.\<close>

definition c_int :: "int \<Rightarrow> int option" where
  "c_int x = (if - (2 ^ 31) \<le> x \<and> x < 2 ^ 31 then Some x else None)"

definition NUM_ITERATIONS :: nat where "NUM_ITERATIONS = 1000000000"

text \<open>\<open>result += i * i\<close> for \<open>i\<close> from 0.\<close>

fun square_sum :: "nat \<Rightarrow> int \<Rightarrow> int option" where
  "square_sum 0 result = Some result"
| "square_sum (Suc i) result =
     (case square_sum i result of
        None \<Rightarrow> None
      | Some r \<Rightarrow> (case c_int (int i * int i) of None \<Rightarrow> None | Some sq \<Rightarrow> c_int (r + sq)))"

text \<open>The thread: both computations between start and pause; \<open>None\<close> is undefined behaviour.\<close>

definition heavy_computation ::
  "hrp_config \<Rightarrow> ('f, 'd) kernel_env \<Rightarrow> ('f, 'd) work_env \<Rightarrow> ('f, 'd) prog \<Rightarrow> ('f, 'd) prog may option" where
  "heavy_computation cfg ke we p =
     bindL (Some (ignoring (hrperf_start cfg ke (w_api we 0)) p)) (\<lambda>p.
     case square_sum NUM_ITERATIONS 0 of
       None \<Rightarrow> None
     | Some result \<Rightarrow>
         (case square_sum NUM_ITERATIONS result of
            None \<Rightarrow> None
          | Some result \<Rightarrow>
              bindL (Some (ignoring (hrperf_pause cfg ke (w_api we 1)) (meanwhile we 1 p))) (\<lambda>p.
              Some (Inr (meanwhile we 2 p)))))"

definition cpu_acc_main ::
  "hrp_config \<Rightarrow> ('f, 'd) kernel_env \<Rightarrow> ('f, 'd) work_env \<Rightarrow> nat \<Rightarrow> ('f, 'd) prog \<Rightarrow> (int \<times> ('f, 'd) prog) may option" where
  "cpu_acc_main cfg ke we argc p =
     (if argc < 2 then Some (Inr (EXIT_FAILURE, p))
      else if \<not> w_create we 0 then Some (Inr (EXIT_FAILURE, p))
      else bindL (heavy_computation cfg ke we p) (\<lambda>p. Some (Inr (EXIT_SUCCESS, p))))"

section \<open>Memory bandwidth (mem_bw_test.c)\<close>

definition MB_SIZE :: nat where "MB_SIZE = 1024 * 1024 * 1024"
definition NUM_THREADS :: nat where "NUM_THREADS = 30"

record ThreadData =
  thread_id :: nat
  buffer_addr :: nat
  td_size :: nat

text \<open>The addresses of the 32-byte loads of a thread, in order.\<close>

definition memory_read_test :: "ThreadData \<Rightarrow> nat list" where
  "memory_read_test data = map (\<lambda>k. buffer_addr data + 32 * k) [0..<(td_size data + 31) div 32]"

text \<open>
  The loop that creates the threads: \<open>Inl\<close> if one could not be created. The state: the threads that
  run, and whether the buffer is still allocated.
\<close>

record bw_state =
  running :: "ThreadData list"
  buf_live :: bool

fun create_threads :: "nat \<Rightarrow> (nat \<Rightarrow> bool) \<Rightarrow> nat list \<Rightarrow> bw_state \<Rightarrow> bw_state + bw_state" where
  "create_threads base create [] s = Inr s"
| "create_threads base create (i # is) s =
     (if create i
      then create_threads base create is
             (s\<lparr>running := running s @ [\<lparr>thread_id = i, buffer_addr = base + i * MB_SIZE, td_size = MB_SIZE\<rparr>]\<rparr>)
      else Inl (s\<lparr>buf_live := False\<rparr>))"

text \<open>\<open>main\<close>: \<open>base\<close> is what \<open>aligned_alloc (32, \<dots>)\<close> returns, \<open>None\<close> for NULL. On success the threads are joined before the buffer is freed.\<close>

definition mem_bw_main :: "nat option \<Rightarrow> (nat \<Rightarrow> bool) \<Rightarrow> int \<times> bw_state" where
  "mem_bw_main base create =
     (case base of
        None \<Rightarrow> (EXIT_FAILURE, \<lparr>running = [], buf_live = False\<rparr>)
      | Some b \<Rightarrow>
          (case create_threads b create [0..<NUM_THREADS] \<lparr>running = [], buf_live = True\<rparr> of
             Inl s \<Rightarrow> (EXIT_FAILURE, s)
           | Inr s \<Rightarrow> (EXIT_SUCCESS, s\<lparr>running := [], buf_live := False\<rparr>)))"

section \<open>Memory of the other node (numa_test.c)\<close>

text \<open>
  The thread: binding it to the CPUs of a node may fail in two ways. The result: the loads it did,
  and how many CPU masks are still allocated.
\<close>

definition memory_read_test_numa :: "bool \<Rightarrow> bool \<Rightarrow> bool \<Rightarrow> ThreadData \<Rightarrow> nat list \<times> nat" where
  "memory_read_test_numa bm node_to_cpus setaffinity data =
     (if \<not> bm \<or> \<not> node_to_cpus then ([], if bm then 1 else 0)
      else if \<not> setaffinity then ([], 0)
      else (memory_read_test data, 0))"

text \<open>
  \<open>run_tests\<close>, which creates one thread: the exit status, the loads, and the masks and buffers left.
  \<open>base\<close> is what \<open>numa_alloc_onnode\<close> returns.
\<close>

definition run_tests :: "nat option \<Rightarrow> bool \<Rightarrow> bool \<times> bool \<times> bool \<Rightarrow> int \<times> nat list \<times> nat \<times> nat" where
  "run_tests base create answers =
     (case (base, answers) of
        (None, _) \<Rightarrow> (EXIT_FAILURE, [], 0, 0)
      | (Some b, bm, node_to_cpus, setaffinity) \<Rightarrow>
          if \<not> create then (EXIT_FAILURE, [], 0, 0)
          else
            (case memory_read_test_numa bm node_to_cpus setaffinity \<lparr>thread_id = 0, buffer_addr = b, td_size = MB_SIZE\<rparr> of
               (loads, masks) \<Rightarrow> (EXIT_SUCCESS, loads, masks, 0)))"

text \<open>\<open>main\<close> tests four combinations of nodes and ignores how they end.\<close>

definition numa_main :: "bool \<Rightarrow> (nat option \<times> bool \<times> bool \<times> bool \<times> bool) list \<Rightarrow> int \<times> (int \<times> nat list \<times> nat \<times> nat) list" where
  "numa_main available answers =
     (if \<not> available then (EXIT_FAILURE, [])
      else (EXIT_SUCCESS, map (\<lambda>(base, create, a). run_tests base create a) (take 4 answers)))"

section \<open>Properties\<close>

definition squares_below :: "nat \<Rightarrow> int" where
  "squares_below n = (\<Sum>i < n. int i * int i)"

lemma squares_below_closed: "6 * squares_below n = (int n - 1) * int n * (2 * int n - 1)"
  by (induction n) (simp_all add: squares_below_def algebra_simps)

lemma squares_below_mono: "m \<le> n \<Longrightarrow> squares_below m \<le> squares_below n"
  unfolding squares_below_def by (rule sum_mono2) auto

lemma square_sum_result: "square_sum n 0 = (if squares_below n < 2 ^ 31 then Some (squares_below n) else None)"
proof (induction n)
  case (Suc n)
  obtain q where "q = int n * int n" "0 \<le> q" by simp
  moreover have "squares_below (Suc n) = squares_below n + int n * int n" "0 \<le> squares_below n"
    by (simp_all add: squares_below_def sum_nonneg)
  ultimately show ?case using Suc by (auto simp: c_int_def simp flip: \<open>q = _\<close>)
qed (simp add: squares_below_def)

text \<open>
  The computation is defined for 1861 iterations and no more, so the program, which asks for a
  thousand million, has undefined behaviour as soon as its thread runs.
\<close>

theorem square_sum_overflows: "square_sum n 0 = None \<longleftrightarrow> 1861 < n"
proof -
  have "6 * squares_below 1861 < 6 * 2 ^ 31" "6 * 2 ^ 31 \<le> 6 * squares_below 1862"
    unfolding squares_below_closed by simp_all
  then have "squares_below n < 2 ^ 31 \<longleftrightarrow> n \<le> 1861"
    using squares_below_mono [of n 1861] squares_below_mono [of 1862 n] by (cases "n \<le> 1861") auto
  then show ?thesis by (simp add: square_sum_result not_le)
qed

lemma heavy_computation_undefined:
  "ignoring (hrperf_start cfg ke (w_api we 0)) p = Inr p' \<Longrightarrow> heavy_computation cfg ke we p = None"
  using square_sum_overflows [of NUM_ITERATIONS] by (simp add: heavy_computation_def NUM_ITERATIONS_def)

text \<open>The threads created before the first failure, and what becomes of the buffer.\<close>

definition chunk :: "nat \<Rightarrow> nat \<Rightarrow> ThreadData" where
  "chunk base i = \<lparr>thread_id = i, buffer_addr = base + i * MB_SIZE, td_size = MB_SIZE\<rparr>"

lemma create_threads_result:
  "create_threads base create is s =
     (if \<forall>i \<in> set is. create i then Inr (s\<lparr>running := running s @ map (chunk base) is\<rparr>)
      else Inl (s\<lparr>running := running s @ map (chunk base) (takeWhile create is), buf_live := False\<rparr>))"
  by (induction "is" arbitrary: s) (auto simp: chunk_def)

lemma chunk_loads: "memory_read_test (chunk base i) = map (\<lambda>k. base + 32 * k) [i * (MB_SIZE div 32)..<Suc i * (MB_SIZE div 32)]"
proof -
  let ?m = "MB_SIZE div 32"
  have m: "(MB_SIZE + 31) div 32 = ?m" "MB_SIZE = 32 * ?m" by (simp_all add: MB_SIZE_def)
  have "[i * ?m..<Suc i * ?m] = map (\<lambda>k. i * ?m + k) [0..<?m]"
    using map_add_upt [of "i * ?m" ?m] by (simp add: add.commute)
  then show ?thesis
    unfolding memory_read_test_def chunk_def using m(2) by (simp add: m(1) algebra_simps)
qed

lemma chunks_partition: "concat (map (\<lambda>i. memory_read_test (chunk base i)) [0..<n]) = map (\<lambda>k. base + 32 * k) [0..<n * (MB_SIZE div 32)]"
proof (induction n)
  case (Suc n)
  have "[0..<Suc n * (MB_SIZE div 32)] = [0..<n * (MB_SIZE div 32)] @ [n * (MB_SIZE div 32)..<Suc n * (MB_SIZE div 32)]"
    by (metis add.commute le_add1 mult_Suc upt_add_eq_append zero_le)
  then show ?case using Suc by (simp add: chunk_loads del: mult_Suc)
qed simp

text \<open>
  The bandwidth test: if all threads can be created, together they load the whole buffer, every
  aligned 32-byte block of it exactly once and nothing beyond it. If a later one cannot be
  created, the buffer is freed while the threads created before still read it.
\<close>

theorem mem_bw_reads:
  "(\<exists>s. create_threads base (\<lambda>_. True) [0..<NUM_THREADS] \<lparr>running = [], buf_live = True\<rparr> = Inr s \<and> buf_live s \<and>
     concat (map memory_read_test (running s)) = map (\<lambda>k. base + 32 * k) [0..<NUM_THREADS * (MB_SIZE div 32)]) \<and>
   mem_bw_main (Some base) (\<lambda>_. True) = (EXIT_SUCCESS, \<lparr>running = [], buf_live = False\<rparr>) \<and>
   (\<forall>k create. k < NUM_THREADS \<and> \<not> create k \<and> (\<forall>i < k. create i) \<longrightarrow>
     mem_bw_main (Some base) create = (EXIT_FAILURE, \<lparr>running = map (chunk base) [0..<k], buf_live = False\<rparr>))"
proof (intro conjI allI impI)
  show "\<exists>s. create_threads base (\<lambda>_. True) [0..<NUM_THREADS] \<lparr>running = [], buf_live = True\<rparr> = Inr s \<and> buf_live s \<and>
      concat (map memory_read_test (running s)) = map (\<lambda>k. base + 32 * k) [0..<NUM_THREADS * (MB_SIZE div 32)]"
    using chunks_partition [of base NUM_THREADS] by (simp add: create_threads_result comp_def)
  show "mem_bw_main (Some base) (\<lambda>_. True) = (EXIT_SUCCESS, \<lparr>running = [], buf_live = False\<rparr>)"
    by (simp add: mem_bw_main_def create_threads_result)
  fix k create
  assume k: "k < NUM_THREADS \<and> \<not> create k \<and> (\<forall>i < k. create i)"
  then have "[0..<NUM_THREADS] = [0..<k] @ k # [Suc k..<NUM_THREADS]"
    by (metis add_0 le_Suc_ex less_imp_le_nat upt_add_eq_append upt_conv_Cons zero_le)
  then have "takeWhile create [0..<NUM_THREADS] = [0..<k]" using k by (simp add: takeWhile_append)
  then show "mem_bw_main (Some base) create = (EXIT_FAILURE, \<lparr>running = map (chunk base) [0..<k], buf_live = False\<rparr>)"
    using k by (auto simp: mem_bw_main_def create_threads_result)
qed

text \<open>
  A NUMA test that reads anything reads its whole buffer; a CPU mask is left allocated exactly if
  the CPUs of the node cannot be found out, and the exit status does not show it.
\<close>

theorem numa_outcome:
  "run_tests (Some base) True (bm, node_to_cpus, setaffinity) =
     (EXIT_SUCCESS,
      if bm \<and> node_to_cpus \<and> setaffinity then map (\<lambda>k. base + 32 * k) [0..<MB_SIZE div 32] else [],
      if bm \<and> \<not> node_to_cpus then 1 else 0, 0)"
  using chunk_loads [of base 0] by (simp add: run_tests_def memory_read_test_numa_def chunk_def)

end
