(* ===== verification/Net_Loads.thy ===== *)
theory Net_Loads
  imports Prelude
begin

text \<open>
  The network load generators \<open>src/workloads/utnet.c\<close> and \<open>src/workloads/ut_net_unix.c\<close>: one thread sends a
  fixed amount of data through a socket, another one receives it. Each program is a step
  relation over the control points of its two threads; the kernel may deliver in any portions,
  refuse any call and, for datagrams, lose some. Both implement an abstract pipe; the
  theory shows what the receiver has when it ends, and when it does not end.
\<close>

section \<open>An abstract pipe\<close>

text \<open>What was sent and what was received: nothing is received that was not sent before.\<close>

inductive pipe_step :: "nat \<times> nat \<Rightarrow> nat \<times> nat \<Rightarrow> bool" where
  put: "pipe_step (sent, got) (sent + n, got)"
| take: "got + n \<le> sent \<Longrightarrow> pipe_step (sent, got) (sent, got + n)"

definition BUFFER_SIZE :: nat where "BUFFER_SIZE = 1024"
definition TOTAL_DATA :: nat where "TOTAL_DATA = 100 * 1024 * 1024"

section \<open>A stream socket (ut_net_unix.c)\<close>

text \<open>
  The control points of \<open>main\<close>: before \<open>socket\<close>, before \<open>bind\<close>, before \<open>pthread_create\<close>, in \<open>accept\<close>, in
  the sending loop, and after it, when both descriptors are closed; those of \<open>client_function\<close>: not
  started, before \<open>socket\<close>, before \<open>connect\<close>, in the receiving loop, and after it, left by its condition
  or by an error. \<open>u_exit\<close> is set when a thread calls \<open>exit\<close>, or to 128 + 13 when the signal SIGPIPE ends the process.
\<close>

datatype srv_pc = S_Socket | S_Bind | S_Create | S_Accept | S_Send | S_Done

datatype cli_pc = C_None | C_Socket | C_Connect | C_Recv | C_Done | C_Failed

record unix_net =
  u_srv :: srv_pc
  u_cli :: cli_pc
  bytes_sent :: nat
  inflight :: nat
  total_received :: nat
  u_exit :: "int option"

definition unix_start :: unix_net where
  "unix_start = \<lparr>u_srv = S_Socket, u_cli = C_None, bytes_sent = 0, inflight = 0, total_received = 0, u_exit = None\<rparr>"

text \<open>
  \<open>pthread_create\<close> may fail without the program noticing. A connection can be accepted once the client has
  connected. Sending to a client that has closed its socket raises SIGPIPE, which the program does not handle.
\<close>

inductive server_step :: "unix_net \<Rightarrow> unix_net \<Rightarrow> bool" where
  socket: "u_srv s = S_Socket \<Longrightarrow> server_step s (s\<lparr>u_srv := S_Bind\<rparr>)"
| bind: "u_srv s = S_Bind \<Longrightarrow> server_step s (s\<lparr>u_srv := S_Create\<rparr>)"
| create: "u_srv s = S_Create \<Longrightarrow> server_step s (s\<lparr>u_srv := S_Accept, u_cli := C_Socket\<rparr>)"
| no_thread: "u_srv s = S_Create \<Longrightarrow> server_step s (s\<lparr>u_srv := S_Accept\<rparr>)"
| accept: "u_srv s = S_Accept \<Longrightarrow> u_cli s \<notin> {C_None, C_Socket, C_Connect} \<Longrightarrow> server_step s (s\<lparr>u_srv := S_Send\<rparr>)"
| fail: "u_srv s \<in> {S_Socket, S_Bind, S_Accept} \<Longrightarrow> server_step s (s\<lparr>u_exit := Some 1\<rparr>)"
| send: "u_srv s = S_Send \<Longrightarrow> bytes_sent s < TOTAL_DATA \<Longrightarrow> 0 < n \<Longrightarrow> n \<le> BUFFER_SIZE \<Longrightarrow>
    server_step s (s\<lparr>bytes_sent := bytes_sent s + n, inflight := inflight s + n\<rparr>)"
| send_fails: "u_srv s = S_Send \<Longrightarrow> bytes_sent s < TOTAL_DATA \<Longrightarrow> server_step s (s\<lparr>u_srv := S_Done\<rparr>)"
| sigpipe: "u_srv s = S_Send \<Longrightarrow> bytes_sent s < TOTAL_DATA \<Longrightarrow> u_cli s \<in> {C_Done, C_Failed} \<Longrightarrow>
    server_step s (s\<lparr>u_exit := Some (128 + 13)\<rparr>)"
| sent: "u_srv s = S_Send \<Longrightarrow> \<not> bytes_sent s < TOTAL_DATA \<Longrightarrow> server_step s (s\<lparr>u_srv := S_Done\<rparr>)"

text \<open>\<open>recv\<close> returns 0 when the other end is closed and nothing is left; the loop adds it and goes on.\<close>

inductive client_step :: "unix_net \<Rightarrow> unix_net \<Rightarrow> bool" where
  socket: "u_cli s = C_Socket \<Longrightarrow> client_step s (s\<lparr>u_cli := C_Connect\<rparr>)"
| connect: "u_cli s = C_Connect \<Longrightarrow> client_step s (s\<lparr>u_cli := C_Recv\<rparr>)"
| fail: "u_cli s \<in> {C_Socket, C_Connect} \<Longrightarrow> client_step s (s\<lparr>u_exit := Some 1\<rparr>)"
| recv: "u_cli s = C_Recv \<Longrightarrow> total_received s < TOTAL_DATA \<Longrightarrow> 0 < n \<Longrightarrow> n \<le> BUFFER_SIZE \<Longrightarrow> n \<le> inflight s \<Longrightarrow>
    client_step s (s\<lparr>total_received := total_received s + n, inflight := inflight s - n\<rparr>)"
| recv_eof: "u_cli s = C_Recv \<Longrightarrow> total_received s < TOTAL_DATA \<Longrightarrow> inflight s = 0 \<Longrightarrow> u_srv s = S_Done \<Longrightarrow>
    client_step s (s\<lparr>total_received := total_received s + 0\<rparr>)"
| recv_fails: "u_cli s = C_Recv \<Longrightarrow> total_received s < TOTAL_DATA \<Longrightarrow> client_step s (s\<lparr>u_cli := C_Failed\<rparr>)"
| received: "u_cli s = C_Recv \<Longrightarrow> \<not> total_received s < TOTAL_DATA \<Longrightarrow> client_step s (s\<lparr>u_cli := C_Done\<rparr>)"

definition unix_step :: "unix_net \<Rightarrow> unix_net \<Rightarrow> bool" where
  "unix_step s t \<longleftrightarrow> u_exit s = None \<and> (server_step s t \<or> client_step s t)"

definition unix_inv :: "unix_net \<Rightarrow> bool" where
  "unix_inv s \<longleftrightarrow> total_received s + inflight s = bytes_sent s \<and> bytes_sent s < TOTAL_DATA + BUFFER_SIZE \<and>
     (u_cli s = C_Done \<longrightarrow> TOTAL_DATA \<le> total_received s)"

lemma unix_step_inv: "unix_inv s \<Longrightarrow> unix_step s t \<Longrightarrow> unix_inv t"
  unfolding unix_step_def by (auto simp: unix_inv_def elim!: server_step.cases client_step.cases)

lemma unix_step_pipe:
  assumes "unix_inv s" and "unix_step s t"
  shows "(bytes_sent t, total_received t) = (bytes_sent s, total_received s) \<or>
    pipe_step (bytes_sent s, total_received s) (bytes_sent t, total_received t)"
  using assms unfolding unix_step_def
  by (auto simp: unix_inv_def pipe_step.simps elim!: server_step.cases client_step.cases)

interpretation stream: simulation unix_step pipe_step "\<lambda>s. (bytes_sent s, total_received s)" unix_inv
  using unix_step_inv unix_step_pipe by unfold_locales

lemma unix_start_inv: "unix_inv unix_start"
  by (simp add: unix_inv_def unix_start_def TOTAL_DATA_def)

lemma unix_reachable_inv: "unix_step\<^sup>*\<^sup>* unix_start s \<Longrightarrow> unix_inv s"
  using stream.invar_run unix_start_inv by blast

text \<open>A sender that gave up early stays so, and the receiver does not come to its end.\<close>

definition cut_off :: "unix_net \<Rightarrow> bool" where
  "cut_off s \<longleftrightarrow> unix_inv s \<and> u_srv s = S_Done \<and> bytes_sent s < TOTAL_DATA"

lemma cut_off_step: "cut_off s \<Longrightarrow> unix_step s t \<Longrightarrow> cut_off t"
  using unix_step_inv [of s t] unfolding unix_step_def
  by (auto simp: cut_off_def elim!: server_step.cases client_step.cases)

lemma all_sent_progress:
  assumes "unix_inv s" and "TOTAL_DATA \<le> bytes_sent s" and "u_cli s = C_Recv"
  shows "\<exists>t. client_step s t \<and> u_cli t \<noteq> C_Failed"
    and "\<forall>t. client_step s t \<longrightarrow> u_cli t \<in> {C_Done, C_Failed} \<or> total_received s < total_received t"
proof -
  show "\<exists>t. client_step s t \<and> u_cli t \<noteq> C_Failed"
  proof (cases "total_received s < TOTAL_DATA")
    case True
    then have "1 \<le> inflight s" using assms(1,2) by (simp add: unix_inv_def)
    then show ?thesis using client_step.recv [OF assms(3) True, of 1] assms(3) by (force simp: BUFFER_SIZE_def)
  next
    case False
    then show ?thesis using client_step.received [OF assms(3)] by force
  qed
  show "\<forall>t. client_step s t \<longrightarrow> u_cli t \<in> {C_Done, C_Failed} \<or> total_received s < total_received t"
    using assms by (auto simp: unix_inv_def elim!: client_step.cases)
qed

lemma cut_off_client: "cut_off s \<Longrightarrow> unix_step s t \<Longrightarrow> u_cli s \<in> {C_Recv, C_Failed} \<Longrightarrow> u_cli t \<in> {C_Recv, C_Failed}"
  unfolding unix_step_def by (auto simp: cut_off_def unix_inv_def elim!: server_step.cases client_step.cases)

lemma cut_off_forever:
  assumes "unix_step\<^sup>*\<^sup>* s t" and "cut_off s" and "u_cli s = C_Recv"
  shows "cut_off t \<and> u_cli t \<in> {C_Recv, C_Failed}"
  using assms(1)
proof (induction rule: rtranclp_induct)
  case (step t u)
  then show ?case using cut_off_step cut_off_client by blast
qed (use assms(2,3) in simp)

lemma cut_off_spins:
  assumes "cut_off s" and "u_cli s = C_Recv" and "inflight s = 0"
  shows "client_step s s"
  using client_step.recv_eof [of s] assms by (simp add: cut_off_def unix_inv_def)

text \<open>
  C29. The stream receiver: it never has more than was sent, and it leaves its loop by the condition
  only with all the data. When the sender has sent everything, each further step of the receiver
  makes progress or ends it. When the sender gave up before, \<open>recv\<close> returns 0 from then on, which the
  receiver does not test: it does not end by itself but repeats the call forever.
\<close>

theorem unix_receiver:
  assumes "unix_step\<^sup>*\<^sup>* unix_start s"
  shows "pipe_step\<^sup>*\<^sup>* (0, 0) (bytes_sent s, total_received s) \<and> bytes_sent s < TOTAL_DATA + BUFFER_SIZE \<and>
    (u_cli s = C_Done \<longrightarrow> TOTAL_DATA \<le> total_received s) \<and>
    (u_srv s = S_Done \<and> TOTAL_DATA \<le> bytes_sent s \<and> u_cli s = C_Recv \<longrightarrow>
       (\<exists>t. client_step s t \<and> u_cli t \<noteq> C_Failed) \<and>
       (\<forall>t. client_step s t \<longrightarrow> u_cli t \<in> {C_Done, C_Failed} \<or> total_received s < total_received t)) \<and>
    (u_srv s = S_Done \<and> bytes_sent s < TOTAL_DATA \<and> u_cli s = C_Recv \<longrightarrow>
       (\<forall>t. unix_step\<^sup>*\<^sup>* s t \<longrightarrow> u_cli t \<in> {C_Recv, C_Failed} \<and> (u_cli t = C_Recv \<and> inflight t = 0 \<longrightarrow> client_step t t)))"
proof (intro conjI impI)
  have inv: "unix_inv s" using unix_reachable_inv [OF assms] .
  show "pipe_step\<^sup>*\<^sup>* (0, 0) (bytes_sent s, total_received s)"
    using stream.run_simulates [OF assms unix_start_inv] by (simp add: unix_start_def)
  show "bytes_sent s < TOTAL_DATA + BUFFER_SIZE" "u_cli s = C_Done \<Longrightarrow> TOTAL_DATA \<le> total_received s" using inv by (simp_all add: unix_inv_def)
  show "\<exists>t. client_step s t \<and> u_cli t \<noteq> C_Failed" "\<forall>t. client_step s t \<longrightarrow> u_cli t \<in> {C_Done, C_Failed} \<or> total_received s < total_received t"
    if "u_srv s = S_Done \<and> TOTAL_DATA \<le> bytes_sent s \<and> u_cli s = C_Recv"
    using all_sent_progress [OF inv] that by simp_all
  show "\<forall>t. unix_step\<^sup>*\<^sup>* s t \<longrightarrow> u_cli t \<in> {C_Recv, C_Failed} \<and> (u_cli t = C_Recv \<and> inflight t = 0 \<longrightarrow> client_step t t)"
    if "u_srv s = S_Done \<and> bytes_sent s < TOTAL_DATA \<and> u_cli s = C_Recv"
    using cut_off_forever [of s] cut_off_spins inv that unfolding cut_off_def [of s] by blast
qed

section \<open>Datagrams (utnet.c)\<close>

text \<open>
  Both threads use one socket, and the receiver gets the address of \<open>sockfd\<close>, a variable of \<open>main\<close>, which
  closes the socket and leaves when it has sent everything. A datagram that finds the socket's
  buffer full is lost. \<open>R_Dangling\<close>: the receiver reads \<open>sockfd\<close> after \<open>main\<close> has left.
\<close>

datatype tx_pc = T_Socket | T_Bind | T_Create | T_Send | T_Exited

datatype rx_pc = R_None | R_Start | R_Recv | R_Done | R_Failed | R_Dangling

record udp_net =
  t_pc :: tx_pc
  r_pc :: rx_pc
  d_sent :: nat
  d_queue :: nat
  d_lost :: nat
  d_received :: nat
  d_exit :: "int option"

definition udp_start :: udp_net where
  "udp_start = \<lparr>t_pc = T_Socket, r_pc = R_None, d_sent = 0, d_queue = 0, d_lost = 0, d_received = 0, d_exit = None\<rparr>"

inductive tx_step :: "udp_net \<Rightarrow> udp_net \<Rightarrow> bool" where
  socket: "t_pc s = T_Socket \<Longrightarrow> tx_step s (s\<lparr>t_pc := T_Bind\<rparr>)"
| bind: "t_pc s = T_Bind \<Longrightarrow> tx_step s (s\<lparr>t_pc := T_Create\<rparr>)"
| fail: "t_pc s \<in> {T_Socket, T_Bind} \<Longrightarrow> tx_step s (s\<lparr>d_exit := Some 1\<rparr>)"
| create: "t_pc s = T_Create \<Longrightarrow> tx_step s (s\<lparr>t_pc := T_Send, r_pc := R_Start\<rparr>)"
| no_thread: "t_pc s = T_Create \<Longrightarrow> tx_step s (s\<lparr>t_pc := T_Send\<rparr>)"
| send: "t_pc s = T_Send \<Longrightarrow> d_sent s < TOTAL_DATA \<Longrightarrow>
    tx_step s (s\<lparr>d_sent := d_sent s + BUFFER_SIZE, d_queue := d_queue s + BUFFER_SIZE\<rparr>)"
| send_lost: "t_pc s = T_Send \<Longrightarrow> d_sent s < TOTAL_DATA \<Longrightarrow>
    tx_step s (s\<lparr>d_sent := d_sent s + BUFFER_SIZE, d_lost := d_lost s + BUFFER_SIZE\<rparr>)"
| send_fails: "t_pc s = T_Send \<Longrightarrow> d_sent s < TOTAL_DATA \<Longrightarrow> tx_step s (s\<lparr>t_pc := T_Exited\<rparr>)"
| sent: "t_pc s = T_Send \<Longrightarrow> \<not> d_sent s < TOTAL_DATA \<Longrightarrow> tx_step s (s\<lparr>t_pc := T_Exited\<rparr>)"

inductive rx_step :: "udp_net \<Rightarrow> udp_net \<Rightarrow> bool" where
  enter: "r_pc s = R_Start \<Longrightarrow> rx_step s (s\<lparr>r_pc := (if t_pc s = T_Exited then R_Dangling else R_Recv)\<rparr>)"
| recv: "r_pc s = R_Recv \<Longrightarrow> d_received s < TOTAL_DATA \<Longrightarrow> BUFFER_SIZE \<le> d_queue s \<Longrightarrow>
    rx_step s (s\<lparr>d_received := d_received s + BUFFER_SIZE, d_queue := d_queue s - BUFFER_SIZE\<rparr>)"
| recv_fails: "r_pc s = R_Recv \<Longrightarrow> d_received s < TOTAL_DATA \<Longrightarrow> rx_step s (s\<lparr>r_pc := R_Failed\<rparr>)"
| received: "r_pc s = R_Recv \<Longrightarrow> \<not> d_received s < TOTAL_DATA \<Longrightarrow> rx_step s (s\<lparr>r_pc := R_Done\<rparr>)"

definition udp_step :: "udp_net \<Rightarrow> udp_net \<Rightarrow> bool" where
  "udp_step s t \<longleftrightarrow> d_exit s = None \<and> (tx_step s t \<or> rx_step s t)"

definition udp_inv :: "udp_net \<Rightarrow> bool" where
  "udp_inv s \<longleftrightarrow> d_received s + d_queue s + d_lost s = d_sent s \<and> d_sent s \<le> TOTAL_DATA \<and> BUFFER_SIZE dvd d_sent s \<and>
     (r_pc s = R_Done \<longrightarrow> TOTAL_DATA \<le> d_received s)"

lemma next_datagram: "BUFFER_SIZE dvd n \<Longrightarrow> n < TOTAL_DATA \<Longrightarrow> n + BUFFER_SIZE \<le> TOTAL_DATA"
  by (auto simp: BUFFER_SIZE_def TOTAL_DATA_def elim!: dvdE)

lemma udp_step_inv: "udp_inv s \<Longrightarrow> udp_step s t \<Longrightarrow> udp_inv t"
  unfolding udp_step_def by (auto simp: udp_inv_def next_datagram split: if_splits elim!: tx_step.cases rx_step.cases)

lemma udp_step_pipe:
  assumes "udp_inv s" and "udp_step s t"
  shows "(d_sent t, d_received t) = (d_sent s, d_received s) \<or> pipe_step (d_sent s, d_received s) (d_sent t, d_received t)"
  using assms unfolding udp_step_def
  by (auto simp: udp_inv_def pipe_step.simps elim!: tx_step.cases rx_step.cases)

interpretation datagram: simulation udp_step pipe_step "\<lambda>s. (d_sent s, d_received s)" udp_inv
  using udp_step_inv udp_step_pipe by unfold_locales

lemma udp_start_inv: "udp_inv udp_start"
  by (simp add: udp_inv_def udp_start_def TOTAL_DATA_def)

lemma lost_grows: "udp_step\<^sup>*\<^sup>* s t \<Longrightarrow> d_lost s \<le> d_lost t"
  by (induction rule: rtranclp_induct) (auto simp: udp_step_def elim!: tx_step.cases rx_step.cases)

text \<open>
  The datagram receiver ends by its loop condition only if every datagram was delivered; after a
  single loss it ends by an error or not at all.
\<close>

theorem udp_receiver:
  assumes "udp_step\<^sup>*\<^sup>* udp_start s"
  shows "pipe_step\<^sup>*\<^sup>* (0, 0) (d_sent s, d_received s) \<and>
    (r_pc s = R_Done \<longrightarrow> d_received s = TOTAL_DATA \<and> d_sent s = TOTAL_DATA \<and> d_lost s = 0 \<and> d_queue s = 0) \<and>
    (0 < d_lost s \<longrightarrow> (\<forall>t. udp_step\<^sup>*\<^sup>* s t \<longrightarrow> r_pc t \<noteq> R_Done))"
proof (intro conjI)
  have inv: "udp_inv t" if "udp_step\<^sup>*\<^sup>* udp_start t" for t using datagram.invar_run [OF that udp_start_inv] .
  have all: "d_received t = TOTAL_DATA \<and> d_sent t = TOTAL_DATA \<and> d_lost t = 0 \<and> d_queue t = 0"
    if "udp_step\<^sup>*\<^sup>* udp_start t" "r_pc t = R_Done" for t
    using inv [OF that(1)] that(2) by (auto simp: udp_inv_def)
  show "pipe_step\<^sup>*\<^sup>* (0, 0) (d_sent s, d_received s)"
    using datagram.run_simulates [OF assms udp_start_inv] by (simp add: udp_start_def)
  show "r_pc s = R_Done \<longrightarrow> d_received s = TOTAL_DATA \<and> d_sent s = TOTAL_DATA \<and> d_lost s = 0 \<and> d_queue s = 0"
    using all [OF assms] by blast
  show "0 < d_lost s \<longrightarrow> (\<forall>t. udp_step\<^sup>*\<^sup>* s t \<longrightarrow> r_pc t \<noteq> R_Done)"
    using all assms lost_grows by (metis gr_zeroI le_zero_eq rtranclp_trans less_irrefl)
qed

text \<open>The receiver can be late: \<open>main\<close> has left and its variable is gone.\<close>

lemma udp_dangling_reachable: "\<exists>s. udp_step\<^sup>*\<^sup>* udp_start s \<and> r_pc s = R_Dangling"
proof -
  let ?s1 = "udp_start\<lparr>t_pc := T_Bind\<rparr>" and ?s2 = "udp_start\<lparr>t_pc := T_Create\<rparr>" and ?s3 = "udp_start\<lparr>t_pc := T_Send, r_pc := R_Start\<rparr>"
  let ?s4 = "udp_start\<lparr>t_pc := T_Exited, r_pc := R_Start\<rparr>" and ?s5 = "udp_start\<lparr>t_pc := T_Exited, r_pc := R_Dangling\<rparr>"
  have "udp_step udp_start ?s1" "udp_step ?s1 ?s2" "udp_step ?s2 ?s3" "udp_step ?s3 ?s4" "udp_step ?s4 ?s5"
    using tx_step.socket [of udp_start] tx_step.bind [of ?s1] tx_step.create [of ?s2] tx_step.send_fails [of ?s3] rx_step.enter [of ?s4]
    by (simp_all add: udp_step_def udp_start_def TOTAL_DATA_def)
  then have "udp_step\<^sup>*\<^sup>* udp_start ?s5" by (meson converse_rtranclp_into_rtranclp rtranclp.rtrancl_refl)
  then show ?thesis by force
qed

section \<open>Witnesses\<close>

text \<open>The server gives up at once while the client is receiving.\<close>

definition unix_cut :: unix_net where
  "unix_cut = unix_start\<lparr>u_srv := S_Done, u_cli := C_Recv\<rparr>"

lemma unix_cut_reachable: "unix_step\<^sup>*\<^sup>* unix_start unix_cut"
proof -
  let ?s1 = "unix_start\<lparr>u_srv := S_Bind\<rparr>" and ?s2 = "unix_start\<lparr>u_srv := S_Create\<rparr>" and ?s3 = "unix_start\<lparr>u_srv := S_Accept, u_cli := C_Socket\<rparr>"
  let ?s4 = "unix_start\<lparr>u_srv := S_Accept, u_cli := C_Connect\<rparr>" and ?s5 = "unix_start\<lparr>u_srv := S_Accept, u_cli := C_Recv\<rparr>"
  let ?s6 = "unix_start\<lparr>u_srv := S_Send, u_cli := C_Recv\<rparr>"
  have "unix_step unix_start ?s1" "unix_step ?s1 ?s2" "unix_step ?s2 ?s3" "unix_step ?s3 ?s4" "unix_step ?s4 ?s5" "unix_step ?s5 ?s6"
    "unix_step ?s6 unix_cut"
    using server_step.socket [of unix_start] server_step.bind [of ?s1] server_step.create [of ?s2] client_step.socket [of ?s3]
      client_step.connect [of ?s4] server_step.accept [of ?s5] server_step.send_fails [of ?s6]
    by (simp_all add: unix_step_def unix_start_def unix_cut_def TOTAL_DATA_def)
  then show ?thesis by (meson converse_rtranclp_into_rtranclp rtranclp.rtrancl_refl)
qed

theorem unix_receiver_witness: "client_step unix_cut unix_cut \<and> \<not> (\<exists>t. unix_step\<^sup>*\<^sup>* unix_cut t \<and> u_cli t = C_Done)"
  using unix_receiver [OF unix_cut_reachable] by (auto simp: unix_cut_def unix_start_def TOTAL_DATA_def)

theorem udp_receiver_witness: "pipe_step\<^sup>*\<^sup>* (0, 0) (d_sent udp_start, d_received udp_start)"
  using udp_receiver [of udp_start] by simp

end
