(* ===== verification/Load_Client.thy ===== *)
theory Load_Client
  imports Tsc "HOL-Library.Multiset"
begin

text \<open>
  The client that loads a search server while it is profiled: \<open>src/apps/lcclient/uniform.cc\<close> (\<open>lcclient.cc\<close>
  beside the server has the same code). Modelled are its wire format and transfers, the bookkeeping
  of requests and responses, the barrier on which its threads start, and how the results are
  summed up. Floating point is left out: a duration is kept in cycles, of which the code
  reports a multiple, and whether a request comes too late to be sent is a parameter.
\<close>

section \<open>Byte order\<close>

fun swap_loop :: "nat \<Rightarrow> u64 \<Rightarrow> u64 \<Rightarrow> u64" where
  "swap_loop 0 rv inp = rv"
| "swap_loop (Suc k) rv inp = swap_loop k (push_bit 8 rv OR (inp AND 0xff)) (drop_bit 8 inp)"

definition mc_swap64 :: "u64 \<Rightarrow> u64" where
  "mc_swap64 inp = swap_loop 8 0 inp"

definition ntohll :: "u64 \<Rightarrow> u64" where "ntohll val = mc_swap64 val"
definition htonll :: "u64 \<Rightarrow> u64" where "htonll val = mc_swap64 val"

lemma le_word_append: "le_word (bs @ cs) = (le_word bs OR push_bit (8 * length bs) (le_word cs) :: u64)"
  by (induction bs) (simp_all add: push_bit_push_bit or.assoc push_bit_or add.commute)

lemma swap_loop_word: "swap_loop k rv x = push_bit (8 * k) rv OR le_word (rev (le_bytes k x))"
proof (induction k arbitrary: rv x)
  case (Suc k)
  have "(ucast (ucast x :: u8) :: u64) = x AND 0xff"
    by (rule bit_word_eqI) (auto simp: bit_simps bit_ff)
  then show ?case
    by (simp add: Suc.IH le_word_append push_bit_or push_bit_push_bit ac_simps)
qed simp

lemma le_word_bits: "bit (le_word bs :: u64) n \<Longrightarrow> n < 8 * length bs"
proof (induction bs arbitrary: n)
  case (Cons b bs)
  then show ?case by (cases "n < 8") (auto simp: bit_simps dest: Cons.IH bit_imp_le_length)
qed simp

lemma le_bytes_le_word: "length bs \<le> 8 \<Longrightarrow> le_bytes (length bs) (le_word bs :: u64) = bs"
proof (induction bs)
  case (Cons b bs)
  have "ucast (ucast b OR push_bit 8 (le_word bs) :: u64) = b"
    by (rule bit_word_eqI) (auto simp: bit_simps)
  moreover have "drop_bit 8 (ucast b OR push_bit 8 (le_word bs) :: u64) = le_word bs"
    using Cons.prems by (intro bit_word_eqI) (auto simp: bit_simps dest: bit_imp_le_length le_word_bits)
  ultimately show ?case using Cons by (simp del: drop_bit_or)
qed simp

text \<open>The loop reverses the bytes, so swapping twice is the identity.\<close>

lemma swap_bytes: "le_bytes 8 (mc_swap64 x) = rev (le_bytes 8 x)"
  using le_bytes_le_word [of "rev (le_bytes 8 x)"] by (simp add: mc_swap64_def swap_loop_word)

lemma swap_swap [simp]: "mc_swap64 (mc_swap64 x) = x"
  using swap_bytes [of x] by (simp add: mc_swap64_def [of "mc_swap64 x"] swap_loop_word le_word_le_bytes_id)

section \<open>Transfers\<close>

text \<open>
  \<open>TcpReadFull\<close> and \<open>TcpWriteFull\<close>: the results of the successive system calls are the list \<open>rets\<close>; when it is
  used up, the caller still waits. The first returns what was read and what is left in the stream,
  the second what was put into it.
\<close>

fun TcpReadFull :: "int list \<Rightarrow> nat \<Rightarrow> u8 list \<Rightarrow> u8 list \<Rightarrow> (int \<times> u8 list \<times> u8 list) option" where
  "TcpReadFull rets len buf stream =
     (if length buf < len then
        (case rets of
           [] \<Rightarrow> None
         | ret # rets \<Rightarrow>
             if ret \<le> 0 then Some (ret, buf, stream)
             else TcpReadFull rets len (buf @ take (nat ret) stream) (drop (nat ret) stream))
      else Some (int (length buf), buf, stream))"

fun TcpWriteFull :: "int list \<Rightarrow> u8 list \<Rightarrow> nat \<Rightarrow> u8 list \<Rightarrow> (int \<times> u8 list) option" where
  "TcpWriteFull rets buf n stream =
     (if n < length buf then
        (case rets of
           [] \<Rightarrow> None
         | ret # rets \<Rightarrow>
             if ret \<le> 0 then Some (ret, stream)
             else TcpWriteFull rets buf (n + nat ret) (stream @ take (nat ret) (drop n buf)))
      else Some (int n, stream))"

declare TcpReadFull.simps [simp del] TcpWriteFull.simps [simp del]

text \<open>What the kernel returns: at most what was asked for and, when reading, at most what is there.\<close>

fun portions :: "int list \<Rightarrow> nat \<Rightarrow> bool" where
  "portions [] n \<longleftrightarrow> True"
| "portions (r # rs) n \<longleftrightarrow> (0 < r \<longrightarrow> r \<le> int n \<and> portions rs (n - nat r))"

lemma write_full:
  "portions rets (length buf - n) \<Longrightarrow> n \<le> length buf \<Longrightarrow> TcpWriteFull rets buf n stream = Some (r, out) \<Longrightarrow> 0 < r \<Longrightarrow>
     r = int (length buf) \<and> out = stream @ drop n buf"
proof (induction rets arbitrary: n stream)
  case Nil
  then show ?case by (auto simp: TcpWriteFull.simps split: if_splits)
next
  case (Cons ret rets)
  show ?case
  proof (cases "n < length buf \<and> 0 < ret")
    case True
    then have "nat ret \<le> length buf - n" using Cons.prems(1) by auto
    moreover from this have "take (nat ret) (drop n buf) @ drop (n + nat ret) buf = drop n buf"
      by (metis add.commute append_take_drop_id drop_drop)
    ultimately show ?thesis
      using Cons.IH [of "n + nat ret" "stream @ take (nat ret) (drop n buf)"] Cons.prems True
      by (auto simp: TcpWriteFull.simps [of "ret # rets"] diff_diff_left)
  next
    case False
    then show ?thesis using Cons.prems by (auto simp: TcpWriteFull.simps [of "ret # rets"] split: if_splits)
  qed
qed

lemma read_full:
  "portions rets (len - length buf) \<Longrightarrow> length buf \<le> len \<Longrightarrow> len - length buf \<le> length stream \<Longrightarrow>
   TcpReadFull rets len buf stream = Some (r, out, rest) \<Longrightarrow> 0 < r \<Longrightarrow>
     r = int len \<and> out = buf @ take (len - length buf) stream \<and> rest = drop (len - length buf) stream"
proof (induction rets arbitrary: buf stream)
  case Nil
  then show ?case by (auto simp: TcpReadFull.simps split: if_splits)
next
  case (Cons ret rets)
  show ?case
  proof (cases "length buf < len \<and> 0 < ret")
    case True
    let ?buf = "buf @ take (nat ret) stream" and ?stream = "drop (nat ret) stream"
    have n: "nat ret \<le> len - length buf" "portions rets (len - length buf - nat ret)" using Cons.prems(1) True by auto
    then have l: "length ?buf = length buf + nat ret" "len - length ?buf = len - length buf - nat ret" using Cons.prems(3) by simp_all
    have le: "length buf + nat ret \<le> len" using n(1) True by linarith
    have "TcpReadFull rets len ?buf ?stream = Some (r, out, rest)"
      using Cons.prems(4) True by (simp add: TcpReadFull.simps [of "ret # rets"])
    then have "r = int len \<and> out = ?buf @ take (len - length ?buf) ?stream \<and> rest = drop (len - length ?buf) ?stream"
      using le n True Cons.prems(3,5) by (intro Cons.IH) (simp_all add: l(2) del: length_append, simp_all add: l(1) del: length_append)
    moreover have "take (nat ret) stream @ take (len - length buf - nat ret) ?stream = take (len - length buf) stream"
      using n(1) by (metis le_add_diff_inverse take_add)
    moreover have "len - length buf - nat ret + nat ret = len - length buf" using le by simp
    ultimately show ?thesis by (simp add: l(2) del: length_append diff_diff_left)
  next
    case False
    then show ?thesis using Cons.prems by (auto simp: TcpReadFull.simps [of "ret # rets"] split: if_splits)
  qed
qed

text \<open>
  A message that \<open>TcpWriteFull\<close> reports as written and \<open>TcpReadFull\<close> as read arrives unchanged,
  however the kernel splits it, and leaves in the stream exactly what was there behind it.
\<close>

theorem tcp_roundtrip:
  assumes "TcpWriteFull ws msg 0 [] = Some (r, sent)" and "0 < r" and "portions ws (length msg)"
    and "TcpReadFull rs (length msg) [] (sent @ later) = Some (r', got, rest)" and "0 < r'" and "portions rs (length msg)"
  shows "got = msg \<and> rest = later \<and> r = int (length msg) \<and> r' = r"
  using write_full [of ws msg 0 "[]" r sent] read_full [of rs "length msg" "[]" "sent @ later" r' got rest] assms by simp

section \<open>Requests and responses\<close>

record payload =
  pl_term_index :: u64
  pl_index :: u64
  pl_hash :: u64

text \<open>A work unit; the duration in cycles, and only set together with \<open>success\<close>.\<close>

record work_unit =
  duration :: u64
  hash :: u32
  success :: bool
  term_index :: u64
  timing :: u64
  idx :: u64

text \<open>The structure as it is sent: three words in network order.\<close>

definition payload_bytes :: "payload \<Rightarrow> u8 list" where
  "payload_bytes p = le_bytes 8 (pl_term_index p) @ le_bytes 8 (pl_index p) @ le_bytes 8 (pl_hash p)"

definition bytes_payload :: "u8 list \<Rightarrow> payload" where
  "bytes_payload bs =
     \<lparr>pl_term_index = le_word (take 8 bs), pl_index = le_word (take 8 (drop 8 bs)), pl_hash = le_word (take 8 (drop 16 bs))\<rparr>"

text \<open>
  One turn of the sending loop: \<open>idx\<close> is computed as an \<open>unsigned int\<close>, the hash, an \<open>int\<close>, is sign-extended.
\<close>

definition request :: "nat \<Rightarrow> nat \<Rightarrow> nat \<Rightarrow> u64 \<Rightarrow> work_unit list \<Rightarrow> payload \<times> work_unit list" where
  "request total_threads tid i now w =
     (let index = ucast (word_of_nat i * word_of_nat total_threads + word_of_nat tid :: u32);
          u = (w ! i)\<lparr>idx := index, timing := now\<rparr> in
      (\<lparr>pl_term_index = htonll (term_index u), pl_index = htonll (idx u), pl_hash = htonll (scast (hash u))\<rparr>, w[i := u]))"

text \<open>
  The sending loop, with the requests that are skipped for being late, the readings of the counter,
  and how often \<open>TcpWriteFull\<close> succeeds.
\<close>

fun send_requests ::
  "nat \<Rightarrow> nat \<Rightarrow> (nat \<Rightarrow> bool) \<Rightarrow> (nat \<Rightarrow> u64) \<Rightarrow> (nat \<Rightarrow> bool) \<Rightarrow> nat list \<Rightarrow> work_unit list \<times> payload list \<Rightarrow> work_unit list \<times> payload list" where
  "send_requests T tid late clock sends [] s = s"
| "send_requests T tid late clock sends (i # is) (w, out) =
     (if late i then send_requests T tid late clock sends is (w, out)
      else
        (let (p, w) = request T tid i (clock i) w in
         if \<not> sends i then (w, out)
         else send_requests T tid late clock sends is (w, out @ [p])))"

text \<open>The receiving thread: \<open>idx\<close> is a \<open>uint32_t\<close>.\<close>

definition handle_response :: "nat \<Rightarrow> nat \<Rightarrow> u64 \<Rightarrow> payload \<Rightarrow> work_unit list \<Rightarrow> work_unit list" where
  "handle_response total_threads tid now rp w =
     (let i = (ucast (ntohll (pl_index rp)) :: u32);
          i = unat ((i - word_of_nat tid) div word_of_nat total_threads) in
      if i < length w then w[i := (w ! i)\<lparr>duration := now - timing (w ! i), success := True\<rparr>] else w)"

lemma payload_roundtrip: "bytes_payload (payload_bytes p) = p"
  by (cases p) (simp add: bytes_payload_def payload_bytes_def le_word_le_bytes_id)

lemma length_payload_bytes: "length (payload_bytes p) = 24"
  by (simp add: payload_bytes_def)

lemma index_roundtrip:
  assumes "tid < T" and "i * T + tid < 2 ^ 32"
  shows "unat ((ucast (ucast (word_of_nat i * word_of_nat T + word_of_nat tid :: u32) :: u64) - word_of_nat tid :: u32) div word_of_nat T) = i"
proof -
  have T: "T < 2 ^ 32 \<or> i = 0" using assms(2) by (cases i) auto
  have "(ucast (ucast (x :: u32) :: u64) :: u32) = x" for x by (rule bit_word_eqI) (auto simp: bit_simps)
  then have "ucast (ucast (word_of_nat i * word_of_nat T + word_of_nat tid :: u32) :: u64) - word_of_nat tid = (word_of_nat (i * T) :: u32)"
    by simp
  moreover have "unat (word_of_nat (i * T) :: u32) = i * T" using assms(2) by (simp add: unsigned_of_nat take_bit_nat_eq_self del: of_nat_mult)
  moreover have "unat (word_of_nat T :: u32) = T \<or> i = 0" using T by (auto simp: unsigned_of_nat take_bit_nat_eq_self)
  ultimately show ?thesis using assms(1) by (auto simp: unat_div)
qed

text \<open>
  C39. A response finds its request: when the server sends the payload of the request for work
  unit \<open>i\<close> back, the receiving thread records the elapsed cycles and the success in this work unit
  and no other, as long as the indices of all requests fit 32 bits.
\<close>

theorem response_matches:
  assumes "tid < T" and "i < length w" and "i * T + tid < 2 ^ 32" and "request T tid i sent w = (p, w')"
  shows "handle_response T tid now (bytes_payload (payload_bytes p)) w' =
    w'[i := (w' ! i)\<lparr>duration := now - sent, success := True\<rparr>]"
  using assms(2,4) index_roundtrip [OF assms(1,3)]
  by (auto simp: request_def handle_response_def payload_roundtrip Let_def htonll_def ntohll_def)

section \<open>The start barrier\<close>

text \<open>
  The workers and \<open>main\<close> wait on one condition variable: a worker for \<open>start_flag\<close>, \<open>main\<close> for the count
  to be complete. Everything between taking the mutex and waiting or leaving is one step. The last
  worker calls \<open>notify_one\<close>, which wakes any one of those that wait at that moment, if there is one;
  a thread that was woken tests its condition again. \<open>main\<close> calls \<open>notify_all\<close>. Spurious wake-ups, which the
  standard allows at any time and promises at none, are left out: they could end the deadlock
  described below, but nothing may rely on them.
\<close>

datatype wpc = W_Start | W_Wait | W_Woken | W_Go

datatype mpc = M_Start | M_Wait | M_Woken | M_Go

record barrier =
  wpcs :: "nat \<Rightarrow> wpc"
  mpc_of :: mpc
  ready_count :: nat
  start_flag :: bool

definition bar_start :: barrier where
  "bar_start = \<lparr>wpcs = (\<lambda>_. W_Start), mpc_of = M_Start, ready_count = 0, start_flag = False\<rparr>"

text \<open>\<open>cv.wait (lock, [] { return start_flag; })\<close>\<close>

definition waits :: "barrier \<Rightarrow> wpc" where
  "waits s = (if start_flag s then W_Go else W_Wait)"

inductive worker_step :: "nat \<Rightarrow> barrier \<Rightarrow> barrier \<Rightarrow> bool" for T where
  arrive: "i < T \<Longrightarrow> wpcs s i = W_Start \<Longrightarrow> Suc (ready_count s) \<noteq> T \<Longrightarrow>
    worker_step T s (s\<lparr>ready_count := Suc (ready_count s), wpcs := (wpcs s)(i := waits s)\<rparr>)"
| last_wakes_main: "i < T \<Longrightarrow> wpcs s i = W_Start \<Longrightarrow> Suc (ready_count s) = T \<Longrightarrow> mpc_of s = M_Wait \<Longrightarrow>
    worker_step T s (s\<lparr>ready_count := T, mpc_of := M_Woken, wpcs := (wpcs s)(i := waits s)\<rparr>)"
| last_wakes_worker: "i < T \<Longrightarrow> wpcs s i = W_Start \<Longrightarrow> Suc (ready_count s) = T \<Longrightarrow> j < T \<Longrightarrow> wpcs s j = W_Wait \<Longrightarrow>
    worker_step T s (s\<lparr>ready_count := T, wpcs := (wpcs s)(j := W_Woken, i := waits s)\<rparr>)"
| last_wakes_nobody: "i < T \<Longrightarrow> wpcs s i = W_Start \<Longrightarrow> Suc (ready_count s) = T \<Longrightarrow> mpc_of s \<noteq> M_Wait \<Longrightarrow>
    \<forall>j < T. wpcs s j \<noteq> W_Wait \<Longrightarrow>
    worker_step T s (s\<lparr>ready_count := T, wpcs := (wpcs s)(i := waits s)\<rparr>)"
| recheck: "i < T \<Longrightarrow> wpcs s i = W_Woken \<Longrightarrow> worker_step T s (s\<lparr>wpcs := (wpcs s)(i := waits s)\<rparr>)"

inductive main_step :: "nat \<Rightarrow> barrier \<Rightarrow> barrier \<Rightarrow> bool" for T where
  go: "mpc_of s \<in> {M_Start, M_Woken} \<Longrightarrow> ready_count s = T \<Longrightarrow>
    main_step T s (s\<lparr>start_flag := True, mpc_of := M_Go, wpcs := (\<lambda>i. if wpcs s i = W_Wait then W_Woken else wpcs s i)\<rparr>)"
| wait: "mpc_of s \<in> {M_Start, M_Woken} \<Longrightarrow> ready_count s \<noteq> T \<Longrightarrow> main_step T s (s\<lparr>mpc_of := M_Wait\<rparr>)"

definition bar_step :: "nat \<Rightarrow> barrier \<Rightarrow> barrier \<Rightarrow> bool" where
  "bar_step T s t \<longleftrightarrow> worker_step T s t \<or> main_step T s t"

definition deadlocked :: "nat \<Rightarrow> barrier \<Rightarrow> bool" where
  "deadlocked T s \<longleftrightarrow> ready_count s = T \<and> mpc_of s = M_Wait \<and> (\<forall>i < T. wpcs s i = W_Wait)"

definition arrived :: "nat \<Rightarrow> barrier \<Rightarrow> nat set" where
  "arrived T s = {i. i < T \<and> wpcs s i \<noteq> W_Start}"

definition bar_inv :: "nat \<Rightarrow> barrier \<Rightarrow> bool" where
  "bar_inv T s \<longleftrightarrow> card (arrived T s) = ready_count s \<and> (start_flag s \<longleftrightarrow> mpc_of s = M_Go) \<and>
     (start_flag s \<longrightarrow> ready_count s = T \<and> (\<forall>i < T. wpcs s i \<noteq> W_Wait)) \<and>
     (\<forall>i < T. wpcs s i = W_Go \<longrightarrow> start_flag s) \<and>
     (T = 1 \<and> ready_count s = T \<longrightarrow> mpc_of s \<noteq> M_Wait)"

lemma not_arrived:
  assumes "bar_inv T s" and "i < T" and "wpcs s i = W_Start"
  shows "ready_count s < T \<and> \<not> start_flag s \<and> waits s = W_Wait"
proof -
  have "arrived T s \<subset> {..<T}" using assms(2,3) by (auto simp: arrived_def)
  then have "card (arrived T s) < T" by (metis card_lessThan finite_lessThan psubset_card_mono)
  then show ?thesis using assms(1) by (auto simp: bar_inv_def waits_def)
qed

lemma one_arrival:
  assumes "bar_inv T s" and "i < T" and "wpcs s i = W_Start" and "arrived T t = insert i (arrived T s)"
  shows "card (arrived T t) = Suc (ready_count s)"
  using assms(1) unfolding assms(4) by (subst card_insert_disjoint) (use assms(2,3) in \<open>auto simp: arrived_def bar_inv_def\<close>)

lemma worker_step_inv:
  assumes "bar_inv T s" and "worker_step T s t"
  shows "bar_inv T t"
  using assms(2)
proof cases
  case (arrive i)
  note n = not_arrived [OF assms(1) arrive(2,3)]
  have "arrived T t = insert i (arrived T s)" using arrive n by (auto simp: arrived_def)
  then show ?thesis using one_arrival [OF assms(1) arrive(2,3)] assms(1) arrive n by (auto simp: bar_inv_def)
next
  case (last_wakes_main i)
  note n = not_arrived [OF assms(1) last_wakes_main(2,3)]
  have "arrived T t = insert i (arrived T s)" using last_wakes_main n by (auto simp: arrived_def)
  then show ?thesis using one_arrival [OF assms(1) last_wakes_main(2,3)] assms(1) last_wakes_main n by (auto simp: bar_inv_def)
next
  case (last_wakes_worker i j)
  note n = not_arrived [OF assms(1) last_wakes_worker(2,3)]
  have "arrived T t = insert i (arrived T s)" using last_wakes_worker n by (auto simp: arrived_def)
  moreover have "i \<noteq> j" using last_wakes_worker by auto
  ultimately show ?thesis using one_arrival [OF assms(1) last_wakes_worker(2,3)] assms(1) last_wakes_worker n by (auto simp: bar_inv_def)
next
  case (last_wakes_nobody i)
  note n = not_arrived [OF assms(1) last_wakes_nobody(2,3)]
  have "arrived T t = insert i (arrived T s)" using last_wakes_nobody n by (auto simp: arrived_def)
  then show ?thesis using one_arrival [OF assms(1) last_wakes_nobody(2,3)] assms(1) last_wakes_nobody n by (auto simp: bar_inv_def)
next
  case (recheck i)
  then have "arrived T t = arrived T s" by (auto simp: arrived_def waits_def)
  then show ?thesis using assms(1) recheck by (auto simp: bar_inv_def waits_def)
qed

lemma main_step_inv:
  assumes "bar_inv T s" and "main_step T s t"
  shows "bar_inv T t"
  using assms(2)
proof cases
  case go
  then have "arrived T t = arrived T s" by (auto simp: arrived_def)
  then show ?thesis using assms(1) go by (auto simp: bar_inv_def)
next
  case wait
  then have "arrived T t = arrived T s" by (auto simp: arrived_def)
  then show ?thesis using assms(1) wait by (auto simp: bar_inv_def)
qed

lemma bar_start_inv: "0 < T \<Longrightarrow> bar_inv T bar_start"
  by (simp add: bar_inv_def bar_start_def arrived_def)

lemma bar_reachable_inv: "(bar_step T)\<^sup>*\<^sup>* bar_start s \<Longrightarrow> 0 < T \<Longrightarrow> bar_inv T s"
  by (induction rule: rtranclp_induct) (auto simp: bar_step_def bar_start_inv intro: worker_step_inv main_step_inv)

lemma stuck_cases:
  assumes "bar_inv T s" and "\<nexists>t. bar_step T s t"
  shows "mpc_of s = M_Go \<and> (\<forall>i < T. wpcs s i = W_Go) \<or> deadlocked T s"
proof -
  have m: "mpc_of s \<in> {M_Wait, M_Go}"
    using assms(2) main_step.go [of s T] main_step.wait [of s T] by (cases "mpc_of s") (auto simp: bar_step_def)
  have woken: "wpcs s i \<noteq> W_Woken" if "i < T" for i using assms(2) worker_step.recheck [OF that] by (auto simp: bar_step_def)
  have "wpcs s i \<noteq> W_Start" if i: "i < T" for i
  proof
    assume "wpcs s i = W_Start"
    note * = worker_step.intros(1-4) [OF i this]
    show False
    proof (cases "\<exists>j < T. wpcs s j = W_Wait")
      case True
      then show ?thesis using *(1,3) assms(2) by (metis bar_step_def)
    next
      case False
      then show ?thesis using *(1,2,4) assms(2) by (metis bar_step_def)
    qed
  qed
  then have "arrived T s = {..<T}" "\<And>i. i < T \<Longrightarrow> wpcs s i \<in> {W_Wait, W_Go}"
    using woken by (auto simp: arrived_def) (metis wpc.exhaust)
  then show ?thesis using assms(1) m by (auto simp: bar_inv_def deadlocked_def)
qed

text \<open>A schedule into the deadlock: \<open>main\<close> waits first, the workers arrive, and the last one wakes worker 0.\<close>

definition lined_up :: "nat \<Rightarrow> barrier" where
  "lined_up k = \<lparr>wpcs = (\<lambda>i. if i < k then W_Wait else W_Start), mpc_of = M_Wait, ready_count = k, start_flag = False\<rparr>"

lemma lined_up_reachable: "k < T \<Longrightarrow> (bar_step T)\<^sup>*\<^sup>* bar_start (lined_up k)"
proof (induction k)
  case 0
  have "lined_up 0 = bar_start\<lparr>mpc_of := M_Wait\<rparr>" by (simp add: lined_up_def bar_start_def)
  then show ?case using main_step.wait [of bar_start T] 0 by (auto simp: bar_step_def bar_start_def)
next
  case (Suc k)
  have "lined_up (Suc k) = (lined_up k)\<lparr>ready_count := Suc (ready_count (lined_up k)), wpcs := (wpcs (lined_up k))(k := waits (lined_up k))\<rparr>"
    by (auto simp: lined_up_def waits_def)
  then have "bar_step T (lined_up k) (lined_up (Suc k))"
    using worker_step.arrive [of k T "lined_up k"] Suc.prems by (simp add: bar_step_def lined_up_def)
  then show ?case using Suc by (simp add: rtranclp.rtrancl_into_rtrancl)
qed

lemma deadlock_reachable:
  assumes "2 \<le> T"
  shows "\<exists>d. (bar_step T)\<^sup>*\<^sup>* bar_start d \<and> deadlocked T d"
proof -
  obtain n where n: "T = Suc n" "0 < n" using assms by (cases T) auto
  let ?s = "lined_up n"
  let ?a = "?s\<lparr>ready_count := T, wpcs := (wpcs ?s)(0 := W_Woken, n := waits ?s)\<rparr>"
  let ?d = "?a\<lparr>wpcs := (wpcs ?a)(0 := waits ?a)\<rparr>"
  have "bar_step T ?s ?a"
    using worker_step.last_wakes_worker [of n T ?s 0] n by (simp add: bar_step_def lined_up_def)
  moreover have "bar_step T ?a ?d"
    using worker_step.recheck [of 0 T ?a] n by (simp add: bar_step_def)
  ultimately have "(bar_step T)\<^sup>*\<^sup>* bar_start ?d"
    using lined_up_reachable [of n T] n(1) by (meson lessI rtranclp.rtrancl_into_rtrancl)
  moreover have "deadlocked T ?d" using n by (auto simp: deadlocked_def lined_up_def waits_def)
  ultimately show ?thesis by blast
qed

lemma finished_stuck: "mpc_of s = M_Go \<Longrightarrow> \<forall>i < T. wpcs s i = W_Go \<Longrightarrow> \<not> bar_step T s t"
  by (auto simp: bar_step_def elim!: worker_step.cases main_step.cases)

lemma deadlocked_stuck: "deadlocked T s \<Longrightarrow> \<not> bar_step T s t"
  by (auto simp: bar_step_def deadlocked_def elim!: worker_step.cases main_step.cases)

text \<open>
  C25. The start barrier: no worker sends before all of them are ready. A state in which no thread can
  go on is either the successful end or a deadlock in which all have arrived and \<open>main\<close> and every
  worker wait; because the last worker may wake another worker instead of \<open>main\<close>, the deadlock is
  reachable exactly if there are at least two workers.
\<close>

theorem start_barrier:
  assumes "0 < T"
  shows "(\<forall>s. (bar_step T)\<^sup>*\<^sup>* bar_start s \<longrightarrow>
      (\<forall>i < T. wpcs s i = W_Go \<longrightarrow> ready_count s = T \<and> (\<forall>j < T. wpcs s j \<noteq> W_Start)) \<and>
      ((\<nexists>t. bar_step T s t) \<longleftrightarrow> mpc_of s = M_Go \<and> (\<forall>i < T. wpcs s i = W_Go) \<or> deadlocked T s)) \<and>
    ((\<exists>s. (bar_step T)\<^sup>*\<^sup>* bar_start s \<and> deadlocked T s) \<longleftrightarrow> 2 \<le> T)"
proof (intro conjI allI impI)
  fix s
  assume r: "(bar_step T)\<^sup>*\<^sup>* bar_start s"
  note inv = bar_reachable_inv [OF r assms]
  show "ready_count s = T" "wpcs s j \<noteq> W_Start" if "i < T" "wpcs s i = W_Go" "j < T" for i j
    using inv that not_arrived [OF inv that(3)] by (auto simp: bar_inv_def)
  show "(\<nexists>t. bar_step T s t) \<longleftrightarrow> mpc_of s = M_Go \<and> (\<forall>i < T. wpcs s i = W_Go) \<or> deadlocked T s"
    using stuck_cases [OF inv] deadlocked_stuck finished_stuck by blast
next
  show "(\<exists>s. (bar_step T)\<^sup>*\<^sup>* bar_start s \<and> deadlocked T s) \<longleftrightarrow> 2 \<le> T"
  proof
    assume "\<exists>s. (bar_step T)\<^sup>*\<^sup>* bar_start s \<and> deadlocked T s"
    then obtain s where "bar_inv T s" "deadlocked T s" using bar_reachable_inv [OF _ assms] by blast
    then have "T \<noteq> 1" by (auto simp: bar_inv_def deadlocked_def)
    then show "2 \<le> T" using assms by simp
  qed (rule deadlock_reachable)
qed

section \<open>Results\<close>

text \<open>A generated work unit, before anything is sent (the time at which it is due is left out).\<close>

definition fresh :: "work_unit \<Rightarrow> bool" where
  "fresh s \<longleftrightarrow> duration s = 0 \<and> \<not> success s"

text \<open>The two threads of a worker take turns in any way.\<close>

inductive worker_run :: "nat \<Rightarrow> nat \<Rightarrow> work_unit list \<Rightarrow> work_unit list \<Rightarrow> bool" for T tid w0 where
  generated: "worker_run T tid w0 w0"
| requested: "worker_run T tid w0 w \<Longrightarrow> i < length w \<Longrightarrow> worker_run T tid w0 (snd (request T tid i now w))"
| responded: "worker_run T tid w0 w \<Longrightarrow> worker_run T tid w0 (handle_response T tid now rp w)"

text \<open>
  The loop of \<open>RunExperiment\<close> over the samples of the threads: all of them are offered, those without a
  duration are dropped, the others are counted as responses if they succeeded and collected. With a
  warm-up time of 0 no sample is removed for being early.
\<close>

record results =
  collected :: "work_unit list"
  offered :: nat
  client_drop :: nat
  resps :: nat

definition collect :: "results \<Rightarrow> work_unit list \<Rightarrow> results" where
  "collect r v =
     (let r = r\<lparr>offered := offered r + length v, client_drop := client_drop r + length (filter (\<lambda>s. duration s = 0) v)\<rparr>;
          v = filter (\<lambda>s. \<not> duration s = 0) v in
      r\<lparr>resps := resps r + length (filter success v), collected := collected r @ v\<rparr>)"

definition RunExperiment :: "work_unit list list \<Rightarrow> results" where
  "RunExperiment samples = foldl collect \<lparr>collected = [], offered = 0, client_drop = 0, resps = 0\<rparr> samples"

text \<open>
  \<open>PrintStatResults\<close>: the smallest and the largest duration it prints, if anything. It tests for an
  empty vector before it removes what was not successful, and then indexes it. The mean and the
  percentiles, floating point, are left out.
\<close>

definition PrintStatResults :: "work_unit list \<Rightarrow> (u64 \<times> u64) option may" where
  "PrintStatResults w =
     (if w = [] then Inr None
      else
        (let w = sort_key duration (filter success w) in
         if w = [] then Inl OutOfBounds
         else Inr (Some (duration (w ! 0), duration (w ! (length w - 1))))))"

lemma run_keeps_success:
  assumes "worker_run T tid w0 w" and "\<forall>s \<in> set w0. fresh s"
  shows "\<forall>s \<in> set w. duration s \<noteq> 0 \<longrightarrow> success s"
  using assms(1)
proof induction
  case generated
  then show ?case using assms(2) by (simp add: fresh_def)
next
  case (requested w i now)
  then have "w ! i \<in> set w" by simp
  then show ?case using requested.IH by (auto simp: request_def Let_def dest!: subsetD [OF set_update_subset_insert])
next
  case (responded w now rp)
  then show ?case by (auto simp: handle_response_def Let_def dest!: subsetD [OF set_update_subset_insert])
qed

lemma collect_all:
  assumes "\<forall>v \<in> set vs. \<forall>s \<in> set v. duration s \<noteq> 0 \<longrightarrow> success s"
    and "offered r = resps r + client_drop r" and "resps r = length (collected r)" and "\<forall>s \<in> set (collected r). success s"
  shows "offered (foldl collect r vs) = resps (foldl collect r vs) + client_drop (foldl collect r vs) \<and>
    resps (foldl collect r vs) = length (collected (foldl collect r vs)) \<and> (\<forall>s \<in> set (collected (foldl collect r vs)). success s)"
  using assms
proof (induction vs arbitrary: r)
  case (Cons v vs)
  have "filter success (filter (\<lambda>s. \<not> duration s = 0) v) = filter (\<lambda>s. \<not> duration s = 0) v"
    using Cons.prems(1) by (intro filter_True) auto
  moreover have "length v = length (filter (\<lambda>s. \<not> duration s = 0) v) + length (filter (\<lambda>s. duration s = 0) v)"
    using sum_length_filter_compl [of "\<lambda>s. duration s = 0" v] by simp
  ultimately have "offered (collect r v) = resps (collect r v) + client_drop (collect r v)"
    "resps (collect r v) = length (collected (collect r v))" "\<forall>s \<in> set (collected (collect r v)). success s"
    using Cons.prems by (auto simp: collect_def Let_def)
  then show ?case using Cons.IH [of "collect r v"] Cons.prems(1) by simp
qed simp

text \<open>
  The results add up: whatever the threads of the workers did, every work unit offered is
  either dropped or counted as a response, the collected samples are the responses, and printing
  their statistics never indexes an empty vector, although it only tests for one before filtering.
\<close>

theorem experiment_results:
  assumes "\<forall>w \<in> set samples. \<exists>tid w0. worker_run T tid w0 w \<and> (\<forall>s \<in> set w0. fresh s)"
  shows "offered (RunExperiment samples) = resps (RunExperiment samples) + client_drop (RunExperiment samples) \<and>
    resps (RunExperiment samples) = length (collected (RunExperiment samples)) \<and>
    (\<exists>out. PrintStatResults (collected (RunExperiment samples)) = Inr out)"
proof -
  let ?r = "RunExperiment samples"
  have "\<forall>v \<in> set samples. \<forall>s \<in> set v. duration s \<noteq> 0 \<longrightarrow> success s" using assms run_keeps_success by blast
  from collect_all [OF this, of "\<lparr>collected = [], offered = 0, client_drop = 0, resps = 0\<rparr>"] have r: "offered ?r = resps ?r + client_drop ?r" "resps ?r = length (collected ?r)"
    "\<forall>s \<in> set (collected ?r). success s" unfolding RunExperiment_def by simp_all
  then have "filter success (collected ?r) = collected ?r" by (auto intro: filter_True)
  then have "\<exists>out. PrintStatResults (collected ?r) = Inr out"
    by (auto simp: PrintStatResults_def Let_def) (metis length_0_conv length_sort)
  then show ?thesis using r(1,2) by blast
qed

section \<open>Witnesses\<close>

definition unit1 :: work_unit where
  "unit1 = \<lparr>duration = 0, hash = 5, success = False, term_index = 9, timing = 0, idx = 0\<rparr>"

theorem tcp_roundtrip_witness:
  "TcpReadFull [1, 1] 2 [] ([7, 8] @ [9]) = Some (2, [7, 8], [9]) \<and> TcpWriteFull [2] [7, 8] 0 [] = Some (2, [7, 8])"
proof -
  have w: "TcpWriteFull [2] [7, 8] 0 [] = Some (2, [7, 8 :: u8])" by (simp add: TcpWriteFull.simps)
  have r: "TcpReadFull [1, 1] 2 [] ([7, 8] @ [9]) = Some (2, [7, 8], [9 :: u8])" by (simp add: TcpReadFull.simps)
  have "[7, 8] = [7, 8 :: u8] \<and> [9] = [9 :: u8] \<and> (2 :: int) = 2"
    using tcp_roundtrip [OF w, of "[1, 1]" "[9]" 2 "[7, 8]" "[9]"] r by simp
  then show ?thesis using w r by blast
qed

theorem response_matches_witness:
  "let (p, w) = request 3 2 1 100 [unit1, unit1] in
   handle_response 3 2 130 (bytes_payload (payload_bytes p)) w = [unit1, unit1\<lparr>idx := 5, timing := 100, duration := 30, success := True\<rparr>]"
proof -
  obtain p w where r: "request 3 2 1 100 [unit1, unit1] = (p, w)" by fastforce
  then have "w = [unit1, unit1\<lparr>idx := 5, timing := 100\<rparr>]" by (auto simp: request_def Let_def)
  moreover have "handle_response 3 2 130 (bytes_payload (payload_bytes p)) w = w[1 := (w ! 1)\<lparr>duration := 130 - 100, success := True\<rparr>]"
    by (rule response_matches [OF _ _ _ r]) simp_all
  ultimately show ?thesis unfolding r Let_def prod.case by (simp add: unit1_def)
qed

theorem start_barrier_witness: "\<exists>s. (bar_step 2)\<^sup>*\<^sup>* bar_start s \<and> deadlocked 2 s \<and> (\<nexists>t. bar_step 2 s t)"
  using start_barrier [of 2] by auto

theorem experiment_results_witness:
  "let w = snd (request 1 0 0 100 [unit1]); w' = handle_response 1 0 130 \<lparr>pl_term_index = 0, pl_index = 0, pl_hash = 0\<rparr> w;
       r = RunExperiment [w, w'] in offered r = 2 \<and> resps r + client_drop r = 2 \<and> (\<exists>out. PrintStatResults (collected r) = Inr out)"
proof -
  let ?rp = "\<lparr>pl_term_index = 0, pl_index = 0, pl_hash = 0\<rparr>"
  let ?w = "snd (request 1 0 0 100 [unit1])"
  let ?w' = "handle_response 1 0 130 ?rp ?w"
  have run: "worker_run 1 0 [unit1] ?w" "worker_run 1 0 [unit1] ?w'" "\<forall>s \<in> set [unit1]. fresh s"
    using worker_run.requested [OF worker_run.generated, of 0 "[unit1]" 1 0 100] worker_run.responded [of 1 0 "[unit1]" ?w 130 ?rp]
    by (simp_all add: fresh_def unit1_def)
  have "\<exists>tid w0. worker_run 1 tid w0 w \<and> (\<forall>s \<in> set w0. fresh s)" if "w \<in> set [?w, ?w']" for w
    using run that by (intro exI [of _ 0] exI [of _ "[unit1]"]) auto
  then have "\<forall>w \<in> set [?w, ?w']. \<exists>tid w0. worker_run 1 tid w0 w \<and> (\<forall>s \<in> set w0. fresh s)" by blast
  note results = experiment_results [OF this]
  have "offered (RunExperiment [?w, ?w']) = length ?w + length ?w'" by (simp only: RunExperiment_def collect_def Let_def foldl.simps) simp
  moreover have "length ?w = 1" "length ?w' = length ?w" by (simp_all only: request_def handle_response_def Let_def snd_conv) simp_all
  ultimately have "offered (RunExperiment [?w, ?w']) = 2" by linarith
  then show ?thesis unfolding Let_def using results by (metis (no_types, lifting))
qed

end
