(* ===== verification/Bpf_IO.thy ===== *)
theory Bpf_IO
  imports Prelude
begin

text \<open>
  The BPF component that records network I/O (\<open>src/src/io\<close>): the eight probes and the record
  they submit (\<open>hrp_bpf.bpf.c\<close>, \<open>hrp_bpf.h\<close>), the memory-mapped log of the user process
  (\<open>log.c\<close>), and starting, polling and stopping (\<open>hrp_bpf_api.c\<close>, \<open>main.c\<close>). The kernel's
  ring buffer is a queue; whether it has room, what libbpf answers and what the system calls
  return are arguments. CPU affinity and messages are left out.
\<close>

section \<open>Configuration\<close>

record bpf_config =
  HRP_BPF_ENABLE_TCP :: bool
  HRP_BPF_ENABLE_UDP :: bool
  HRP_BPF_LOG_FILE_SIZE :: u64

definition bpf_config_h :: bpf_config where
  "bpf_config_h = \<lparr>HRP_BPF_ENABLE_TCP = False, HRP_BPF_ENABLE_UDP = True, HRP_BPF_LOG_FILE_SIZE = 1024 * 1024 * 200\<rparr>"

section \<open>Events\<close>

definition HRP_BPF_EVENT_TCP_IN_START :: u32 where "HRP_BPF_EVENT_TCP_IN_START = 1"
definition HRP_BPF_EVENT_TCP_OUT_START :: u32 where "HRP_BPF_EVENT_TCP_OUT_START = 2"
definition HRP_BPF_EVENT_UDP_IN_START :: u32 where "HRP_BPF_EVENT_UDP_IN_START = 3"
definition HRP_BPF_EVENT_UDP_OUT_START :: u32 where "HRP_BPF_EVENT_UDP_OUT_START = 4"
definition HRP_BPF_EVENT_TCP_IN_END :: u32 where "HRP_BPF_EVENT_TCP_IN_END = 7"
definition HRP_BPF_EVENT_TCP_OUT_END :: u32 where "HRP_BPF_EVENT_TCP_OUT_END = 8"
definition HRP_BPF_EVENT_UDP_IN_END :: u32 where "HRP_BPF_EVENT_UDP_IN_END = 9"
definition HRP_BPF_EVENT_UDP_OUT_END :: u32 where "HRP_BPF_EVENT_UDP_OUT_END = 10"

text \<open>
  \<open>ev_padding\<close> stands for the four bytes that the compiler inserts before \<open>size_or_ret\<close> to
  align it; nothing sets them, and they are copied with the rest.
\<close>

record hrp_bpf_event =
  ts_ns :: u64
  pid :: u32
  tid :: u32
  event_type :: u32
  ev_padding :: u32
  size_or_ret :: u64
  rbp_or_req_addr :: u64

definition event_bytes :: "hrp_bpf_event \<Rightarrow> u8 list" where
  "event_bytes e = le_bytes 8 (ts_ns e) @ le_bytes 4 (pid e) @ le_bytes 4 (tid e) @ le_bytes 4 (event_type e) @
     le_bytes 4 (ev_padding e) @ le_bytes 8 (size_or_ret e) @ le_bytes 8 (rbp_or_req_addr e)"

definition sizeof_hrp_bpf_event :: nat where
  "sizeof_hrp_bpf_event = 40"

lemma length_event_bytes [simp]: "length (event_bytes e) = sizeof_hrp_bpf_event"
  by (simp add: event_bytes_def sizeof_hrp_bpf_event_def)

definition decode_event :: "u8 list \<Rightarrow> hrp_bpf_event" where
  "decode_event bs =
     \<lparr>ts_ns = le_word (take 8 bs), pid = le_word (take 4 (drop 8 bs)), tid = le_word (take 4 (drop 12 bs)),
      event_type = le_word (take 4 (drop 16 bs)), ev_padding = le_word (take 4 (drop 20 bs)),
      size_or_ret = le_word (take 8 (drop 24 bs)), rbp_or_req_addr = le_word (take 8 (drop 32 bs))\<rparr>"

primrec decode_events :: "nat \<Rightarrow> u8 list \<Rightarrow> hrp_bpf_event list" where
  "decode_events 0 bs = []"
| "decode_events (Suc n) bs = decode_event bs # decode_events n (drop sizeof_hrp_bpf_event bs)"

lemma decode_event_bytes: "decode_event (event_bytes e @ bs) = e"
  by (simp add: decode_event_def event_bytes_def le_word_le_bytes_id drop_append take_append)

lemma decode_events_bytes: "decode_events (length es) (concat (map event_bytes es) @ bs) = es"
  by (induction es) (simp_all add: decode_event_bytes)

section \<open>Probes\<close>

record pt_regs =
  rdx :: u64
  rax :: u64
  rbp :: u64

text \<open>
  What the helpers of the kernel give a probe: room for a record (with whatever its memory held in the
  place of the padding), the clock, and process and thread in one word.
\<close>

record probe_env =
  b_room :: bool
  b_stale :: u32
  b_ktime :: u64
  b_pid_tgid :: u64

definition SET_EVENT_FIELDS :: "probe_env \<Rightarrow> u32 \<Rightarrow> u64 \<Rightarrow> u64 \<Rightarrow> hrp_bpf_event" where
  "SET_EVENT_FIELDS pe ty sz addr =
     \<lparr>ts_ns = b_ktime pe, pid = ucast (drop_bit 32 (b_pid_tgid pe)), tid = ucast (b_pid_tgid pe AND 0xFFFFFFFF), event_type = ty,
      ev_padding = b_stale pe, size_or_ret = ucast (ucast sz :: u32), rbp_or_req_addr = addr\<rparr>"

definition RB_SUBMIT :: "hrp_bpf_event \<Rightarrow> hrp_bpf_event list \<Rightarrow> hrp_bpf_event list" where
  "RB_SUBMIT e q = q @ [e]"

type_synonym probe = "probe_env \<Rightarrow> pt_regs \<Rightarrow> hrp_bpf_event list \<Rightarrow> hrp_bpf_event list"

definition kprobe_tcp_sendmsg :: probe where
  "kprobe_tcp_sendmsg pe ctx q =
     (if \<not> b_room pe then q else RB_SUBMIT (SET_EVENT_FIELDS pe HRP_BPF_EVENT_TCP_OUT_START (rdx ctx) (rbp ctx)) q)"

definition kretprobe_tcp_sendmsg :: probe where
  "kretprobe_tcp_sendmsg pe ctx q =
     (if \<not> b_room pe then q else RB_SUBMIT (SET_EVENT_FIELDS pe HRP_BPF_EVENT_TCP_OUT_END (rax ctx) (rbp ctx)) q)"

definition kprobe_tcp_recvmsg :: probe where
  "kprobe_tcp_recvmsg pe ctx q =
     (if \<not> b_room pe then q else RB_SUBMIT (SET_EVENT_FIELDS pe HRP_BPF_EVENT_TCP_IN_START (rdx ctx) (rbp ctx)) q)"

definition kretprobe_tcp_recvmsg :: probe where
  "kretprobe_tcp_recvmsg pe ctx q =
     (if \<not> b_room pe then q else RB_SUBMIT (SET_EVENT_FIELDS pe HRP_BPF_EVENT_TCP_IN_END (rax ctx) (rbp ctx)) q)"

definition kprobe_udp_sendmsg :: probe where
  "kprobe_udp_sendmsg pe ctx q =
     (if \<not> b_room pe then q else RB_SUBMIT (SET_EVENT_FIELDS pe HRP_BPF_EVENT_UDP_OUT_START (rdx ctx) (rbp ctx)) q)"

definition kretprobe_udp_sendmsg :: probe where
  "kretprobe_udp_sendmsg pe ctx q =
     (if \<not> b_room pe then q else RB_SUBMIT (SET_EVENT_FIELDS pe HRP_BPF_EVENT_UDP_OUT_END (rax ctx) (rbp ctx)) q)"

definition kprobe_udp_recvmsg :: probe where
  "kprobe_udp_recvmsg pe ctx q =
     (if \<not> b_room pe then q else RB_SUBMIT (SET_EVENT_FIELDS pe HRP_BPF_EVENT_UDP_IN_START (rdx ctx) (rbp ctx)) q)"

definition kretprobe_udp_recvmsg :: probe where
  "kretprobe_udp_recvmsg pe ctx q =
     (if \<not> b_room pe then q else RB_SUBMIT (SET_EVENT_FIELDS pe HRP_BPF_EVENT_UDP_IN_END (rax ctx) (rbp ctx)) q)"

text \<open>The programs of the object file, named as the variables of the loader name them.\<close>

datatype hrp_prog =
    tcp_out_start | tcp_out_end | tcp_in_start | tcp_in_end
  | udp_out_start | udp_out_end | udp_in_start | udp_in_end

fun run_prog :: "hrp_prog \<Rightarrow> probe" where
  "run_prog tcp_out_start = kprobe_tcp_sendmsg"
| "run_prog tcp_out_end = kretprobe_tcp_sendmsg"
| "run_prog tcp_in_start = kprobe_tcp_recvmsg"
| "run_prog tcp_in_end = kretprobe_tcp_recvmsg"
| "run_prog udp_out_start = kprobe_udp_sendmsg"
| "run_prog udp_out_end = kretprobe_udp_sendmsg"
| "run_prog udp_in_start = kprobe_udp_recvmsg"
| "run_prog udp_in_end = kretprobe_udp_recvmsg"

section \<open>State of the process\<close>

datatype bpf_res = RRing | RLink hrp_prog | RObj

text \<open>
  Pointers that are only tested and passed on are booleans (not NULL); \<open>live_res\<close> says which of
  the objects behind them exist. The log file is mapped shared, so the mapping and the file are
  the same bytes. \<open>polling_thread\<close> is the file-scope handle, \<open>threads\<close> the threads that can be joined.
\<close>

record bpf_state =
  file_bytes :: "u8 list option"
  log_base :: bool
  mapped :: bool
  log_offset :: u64
  obj :: bool
  prog :: "hrp_prog \<Rightarrow> bool"
  link :: "hrp_prog \<Rightarrow> bool"
  rb :: bool
  live_res :: "bpf_res set"
  running :: bool
  polling_thread :: nat
  threads :: "nat set"
  ringbuf :: "hrp_bpf_event list"
  poll_done :: bool

record bpf_env =
  v_open :: bool
  v_ftruncate :: bool
  v_mmap :: bool
  v_reopen :: bool
  v_retruncate :: bool
  v_object :: bool
  v_find :: "hrp_prog \<Rightarrow> bool"
  v_attach :: "hrp_prog \<Rightarrow> bool"
  v_ring :: bool
  v_create :: "nat option"

section \<open>The log\<close>

definition resize :: "nat \<Rightarrow> u8 list \<Rightarrow> u8 list" where
  "resize n bs = take n bs @ replicate (n - length bs) 0"

definition overwrite :: "nat \<Rightarrow> u8 list \<Rightarrow> u8 list \<Rightarrow> u8 list" where
  "overwrite off new bs = take off bs @ new @ drop (off + length new) bs"

definition contents_of :: "u8 list option \<Rightarrow> u8 list" where
  "contents_of f = (case f of None \<Rightarrow> [] | Some bs \<Rightarrow> bs)"

text \<open>The result says whether the returned address is not NULL.\<close>

definition hrp_bpf_log_init :: "bpf_config \<Rightarrow> bpf_env \<Rightarrow> bpf_state \<Rightarrow> bool \<times> bpf_state" where
  "hrp_bpf_log_init cfg v st =
     (if \<not> v_open v then (False, st)
      else
        (let st = st\<lparr>file_bytes := Some (contents_of (file_bytes st))\<rparr> in
         if \<not> v_ftruncate v then (False, st)
         else
           (let st = st\<lparr>file_bytes := Some (resize (unat (HRP_BPF_LOG_FILE_SIZE cfg)) (contents_of (file_bytes st)))\<rparr> in
            if \<not> v_mmap v then (False, st)
            else (True, st\<lparr>mapped := True\<rparr>))))"

definition hrp_bpf_log_cleanup :: "bpf_env \<Rightarrow> bpf_state \<Rightarrow> bpf_state" where
  "hrp_bpf_log_cleanup v st =
     (let st = st\<lparr>mapped := False\<rparr> in
      if \<not> v_reopen v then st
      else if \<not> v_retruncate v then st
      else st\<lparr>file_bytes := Some (resize (unat (log_offset st)) (contents_of (file_bytes st)))\<rparr>)"

definition hrp_bpf_event_callback :: "bpf_config \<Rightarrow> hrp_bpf_event \<Rightarrow> bpf_state \<Rightarrow> bpf_state may" where
  "hrp_bpf_event_callback cfg e st =
     (let offset = log_offset st;
          st = st\<lparr>log_offset := offset + word_of_nat sizeof_hrp_bpf_event\<rparr> in
      if HRP_BPF_LOG_FILE_SIZE cfg < offset + word_of_nat sizeof_hrp_bpf_event then Inr st
      else if \<not> mapped st then Inl NullDeref
      else if length (contents_of (file_bytes st)) < unat offset + sizeof_hrp_bpf_event then Inl OutOfBounds
      else Inr (st\<lparr>file_bytes := Some (overwrite (unat offset) (event_bytes e) (contents_of (file_bytes st)))\<rparr>))"

section \<open>Starting and stopping\<close>

definition tcp_progs :: "hrp_prog list" where
  "tcp_progs = [tcp_out_start, tcp_out_end, tcp_in_start, tcp_in_end]"

definition udp_progs :: "hrp_prog list" where
  "udp_progs = [udp_out_start, udp_out_end, udp_in_start, udp_in_end]"

definition find_programs :: "bpf_env \<Rightarrow> hrp_prog list \<Rightarrow> bpf_state \<Rightarrow> bpf_state" where
  "find_programs v ps st = st\<lparr>prog := (\<lambda>p. if p \<in> set ps then v_find v p else prog st p)\<rparr>"

definition hrp_bpf_init_log_and_programs :: "bpf_config \<Rightarrow> bpf_env \<Rightarrow> bpf_state \<Rightarrow> int \<times> bpf_state" where
  "hrp_bpf_init_log_and_programs cfg v st =
     (let (base, st) = hrp_bpf_log_init cfg v st;
          st = st\<lparr>log_base := base\<rparr> in
      if \<not> log_base st then (1, st)
      else
        (let st = st\<lparr>log_offset := 0\<rparr>;
             st = st\<lparr>obj := v_object v, live_res := (if v_object v then insert RObj (live_res st) else live_res st)\<rparr> in
         if \<not> obj st then (1, hrp_bpf_log_cleanup v st)
         else
           (let st = (if HRP_BPF_ENABLE_TCP cfg then find_programs v tcp_progs st else st);
                st = (if HRP_BPF_ENABLE_UDP cfg then find_programs v udp_progs st else st) in
            (0, st))))"

definition attach :: "bpf_env \<Rightarrow> hrp_prog \<Rightarrow> bpf_state \<Rightarrow> bpf_state" where
  "attach v p st =
     (if prog st p
      then st\<lparr>link := (link st)(p := v_attach v p), live_res := (if v_attach v p then insert (RLink p) (live_res st) else live_res st)\<rparr>
      else st)"

definition prog_order :: "hrp_prog list" where
  "prog_order = [tcp_out_start, tcp_out_end, tcp_in_start, tcp_in_end, udp_out_start, udp_out_end, udp_in_start, udp_in_end]"

text \<open>
  The polling thread up to its loop, and one round of the loop: \<open>k\<close> is how many of the available
  records \<open>ring_buffer__poll\<close> hands to the callback, \<open>err\<close> whether it reports an error.
\<close>

definition hrp_bpf_attach :: "bpf_env \<Rightarrow> bpf_state \<Rightarrow> bpf_state" where
  "hrp_bpf_attach v st =
     (let st = fold (attach v) prog_order st;
          st = st\<lparr>rb := v_ring v, live_res := (if v_ring v then insert RRing (live_res st) else live_res st)\<rparr> in
      if \<not> rb st then st\<lparr>poll_done := True\<rparr> else st)"

definition hrp_bpf_poll_round :: "bpf_config \<Rightarrow> nat \<Rightarrow> bool \<Rightarrow> bpf_state \<Rightarrow> bpf_state may" where
  "hrp_bpf_poll_round cfg k err st =
     (if poll_done st then Inr st
      else if \<not> running st then Inr (st\<lparr>poll_done := True\<rparr>)
      else
        bindF (foldF (hrp_bpf_event_callback cfg) (take k (ringbuf st)) (st\<lparr>ringbuf := drop k (ringbuf st)\<rparr>)) (\<lambda>st.
          Inr (if err then st\<lparr>poll_done := True\<rparr> else st)))"

text \<open>
  The handle of the new thread goes to a local variable of the same name, which hides the
  file-scope one. A created thread has a handle other than 0.
\<close>

definition hrp_bpf_start :: "bpf_config \<Rightarrow> bpf_env \<Rightarrow> bpf_state \<Rightarrow> int \<times> bpf_state" where
  "hrp_bpf_start cfg v st =
     (let (ret, st) = hrp_bpf_init_log_and_programs cfg v st in
      if ret \<noteq> 0 then (1, st)
      else case v_create v of
             None \<Rightarrow> (1, st)
           | Some local_polling_thread \<Rightarrow> (0, st\<lparr>threads := insert (Suc local_polling_thread) (threads st)\<rparr>))"

text \<open>
  Joining a handle that is not the one of a thread of the process is undefined; the C library reads
  through it, so that the handle 0 is a NULL pointer. Otherwise the call returns when the thread
  has left its loop.
\<close>

definition pthread_join :: "nat \<Rightarrow> bpf_state \<Rightarrow> bpf_state may" where
  "pthread_join h st =
     (if h \<in> threads st then Inr (st\<lparr>threads := threads st - {h}, poll_done := True\<rparr>) else Inl NullDeref)"

definition release :: "bpf_res \<Rightarrow> bpf_state \<Rightarrow> bpf_state may" where
  "release r st = (if r \<in> live_res st then Inr (st\<lparr>live_res := live_res st - {r}\<rparr>) else Inl BadFree)"

definition destroy_link :: "hrp_prog \<Rightarrow> bpf_state \<Rightarrow> bpf_state may" where
  "destroy_link p st = (if link st p then release (RLink p) st else Inr st)"

definition hrp_bpf_stop :: "bpf_env \<Rightarrow> bpf_state \<Rightarrow> bpf_state may" where
  "hrp_bpf_stop v st =
     (let st = st\<lparr>running := False\<rparr> in
      bindF (pthread_join (polling_thread st) st) (\<lambda>st.
        bindF (if rb st then release RRing st else Inr st) (\<lambda>st.
          bindF (foldF destroy_link prog_order st) (\<lambda>st.
            bindF (if obj st then release RObj st else Inr st) (\<lambda>st.
              Inr (if log_base st then hrp_bpf_log_cleanup v st else st))))))"

text \<open>While the process runs, attached probes fire and the polling thread goes round its loop.\<close>

datatype bpf_act = Probe hrp_prog probe_env pt_regs | Poll nat bool

fun bpf_do :: "bpf_config \<Rightarrow> bpf_act \<Rightarrow> bpf_state \<Rightarrow> bpf_state may" where
  "bpf_do cfg (Probe p pe ctx) st = Inr (if link st p then st\<lparr>ringbuf := run_prog p pe ctx (ringbuf st)\<rparr> else st)"
| "bpf_do cfg (Poll k err) st = hrp_bpf_poll_round cfg k err st"

definition bpf_main :: "bpf_config \<Rightarrow> bpf_env \<Rightarrow> bpf_act list \<Rightarrow> bpf_state \<Rightarrow> bpf_state may" where
  "bpf_main cfg v acts st =
     (let (r, st) = hrp_bpf_start cfg v st in
      bindF (if r = 0 then foldF (bpf_do cfg) acts (hrp_bpf_attach v st) else Inr st) (hrp_bpf_stop v))"

text \<open>The process before \<open>hrp_bpf_start\<close>: static variables are zero, \<open>running\<close> is set.\<close>

definition bpf_boot :: "u8 list option \<Rightarrow> bpf_state" where
  "bpf_boot f = \<lparr>file_bytes = f, log_base = False, mapped = False, log_offset = 0, obj = False, prog = (\<lambda>_. False),
     link = (\<lambda>_. False), rb = False, live_res = {}, running = True, polling_thread = 0, threads = {}, ringbuf = [],
     poll_done = False\<rparr>"

section \<open>What a probe records\<close>

fun event_code :: "hrp_prog \<Rightarrow> u32" where
  "event_code tcp_out_start = HRP_BPF_EVENT_TCP_OUT_START"
| "event_code tcp_out_end = HRP_BPF_EVENT_TCP_OUT_END"
| "event_code tcp_in_start = HRP_BPF_EVENT_TCP_IN_START"
| "event_code tcp_in_end = HRP_BPF_EVENT_TCP_IN_END"
| "event_code udp_out_start = HRP_BPF_EVENT_UDP_OUT_START"
| "event_code udp_out_end = HRP_BPF_EVENT_UDP_OUT_END"
| "event_code udp_in_start = HRP_BPF_EVENT_UDP_IN_START"
| "event_code udp_in_end = HRP_BPF_EVENT_UDP_IN_END"

lemmas event_codes =
  HRP_BPF_EVENT_TCP_OUT_START_def HRP_BPF_EVENT_TCP_OUT_END_def HRP_BPF_EVENT_TCP_IN_START_def HRP_BPF_EVENT_TCP_IN_END_def
  HRP_BPF_EVENT_UDP_OUT_START_def HRP_BPF_EVENT_UDP_OUT_END_def HRP_BPF_EVENT_UDP_IN_START_def HRP_BPF_EVENT_UDP_IN_END_def

lemmas probe_defs =
  kprobe_tcp_sendmsg_def kretprobe_tcp_sendmsg_def kprobe_tcp_recvmsg_def kretprobe_tcp_recvmsg_def
  kprobe_udp_sendmsg_def kretprobe_udp_sendmsg_def kprobe_udp_recvmsg_def kretprobe_udp_recvmsg_def

definition is_start :: "hrp_prog \<Rightarrow> bool" where
  "is_start p \<longleftrightarrow> p \<in> {tcp_out_start, tcp_in_start, udp_out_start, udp_in_start}"

lemma run_prog_eq:
  "run_prog p pe ctx q =
     (if b_room pe then q @ [SET_EVENT_FIELDS pe (event_code p) (if is_start p then rdx ctx else rax ctx) (rbp ctx)] else q)"
  by (cases p) (simp_all add: probe_defs RB_SUBMIT_def is_start_def)

lemma run_prog_append: "run_prog p pe ctx q = q @ run_prog p pe ctx []"
  by (simp add: run_prog_eq)

lemma event_code_inj: "event_code p = event_code p' \<longleftrightarrow> p = p'"
  by (cases p; cases p'; simp add: event_codes)

lemma set_event_words:
  "unat (pid (SET_EVENT_FIELDS pe ty sz addr)) = unat (b_pid_tgid pe) div 2 ^ 32"
  "unat (tid (SET_EVENT_FIELDS pe ty sz addr)) = unat (b_pid_tgid pe) mod 2 ^ 32"
  "unat (size_or_ret (SET_EVENT_FIELDS pe ty sz addr)) = unat sz mod 2 ^ 32"
proof -
  have m: "(0xFFFFFFFF :: u64) = Bit_Operations.mask 32" by (simp add: mask_eq_exp_minus_1)
  have u: "unat (w :: u64) div 2 ^ 32 < 2 ^ 32" for w using unsigned_less [of w, where ?'a = nat] by (simp add: less_mult_imp_div_less)
  show "unat (pid (SET_EVENT_FIELDS pe ty sz addr)) = unat (b_pid_tgid pe) div 2 ^ 32"
    using u [of "b_pid_tgid pe"]
    by (simp add: SET_EVENT_FIELDS_def unsigned_ucast_eq unat_div take_bit_eq_mod drop_bit_eq_div)
  show "unat (tid (SET_EVENT_FIELDS pe ty sz addr)) = unat (b_pid_tgid pe) mod 2 ^ 32"
    unfolding SET_EVENT_FIELDS_def m
    by (simp add: unsigned_ucast_eq unsigned_take_bit_eq take_bit_nat_def flip: take_bit_eq_mask)
  show "unat (size_or_ret (SET_EVENT_FIELDS pe ty sz addr)) = unat sz mod 2 ^ 32"
    by (simp add: SET_EVENT_FIELDS_def unsigned_ucast_eq take_bit_eq_mod unat_mod)
qed

text \<open>
  A probe submits one record, or none if the ring buffer has no room: the record tells the eight
  probes apart, splits process and thread, and carries the frame pointer, and the size on entry or the
  result on return, of which only the low 32 bits are kept.
\<close>

theorem probe_records:
  "run_prog p pe ctx q =
     (if b_room pe then q @ [SET_EVENT_FIELDS pe (event_code p) (if is_start p then rdx ctx else rax ctx) (rbp ctx)] else q) \<and>
   (\<forall>p'. event_code p' = event_code p \<longleftrightarrow> p' = p) \<and>
   (let e = SET_EVENT_FIELDS pe (event_code p) sz (rbp ctx) in
     ts_ns e = b_ktime pe \<and> event_type e = event_code p \<and> rbp_or_req_addr e = rbp ctx \<and>
     unat (pid e) = unat (b_pid_tgid pe) div 2 ^ 32 \<and> unat (tid e) = unat (b_pid_tgid pe) mod 2 ^ 32 \<and>
     unat (size_or_ret e) = unat sz mod 2 ^ 32)"
  unfolding Let_def run_prog_eq set_event_words by (simp add: event_code_inj SET_EVENT_FIELDS_def)

section \<open>The log while polling\<close>

definition log_cap :: "bpf_config \<Rightarrow> nat" where
  "log_cap cfg = unat (HRP_BPF_LOG_FILE_SIZE cfg) div sizeof_hrp_bpf_event"

abbreviation stored :: "bpf_config \<Rightarrow> hrp_bpf_event list \<Rightarrow> u8 list" where
  "stored cfg es \<equiv> concat (map event_bytes (take (log_cap cfg) es))"

text \<open>The log after the events \<open>es\<close>, of which it keeps as many as fit, over the old bytes \<open>old\<close> of the file.\<close>

definition logged :: "bpf_config \<Rightarrow> u8 list \<Rightarrow> hrp_bpf_event list \<Rightarrow> bpf_state \<Rightarrow> bool" where
  "logged cfg old es st \<longleftrightarrow>
     mapped st \<and> length old = unat (HRP_BPF_LOG_FILE_SIZE cfg) \<and>
     file_bytes st = Some (stored cfg es @ drop (length (stored cfg es)) old) \<and>
     log_offset st = word_of_nat (sizeof_hrp_bpf_event * length es)"

lemma length_concat_events [simp]: "length (concat (map event_bytes es)) = sizeof_hrp_bpf_event * length es"
  by (induction es) simp_all

lemma overwrite_at: "overwrite (length a) new (a @ b) = a @ new @ drop (length new) b"
  by (simp add: overwrite_def)

lemma fits_iff: "sizeof_hrp_bpf_event * Suc n \<le> unat (HRP_BPF_LOG_FILE_SIZE cfg) \<longleftrightarrow> n < log_cap cfg"
  unfolding log_cap_def sizeof_hrp_bpf_event_def using less_eq_div_iff_mult_less_eq [of 40 "Suc n"] by (simp add: mult.commute Suc_le_eq)

lemma unat_word_of_nat: "n < 2 ^ 64 \<Longrightarrow> unat (word_of_nat n :: u64) = n"
  by (simp add: unsigned_of_nat take_bit_nat_eq_self)

lemma callback_logged:
  assumes "logged cfg old es st" and "sizeof_hrp_bpf_event * Suc (length es) < 2 ^ 64"
  shows "\<exists>f. hrp_bpf_event_callback cfg e st =
      Inr (st\<lparr>file_bytes := f, log_offset := word_of_nat (sizeof_hrp_bpf_event * Suc (length es))\<rparr>) \<and>
    logged cfg old (es @ [e]) (st\<lparr>file_bytes := f, log_offset := word_of_nat (sizeof_hrp_bpf_event * Suc (length es))\<rparr>)"
proof -
  let ?n = "length es" and ?S = "HRP_BPF_LOG_FILE_SIZE cfg"
  define now :: u64 where "now = word_of_nat (sizeof_hrp_bpf_event * ?n)"
  define nxt :: u64 where "nxt = word_of_nat (sizeof_hrp_bpf_event * Suc ?n)"
  have off: "log_offset st = now" "now + word_of_nat sizeof_hrp_bpf_event = nxt"
    using assms(1) by (simp_all add: logged_def now_def nxt_def algebra_simps)
  have u: "unat nxt = sizeof_hrp_bpf_event * Suc ?n" "unat now = sizeof_hrp_bpf_event * ?n"
    unfolding now_def nxt_def using assms(2) by (intro unat_word_of_nat; simp)+
  have full: "?S < nxt \<longleftrightarrow> log_cap cfg \<le> ?n"
    unfolding word_less_nat_alt u using fits_iff [of ?n cfg] by linarith
  have rest: "mapped st" "length old = unat ?S" "file_bytes st = Some (stored cfg es @ drop (length (stored cfg es)) old)"
    using assms(1) by (simp_all add: logged_def)
  have ok: "logged cfg old (es @ [e]) (st\<lparr>file_bytes := f, log_offset := nxt\<rparr>)"
    if "f = Some (stored cfg (es @ [e]) @ drop (length (stored cfg (es @ [e]))) old)" for f
    unfolding logged_def using rest(1,2) that by (simp add: nxt_def)
  have "\<exists>f. hrp_bpf_event_callback cfg e st = Inr (st\<lparr>file_bytes := f, log_offset := nxt\<rparr>) \<and>
    f = Some (stored cfg (es @ [e]) @ drop (length (stored cfg (es @ [e]))) old)"
  proof (cases "log_cap cfg \<le> ?n")
    case True
    then show ?thesis
      using full off rest by (intro exI [of _ "file_bytes st"]) (simp add: hrp_bpf_event_callback_def Let_def)
  next
    case False
    let ?old = "concat (map event_bytes es) @ drop (sizeof_hrp_bpf_event * ?n) old"
    have len: "sizeof_hrp_bpf_event * Suc ?n \<le> length old" using False fits_iff [of ?n cfg] rest(2) by simp
    let ?f = "Some (concat (map event_bytes es) @ event_bytes e @ drop (sizeof_hrp_bpf_event * Suc ?n) old)"
    have "overwrite (sizeof_hrp_bpf_event * ?n) (event_bytes e) ?old = the ?f"
      using overwrite_at [of "concat (map event_bytes es)" "event_bytes e" "drop (sizeof_hrp_bpf_event * ?n) old"]
      by (simp add: add.commute)
    then show ?thesis
      using off u full False rest len
      by (intro exI [of _ ?f]) (simp add: hrp_bpf_event_callback_def Let_def contents_of_def add.commute)
  qed
  then show ?thesis using ok unfolding nxt_def by blast
qed

lemma callbacks_logged:
  assumes "logged cfg old es st" and "sizeof_hrp_bpf_event * Suc (length (es @ new)) < 2 ^ 64"
  shows "\<exists>f off. foldF (hrp_bpf_event_callback cfg) new st = Inr (st\<lparr>file_bytes := f, log_offset := off\<rparr>) \<and>
    logged cfg old (es @ new) (st\<lparr>file_bytes := f, log_offset := off\<rparr>)"
  using assms
proof (induction new arbitrary: es st)
  case Nil
  then show ?case by (intro exI [of _ "file_bytes st"] exI [of _ "log_offset st"]) simp
next
  case (Cons e new)
  have small: "sizeof_hrp_bpf_event * Suc (length es) < 2 ^ 64" "sizeof_hrp_bpf_event * Suc (length ((es @ [e]) @ new)) < 2 ^ 64"
    using Cons.prems(2) by (simp_all add: sizeof_hrp_bpf_event_def)
  obtain f where f: "hrp_bpf_event_callback cfg e st =
      Inr (st\<lparr>file_bytes := f, log_offset := word_of_nat (sizeof_hrp_bpf_event * Suc (length es))\<rparr>)"
    "logged cfg old (es @ [e]) (st\<lparr>file_bytes := f, log_offset := word_of_nat (sizeof_hrp_bpf_event * Suc (length es))\<rparr>)"
    using callback_logged [OF Cons.prems(1) small(1)] by blast
  from Cons.IH [OF f(2) small(2)] f(1) show ?case by auto
qed

section \<open>Runs\<close>

text \<open>The records that the attached probes submit.\<close>

definition submitted :: "(hrp_prog \<Rightarrow> bool) \<Rightarrow> bpf_act list \<Rightarrow> hrp_bpf_event list" where
  "submitted on acts = concat (map (\<lambda>a. case a of Probe p pe ctx \<Rightarrow> if on p then run_prog p pe ctx [] else [] | Poll k err \<Rightarrow> []) acts)"

lemma submitted_simps [simp]:
  "submitted on [] = []"
  "submitted on (Probe p pe ctx # acts) = (if on p then run_prog p pe ctx [] else []) @ submitted on acts"
  "submitted on (Poll k err # acts) = submitted on acts"
  by (simp_all add: submitted_def)

lemma poll_round_logged:
  assumes "logged cfg old es st" and "sizeof_hrp_bpf_event * Suc (length es + length (ringbuf st)) < 2 ^ 64"
  shows "\<exists>st' n. hrp_bpf_poll_round cfg k err st = Inr st' \<and> logged cfg old (es @ take n (ringbuf st)) st' \<and>
    ringbuf st' = drop n (ringbuf st) \<and> link st' = link st \<and> polling_thread st' = polling_thread st \<and> threads st' = threads st"
proof (cases "poll_done st \<or> \<not> running st")
  case True
  then show ?thesis using assms(1)
    by (intro exI [of _ "if poll_done st then st else st\<lparr>poll_done := True\<rparr>"] exI [of _ 0]) (auto simp: hrp_bpf_poll_round_def logged_def)
next
  case False
  let ?st = "st\<lparr>ringbuf := drop k (ringbuf st)\<rparr>"
  have "logged cfg old es ?st" using assms(1) by (simp add: logged_def)
  moreover have "sizeof_hrp_bpf_event * Suc (length (es @ take k (ringbuf st))) < 2 ^ 64"
    using assms(2) by (simp add: sizeof_hrp_bpf_event_def)
  ultimately obtain f off where c: "foldF (hrp_bpf_event_callback cfg) (take k (ringbuf st)) ?st = Inr (?st\<lparr>file_bytes := f, log_offset := off\<rparr>)"
    "logged cfg old (es @ take k (ringbuf st)) (?st\<lparr>file_bytes := f, log_offset := off\<rparr>)"
    using callbacks_logged [of cfg old es ?st "take k (ringbuf st)"] by blast
  let ?st' = "?st\<lparr>file_bytes := f, log_offset := off\<rparr>"
  have "hrp_bpf_poll_round cfg k err st = Inr (if err then ?st'\<lparr>poll_done := True\<rparr> else ?st')"
    using False c(1) by (simp add: hrp_bpf_poll_round_def)
  moreover have "logged cfg old (es @ take k (ringbuf st)) (if err then ?st'\<lparr>poll_done := True\<rparr> else ?st')"
    using c(2) by (simp add: logged_def)
  ultimately show ?thesis by (intro exI [of _ "if err then ?st'\<lparr>poll_done := True\<rparr> else ?st'"] exI [of _ k]) simp
qed

lemma bpf_run_logged:
  assumes "logged cfg old es st" and "sizeof_hrp_bpf_event * Suc (length es + length (ringbuf st @ submitted (link st) acts)) < 2 ^ 64"
  shows "\<exists>st' new. foldF (bpf_do cfg) acts st = Inr st' \<and> logged cfg old (es @ new) st' \<and>
    new @ ringbuf st' = ringbuf st @ submitted (link st) acts \<and> polling_thread st' = polling_thread st \<and> threads st' = threads st"
  using assms
proof (induction acts arbitrary: es st)
  case Nil
  then show ?case by simp
next
  case (Cons a acts)
  show ?case
  proof (cases a)
    case (Probe p pe ctx)
    let ?st = "if link st p then st\<lparr>ringbuf := run_prog p pe ctx (ringbuf st)\<rparr> else st"
    have "logged cfg old es ?st" using Cons.prems(1) by (simp add: logged_def)
    moreover have q: "ringbuf ?st @ submitted (link ?st) acts = ringbuf st @ submitted (link st) (a # acts)"
      using run_prog_append [of p pe ctx "ringbuf st"] by (simp add: Probe)
    ultimately show ?thesis using Cons.IH [of es ?st] Cons.prems(2) unfolding q by (cases "link st p") (simp_all add: Probe)
  next
    case (Poll k err)
    have "sizeof_hrp_bpf_event * Suc (length es + length (ringbuf st)) < 2 ^ 64"
      using Cons.prems(2) by (simp add: sizeof_hrp_bpf_event_def)
    from poll_round_logged [OF Cons.prems(1) this] obtain st' n where p: "hrp_bpf_poll_round cfg k err st = Inr st'"
      "logged cfg old (es @ take n (ringbuf st)) st'" "ringbuf st' = drop n (ringbuf st)" "link st' = link st"
      "polling_thread st' = polling_thread st" "threads st' = threads st"
      by blast
    have "length (es @ take n (ringbuf st)) + length (ringbuf st' @ submitted (link st') acts) = length es + length (ringbuf st @ submitted (link st) (a # acts))"
      by (simp add: p(3,4) Poll)
    then have "sizeof_hrp_bpf_event * Suc (length (es @ take n (ringbuf st)) + length (ringbuf st' @ submitted (link st') acts)) < 2 ^ 64"
      using Cons.prems(2) by metis
    from Cons.IH [OF p(2) this] obtain st'' new where i: "foldF (bpf_do cfg) acts st' = Inr st''"
      "logged cfg old ((es @ take n (ringbuf st)) @ new) st''" "new @ ringbuf st'' = ringbuf st' @ submitted (link st') acts"
      "polling_thread st'' = polling_thread st'" "threads st'' = threads st'"
      by blast
    have "(take n (ringbuf st) @ new) @ ringbuf st'' = ringbuf st @ submitted (link st) (a # acts)"
      using i(3) p(3,4) by (simp add: Poll)
    then show ?thesis using i p by (intro exI [of _ st''] exI [of _ "take n (ringbuf st) @ new"]) (simp add: Poll)
  qed
qed

lemma attach_frame: "logged cfg old es (attach v p st) = logged cfg old es st" "ringbuf (attach v p st) = ringbuf st"
  by (simp_all add: attach_def logged_def)

lemma attach_logged: "logged cfg old es (hrp_bpf_attach v st) = logged cfg old es st" "ringbuf (hrp_bpf_attach v st) = ringbuf st"
proof -
  have "logged cfg old es (fold (attach v) ps st) = logged cfg old es st \<and> ringbuf (fold (attach v) ps st) = ringbuf st" for ps
    by (induction ps arbitrary: st) (simp_all add: attach_frame)
  then show "logged cfg old es (hrp_bpf_attach v st) = logged cfg old es st" "ringbuf (hrp_bpf_attach v st) = ringbuf st"
    by (simp_all add: hrp_bpf_attach_def Let_def logged_def)
qed

lemma log_init_cases:
  "hrp_bpf_log_init cfg v st = (base, st') \<Longrightarrow>
     \<exists>f m. st' = st\<lparr>file_bytes := f, mapped := m\<rparr> \<and>
       (base \<longrightarrow> m \<and> f = Some (resize (unat (HRP_BPF_LOG_FILE_SIZE cfg)) (contents_of (file_bytes st))))"
  by (intro exI [of _ "file_bytes st'"] exI [of _ "mapped st'"])
    (auto simp: hrp_bpf_log_init_def contents_of_def Let_def split: if_splits)

definition found :: "bpf_config \<Rightarrow> bpf_env \<Rightarrow> (hrp_prog \<Rightarrow> bool) \<Rightarrow> hrp_prog \<Rightarrow> bool" where
  "found cfg v old p =
     (if HRP_BPF_ENABLE_UDP cfg \<and> p \<in> set udp_progs \<or> HRP_BPF_ENABLE_TCP cfg \<and> p \<in> set tcp_progs then v_find v p else old p)"

lemma find_found:
  "(let st = (if HRP_BPF_ENABLE_TCP cfg then find_programs v tcp_progs st else st)
    in if HRP_BPF_ENABLE_UDP cfg then find_programs v udp_progs st else st) = st\<lparr>prog := found cfg v (prog st)\<rparr>"
proof -
  have "prog st = (\<lambda>p. prog st p)" by simp
  then show ?thesis
    by (cases "HRP_BPF_ENABLE_TCP cfg"; cases "HRP_BPF_ENABLE_UDP cfg")
      (auto simp: find_programs_def found_def [abs_def] intro!: arg_cong2 [of _ _ _ _ prog_update])
qed

lemma init_programs_ok:
  assumes "hrp_bpf_log_init cfg v st = (base, st1)"
  shows "hrp_bpf_init_log_and_programs cfg v st =
    (if \<not> base then (1, st1\<lparr>log_base := False\<rparr>)
     else if \<not> v_object v then (1, hrp_bpf_log_cleanup v (st1\<lparr>log_base := True, log_offset := 0, obj := False\<rparr>))
     else (0, st1\<lparr>log_base := True, log_offset := 0, obj := True, live_res := insert RObj (live_res st1), prog := found cfg v (prog st1)\<rparr>))"
  unfolding hrp_bpf_init_log_and_programs_def assms using find_found [of cfg v] by (simp add: Let_def)

text \<open>What starting leaves: the log and the programs after a success, and in any case no handle.\<close>

lemma start_cases:
  assumes "hrp_bpf_start cfg v st = (r, st')"
  obtains (ok) t where "r = 0"
      "st' = st\<lparr>file_bytes := Some (resize (unat (HRP_BPF_LOG_FILE_SIZE cfg)) (contents_of (file_bytes st))), mapped := True,
         log_base := True, log_offset := 0, obj := True, live_res := insert RObj (live_res st), prog := found cfg v (prog st),
         threads := insert (Suc t) (threads st)\<rparr>"
    | (failed) "r = 1" "polling_thread st' = polling_thread st" "threads st' = threads st"
proof -
  obtain base st1 where l: "hrp_bpf_log_init cfg v st = (base, st1)" by fastforce
  then obtain f m where st1: "st1 = st\<lparr>file_bytes := f, mapped := m\<rparr>"
    "base \<longrightarrow> m \<and> f = Some (resize (unat (HRP_BPF_LOG_FILE_SIZE cfg)) (contents_of (file_bytes st)))"
    using log_init_cases by blast
  have clean: "polling_thread (hrp_bpf_log_cleanup v s) = polling_thread s" "threads (hrp_bpf_log_cleanup v s) = threads s" for s
    by (simp_all add: hrp_bpf_log_cleanup_def Let_def)
  note start = assms [unfolded hrp_bpf_start_def init_programs_ok [OF l]]
  show thesis
  proof (cases "base \<and> v_object v \<and> v_create v \<noteq> None")
    case True
    then obtain t where t: "v_create v = Some t" by blast
    show thesis by (rule ok [of t]) (use start True t st1 in auto)
  next
    case False
    show thesis
      by (rule failed; cases "base"; cases "v_object v") (use start False st1(1) clean in \<open>auto simp: Let_def\<close>)
  qed
qed

lemma start_logged:
  assumes "hrp_bpf_start cfg v (bpf_boot f) = (0, st)"
  shows "logged cfg (resize (unat (HRP_BPF_LOG_FILE_SIZE cfg)) (contents_of f)) [] st" "ringbuf st = []"
  using assms by (auto elim!: start_cases simp: bpf_boot_def logged_def contents_of_def resize_def)

text \<open>
  C19. From a successful start on, whatever probes fire and however the polling thread is scheduled,
  nothing faults: the callback never writes outside the mapped file. The records consumed
  followed by those still in the ring buffer are exactly the records submitted, in order; the file holds
  the consumed ones, as many as fit, and behind them what it held before. The bound says that the
  64-bit offset has not wrapped around.
\<close>

theorem bpf_run_records:
  assumes "hrp_bpf_start cfg v (bpf_boot f) = (0, st)"
    and "sizeof_hrp_bpf_event * Suc (length (submitted (link (hrp_bpf_attach v st)) acts)) < 2 ^ 64"
  shows "\<exists>st' consumed. foldF (bpf_do cfg) acts (hrp_bpf_attach v st) = Inr st' \<and>
    consumed @ ringbuf st' = submitted (link (hrp_bpf_attach v st)) acts \<and>
    log_offset st' = word_of_nat (sizeof_hrp_bpf_event * length consumed) \<and>
    file_bytes st' = Some (stored cfg consumed @
      drop (length (stored cfg consumed)) (resize (unat (HRP_BPF_LOG_FILE_SIZE cfg)) (contents_of f)))"
proof -
  have l: "logged cfg (resize (unat (HRP_BPF_LOG_FILE_SIZE cfg)) (contents_of f)) [] (hrp_bpf_attach v st)"
    "ringbuf (hrp_bpf_attach v st) = []"
    using start_logged [OF assms(1)] by (simp_all add: attach_logged)
  show ?thesis using bpf_run_logged [OF l(1), of acts] assms(2) by (fastforce simp: l(2) logged_def)
qed

definition zero_event :: hrp_bpf_event where
  "zero_event = \<lparr>ts_ns = 0, pid = 0, tid = 0, event_type = 0, ev_padding = 0, size_or_ret = 0, rbp_or_req_addr = 0\<rparr>"

lemma le_bytes_zero: "le_bytes k 0 = replicate k 0"
  by (induction k) simp_all

lemma zero_event_bytes: "concat (map event_bytes (replicate n zero_event)) = replicate (sizeof_hrp_bpf_event * n) 0"
proof (induction n)
  case (Suc n)
  have "event_bytes zero_event = replicate sizeof_hrp_bpf_event 0"
    by (simp add: event_bytes_def zero_event_def le_bytes_zero sizeof_hrp_bpf_event_def flip: replicate_add)
  then show ?case using Suc by (simp flip: replicate_add)
qed simp

text \<open>
  What the cleanup makes of a log of \<open>es\<close>: the offset also counts the records that did not fit, so
  truncating to it extends a full file by zero records.
\<close>

lemma cleanup_logged:
  assumes "logged cfg old es st" and "sizeof_hrp_bpf_event * length es < 2 ^ 64" and "sizeof_hrp_bpf_event dvd unat (HRP_BPF_LOG_FILE_SIZE cfg)"
    and "v_reopen v" and "v_retruncate v"
  shows "file_bytes (hrp_bpf_log_cleanup v st) =
    Some (concat (map event_bytes (take (log_cap cfg) es @ replicate (length es - log_cap cfg) zero_event)))"
proof -
  have st: "file_bytes st = Some (stored cfg es @ drop (length (stored cfg es)) old)" "length old = sizeof_hrp_bpf_event * log_cap cfg"
    "unat (log_offset st) = sizeof_hrp_bpf_event * length es"
    using assms(1,3) unat_word_of_nat [OF assms(2)] by (auto simp: logged_def log_cap_def)
  then have c: "file_bytes (hrp_bpf_log_cleanup v st) =
      Some (resize (sizeof_hrp_bpf_event * length es) (stored cfg es @ drop (length (stored cfg es)) old))"
    using assms(4,5) by (simp add: hrp_bpf_log_cleanup_def contents_of_def)
  show ?thesis
  proof (cases "length es \<le> log_cap cfg")
    case True
    then show ?thesis using c st(2) by (simp add: resize_def)
  next
    case False
    then have "length (stored cfg es) = length old" using st(2) by simp
    then show ?thesis
      using c False st(2) by (simp add: resize_def zero_event_bytes diff_mult_distrib2 del: map_replicate)
  qed
qed

section \<open>Which probes are attached\<close>

definition enabled :: "bpf_config \<Rightarrow> hrp_prog \<Rightarrow> bool" where
  "enabled cfg p \<longleftrightarrow> (if p \<in> set tcp_progs then HRP_BPF_ENABLE_TCP cfg else HRP_BPF_ENABLE_UDP cfg)"

lemma udp_or_tcp: "p \<in> set udp_progs \<longleftrightarrow> p \<notin> set tcp_progs"
  by (cases p) (simp_all add: udp_progs_def tcp_progs_def)

lemma start_progs:
  assumes "hrp_bpf_start cfg v (bpf_boot f) = (0, st)"
  shows "prog st p \<longleftrightarrow> enabled cfg p \<and> v_find v p" "\<not> link st p"
  using assms by (auto elim!: start_cases simp: bpf_boot_def found_def enabled_def udp_or_tcp split: if_splits)

lemma attach_links: "link (fold (attach v) ps st) p \<longleftrightarrow> (if p \<in> set ps \<and> prog st p then v_attach v p else link st p)"
proof (induction ps arbitrary: st)
  case (Cons q ps)
  then show ?case by (auto simp: attach_def)
qed simp

lemma all_progs: "p \<in> set prog_order"
  by (cases p) (simp_all add: prog_order_def)

lemma attached_iff:
  assumes "hrp_bpf_start cfg v (bpf_boot f) = (0, st)"
  shows "link (hrp_bpf_attach v st) p \<longleftrightarrow> enabled cfg p \<and> v_find v p \<and> v_attach v p"
  using start_progs [OF assms] by (auto simp: hrp_bpf_attach_def Let_def attach_links all_progs)

text \<open>
  Exactly the probes of the enabled protocols that libbpf finds and attaches are active, so every
  record submitted belongs to an enabled protocol: with the checked-in configuration, to UDP.
\<close>

theorem bpf_records_only_enabled:
  assumes "hrp_bpf_start cfg v (bpf_boot f) = (0, st)"
  shows "(link (hrp_bpf_attach v st) p \<longleftrightarrow> enabled cfg p \<and> v_find v p \<and> v_attach v p) \<and>
    (e \<in> set (submitted (link (hrp_bpf_attach v st)) acts) \<longrightarrow> (\<exists>q. event_type e = event_code q \<and> enabled cfg q))"
proof
  show "link (hrp_bpf_attach v st) p \<longleftrightarrow> enabled cfg p \<and> v_find v p \<and> v_attach v p" by (rule attached_iff [OF assms])
  show "e \<in> set (submitted (link (hrp_bpf_attach v st)) acts) \<longrightarrow> (\<exists>q. event_type e = event_code q \<and> enabled cfg q)"
    by (auto simp: submitted_def run_prog_eq SET_EVENT_FIELDS_def attached_iff [OF assms] split: bpf_act.splits if_splits)
qed

section \<open>Stopping\<close>

definition handle_unset :: "bpf_state \<Rightarrow> bool" where
  "handle_unset st \<longleftrightarrow> polling_thread st = 0 \<and> 0 \<notin> threads st"

lemma foldF_keeps_unset:
  "(\<And>i st st'. f i st = Inr st' \<Longrightarrow> handle_unset st \<Longrightarrow> handle_unset st') \<Longrightarrow> foldF f is st = Inr st' \<Longrightarrow> handle_unset st \<Longrightarrow> handle_unset st'"
  by (induction "is" arbitrary: st) (auto simp: bindF_eq_Inr)

lemma callback_unset: "hrp_bpf_event_callback cfg e st = Inr st' \<Longrightarrow> handle_unset st \<Longrightarrow> handle_unset st'"
  by (auto simp: hrp_bpf_event_callback_def Let_def handle_unset_def split: if_splits)

lemma handle_unset_frame [simp]:
  "handle_unset (st\<lparr>ringbuf := q\<rparr>) = handle_unset st" "handle_unset (st\<lparr>poll_done := d\<rparr>) = handle_unset st"
  by (simp_all add: handle_unset_def)

lemma bpf_do_unset:
  assumes "bpf_do cfg a st = Inr st'" and "handle_unset st"
  shows "handle_unset st'"
proof (cases a)
  case (Poll k err)
  have "handle_unset st1" if "foldF (hrp_bpf_event_callback cfg) es (st\<lparr>ringbuf := q\<rparr>) = Inr st1" for es q st1
    using foldF_keeps_unset [of "hrp_bpf_event_callback cfg", OF callback_unset that] assms(2) by simp
  then show ?thesis using assms by (auto simp: Poll hrp_bpf_poll_round_def bindF_eq_Inr split: if_splits)
qed (use assms in \<open>auto split: if_splits\<close>)

lemma run_unset: "foldF (bpf_do cfg) acts st = Inr st' \<Longrightarrow> handle_unset st \<Longrightarrow> handle_unset st'"
  by (erule (1) foldF_keeps_unset [rotated]) (erule (1) bpf_do_unset)

lemma start_unset: "hrp_bpf_start cfg v (bpf_boot f) = (r, st) \<Longrightarrow> handle_unset st"
  by (erule start_cases) (simp_all add: bpf_boot_def handle_unset_def)

lemma attach_unset: "handle_unset st \<Longrightarrow> handle_unset (hrp_bpf_attach v st)"
proof -
  have "handle_unset st \<Longrightarrow> handle_unset (fold (attach v) ps st)" for ps st
    by (induction ps arbitrary: st) (simp_all add: attach_def handle_unset_def)
  then show "handle_unset st \<Longrightarrow> handle_unset (hrp_bpf_attach v st)" by (simp add: hrp_bpf_attach_def Let_def handle_unset_def)
qed

text \<open>
  The monitoring program never stops cleanly: the handle of the polling thread is stored in a local
  variable that hides the file-scope one, so \<open>hrp_bpf_stop\<close> joins the handle 0. No run of the
  program returns, and neither the ring buffer, the links and the object are released nor is the log truncated.
\<close>

theorem bpf_main_never_returns: "\<nexists>st. bpf_main cfg v acts (bpf_boot f) = Inr st"
proof
  assume "\<exists>st. bpf_main cfg v acts (bpf_boot f) = Inr st"
  then obtain r st0 st1 st where r: "hrp_bpf_start cfg v (bpf_boot f) = (r, st0)" "hrp_bpf_stop v st1 = Inr st"
    "(if r = 0 then foldF (bpf_do cfg) acts (hrp_bpf_attach v st0) else Inr st0) = Inr st1"
    by (auto simp: bpf_main_def bindF_eq_Inr split: prod.splits)
  have "handle_unset st0" using start_unset [OF r(1)] .
  then have "handle_unset st1"
    using r(3) run_unset attach_unset by (auto split: if_splits)
  then show False using r(2) by (simp add: hrp_bpf_stop_def pthread_join_def handle_unset_def)
qed

text \<open>
  C38. What a run of the monitor leaves behind, from a successful start to the crash in \<open>hrp_bpf_stop\<close> that
  ends it, for every schedule of probes and polls and every outcome of the system calls: the
  file keeps the full size it was given, its first records decode to the first records submitted,
  as many as were polled and fit, what follows them is what the file held before or zeros, and the
  records that were not polled are still in the ring buffer. The bound says that the 64-bit offset
  has not wrapped around.
\<close>

theorem bpf_log_left:
  assumes "hrp_bpf_start cfg v (bpf_boot f) = (0, st)"
    and "es = submitted (link (hrp_bpf_attach v st)) acts" and "sizeof_hrp_bpf_event * Suc (length es) < 2 ^ 64"
  shows "\<exists>st' n bs. foldF (bpf_do cfg) acts (hrp_bpf_attach v st) = Inr st' \<and>
    hrp_bpf_stop v st' = Inl NullDeref \<and> bpf_main cfg v acts (bpf_boot f) = Inl NullDeref \<and>
    n \<le> length es \<and> ringbuf st' = drop n es \<and>
    file_bytes st' = Some bs \<and> length bs = unat (HRP_BPF_LOG_FILE_SIZE cfg) \<and>
    (let k = min n (unat (HRP_BPF_LOG_FILE_SIZE cfg) div sizeof_hrp_bpf_event) in
     decode_events k bs = take k es \<and>
     drop (sizeof_hrp_bpf_event * k) bs =
       drop (sizeof_hrp_bpf_event * k) (resize (unat (HRP_BPF_LOG_FILE_SIZE cfg)) (contents_of f)))"
proof -
  let ?old = "resize (unat (HRP_BPF_LOG_FILE_SIZE cfg)) (contents_of f)" and ?st = "hrp_bpf_attach v st"
  have "logged cfg ?old [] ?st" "ringbuf ?st = []" using start_logged [OF assms(1)] by (simp_all add: attach_logged)
  then obtain st' new where r: "foldF (bpf_do cfg) acts ?st = Inr st'" "logged cfg ?old new st'" "new @ ringbuf st' = es"
    using bpf_run_logged [of cfg ?old "[]" ?st acts] assms(2,3) by fastforce
  have "handle_unset st'"
    using run_unset [OF r(1)] attach_unset [OF start_unset [OF assms(1)]] by blast
  then have stop: "hrp_bpf_stop v st' = Inl NullDeref" by (simp add: hrp_bpf_stop_def pthread_join_def handle_unset_def)
  then have main: "bpf_main cfg v acts (bpf_boot f) = Inl NullDeref" using assms(1) r(1) by (simp add: bpf_main_def)
  let ?k = "min (length new) (log_cap cfg)"
  let ?bs = "stored cfg new @ drop (length (stored cfg new)) ?old"
  have new: "take ?k es = take (log_cap cfg) new" "length (take (log_cap cfg) new) = ?k"
    using r(3) by (auto simp: min_def)
  have len: "length (stored cfg new) = sizeof_hrp_bpf_event * ?k" by (simp add: length_concat_events new(2))
  have old: "length ?old = unat (HRP_BPF_LOG_FILE_SIZE cfg)" "file_bytes st' = Some ?bs" using r(2) by (simp_all add: logged_def)
  have fit: "sizeof_hrp_bpf_event * ?k \<le> unat (HRP_BPF_LOG_FILE_SIZE cfg)"
    by (rule order_trans [of _ "sizeof_hrp_bpf_event * log_cap cfg"]) (simp_all add: log_cap_def)
  have dec: "decode_events ?k ?bs = take ?k es"
    using decode_events_bytes [of "take (log_cap cfg) new"] unfolding new by (simp add: new(2))
  have tail: "drop (sizeof_hrp_bpf_event * ?k) ?bs = drop (sizeof_hrp_bpf_event * ?k) ?old" by (simp add: len)
  have all: "length ?bs = unat (HRP_BPF_LOG_FILE_SIZE cfg)" using len old(1) fit by simp
  show ?thesis
    using r(1,3) stop main old(2) dec tail all unfolding Let_def log_cap_def [symmetric]
    by (intro exI [of _ st'] exI [of _ "length new"] exI [of _ ?bs]) auto
qed

section \<open>Witnesses\<close>

text \<open>A log of two events that is started on a file with old content.\<close>

definition bcfg2 :: bpf_config where
  "bcfg2 = bpf_config_h\<lparr>HRP_BPF_LOG_FILE_SIZE := 80\<rparr>"

definition venv :: bpf_env where
  "venv = \<lparr>v_open = True, v_ftruncate = True, v_mmap = True, v_reopen = True, v_retruncate = True, v_object = True,
     v_find = (\<lambda>_. True), v_attach = (\<lambda>_. True), v_ring = True, v_create = Some 0\<rparr>"

lemma venv_simps: "v_reopen venv" "v_retruncate venv" "v_find venv p" "v_attach venv p" "v_ring venv"
  by (simp_all add: venv_def)

definition fire :: "hrp_prog \<Rightarrow> bpf_act" where
  "fire p = Probe p \<lparr>b_room = True, b_stale = 0, b_ktime = 5, b_pid_tgid = 0x700000008\<rparr> \<lparr>rdx = 100, rax = 60, rbp = 9\<rparr>"

definition acts3 :: "bpf_act list" where
  "acts3 = [fire udp_out_start, fire tcp_in_start, fire udp_out_end, fire udp_in_start, Poll 3 False]"

definition fired :: "hrp_prog \<Rightarrow> u64 \<Rightarrow> hrp_bpf_event" where
  "fired p sz = \<lparr>ts_ns = 5, pid = 7, tid = 8, event_type = event_code p, ev_padding = 0, size_or_ret = sz, rbp_or_req_addr = 9\<rparr>"

definition events3 :: "hrp_bpf_event list" where
  "events3 = [fired udp_out_start 100, fired udp_out_end 60, fired udp_in_start 100]"

lemma start2: obtains st where "hrp_bpf_start bcfg2 venv (bpf_boot (Some [1, 2, 3])) = (0, st)"
  by (simp add: hrp_bpf_start_def hrp_bpf_init_log_and_programs_def hrp_bpf_log_init_def venv_def Let_def)

lemma submitted2:
  assumes "hrp_bpf_start bcfg2 venv (bpf_boot f) = (0, st)"
  shows "link (hrp_bpf_attach venv st) = enabled bcfg2" "submitted (enabled bcfg2) acts3 = events3"
proof -
  show "link (hrp_bpf_attach venv st) = enabled bcfg2"
    by (rule ext) (simp add: attached_iff [OF assms] venv_simps)
  show "submitted (enabled bcfg2) acts3 = events3"
    by (simp add: acts3_def fire_def enabled_def tcp_progs_def bcfg2_def bpf_config_h_def probe_defs RB_SUBMIT_def SET_EVENT_FIELDS_def
        events3_def fired_def drop_bit_eq_div)
qed

theorem bpf_run_records_witness:
  "\<exists>st st' consumed. hrp_bpf_start bcfg2 venv (bpf_boot (Some [1, 2, 3])) = (0, st) \<and>
     foldF (bpf_do bcfg2) acts3 (hrp_bpf_attach venv st) = Inr st' \<and> consumed @ ringbuf st' = events3"
proof -
  obtain st where st: "hrp_bpf_start bcfg2 venv (bpf_boot (Some [1, 2, 3])) = (0, st)" by (rule start2)
  show ?thesis
    using bpf_run_records [OF st, of acts3] submitted2 [OF st] st by (auto simp: events3_def sizeof_hrp_bpf_event_def)
qed

theorem bpf_log_left_witness:
  "\<exists>st st' n bs. hrp_bpf_start bcfg2 venv (bpf_boot (Some [1, 2, 3])) = (0, st) \<and>
     foldF (bpf_do bcfg2) acts3 (hrp_bpf_attach venv st) = Inr st' \<and> hrp_bpf_stop venv st' = Inl NullDeref \<and>
     ringbuf st' = drop n events3 \<and> file_bytes st' = Some bs \<and> length bs = 80 \<and>
     decode_events (min n 2) bs = take (min n 2) events3"
proof -
  obtain st where st: "hrp_bpf_start bcfg2 venv (bpf_boot (Some [1, 2, 3])) = (0, st)" by (rule start2)
  have sub: "events3 = submitted (link (hrp_bpf_attach venv st)) acts3" using submitted2 [OF st] by simp
  have size: "unat (HRP_BPF_LOG_FILE_SIZE bcfg2) = 80" by (simp add: bcfg2_def bpf_config_h_def)
  have len: "length events3 = 3" by (simp add: events3_def)
  show ?thesis using bpf_log_left [OF st sub] st unfolding size len by (auto simp: sizeof_hrp_bpf_event_def Let_def)
qed

theorem bpf_records_only_enabled_witness:
  "\<exists>st. hrp_bpf_start bcfg2 venv (bpf_boot (Some [1, 2, 3])) = (0, st) \<and>
     link (hrp_bpf_attach venv st) udp_in_end \<and> \<not> link (hrp_bpf_attach venv st) tcp_in_end"
proof -
  obtain st where st: "hrp_bpf_start bcfg2 venv (bpf_boot (Some [1, 2, 3])) = (0, st)" by (rule start2)
  show ?thesis
    using bpf_records_only_enabled [OF st, of udp_in_end] bpf_records_only_enabled [OF st, of tcp_in_end] st
    by (simp add: enabled_def tcp_progs_def bcfg2_def bpf_config_h_def venv_simps)
qed

end
