(* ===== verification/Concurrent.thy ===== *)
theory Concurrent
  imports System
begin

text \<open>
  All CPUs at once, at the granularity of memory accesses: on every selected CPU the poll function
  may be in the middle of \<open>enqueue\<close> while the logger is in the middle of \<open>log_and_clear\<close> on the buffer of
  one of them (\<open>hrperf_poller_func\<close> and \<open>log_for_all_cpus\<close> of \<open>src/src/hrperf.c\<close>). This is the situation
  outside the instructed mode, where nothing keeps polling and logging apart. The theory shows that this
  system refines one atomic queue per CPU in front of the file, that every entry is handed to
  \<open>kernel_write\<close> once and in order, and that a log pass comes to its end whatever the CPUs enqueue
  meanwhile. \<open>kernel_write\<close> is a parameter of which nothing is assumed.
\<close>

section \<open>The concurrent system\<close>

text \<open>
  A lane per CPU; the CPUs that the logger still has to visit in this pass, the current one first;
  the log file; the entries that each \<open>kernel_write\<close> so far was given.
\<close>

record 'f conc =
  lanes :: "nat \<Rightarrow> spsc"
  todo :: "nat list"
  cfile :: 'f
  calls :: "HrperfLogEntry list list"

text \<open>One access of the logger; when it is done with a CPU it goes on to the next.\<close>

inductive log_step :: "hrp_config \<Rightarrow> 'f kernel_write \<Rightarrow> 'f conc \<Rightarrow> 'f conc \<Rightarrow> bool" for cfg kw where
  log: "todo s = c # cs \<Longrightarrow> consumer_step cfg kw (lanes s c, cfile s) (l, f) \<Longrightarrow>
    log_step cfg kw s (s\<lparr>lanes := (lanes s)(c := l), todo := (if c_pc l = CIdle then cs else c # cs),
      cfile := f, calls := calls s @ drop (length (handed (lanes s c))) (handed l)\<rparr>)"

text \<open>One access of the poll function of a CPU. An entry that CPU \<open>c\<close> enqueues carries the number of the CPU.\<close>

inductive enq_step :: "hrp_config \<Rightarrow> nat list \<Rightarrow> 'f conc \<Rightarrow> 'f conc \<Rightarrow> bool" for cfg cpus where
  enq: "c \<in> set cpus \<Longrightarrow> producer_step cfg (lanes s c) l \<Longrightarrow>
    (\<forall>e nt. p_pc l = PChecked e nt \<longrightarrow> cpu_id e = word_of_nat c) \<Longrightarrow>
    enq_step cfg cpus s (s\<lparr>lanes := (lanes s)(c := l)\<rparr>)"

inductive conc_step :: "hrp_config \<Rightarrow> 'f kernel_write \<Rightarrow> nat list \<Rightarrow> 'f conc \<Rightarrow> 'f conc \<Rightarrow> bool" for cfg kw cpus where
  poll: "enq_step cfg cpus s t \<Longrightarrow> conc_step cfg kw cpus s t"
| start_pass: "todo s = [] \<Longrightarrow> conc_step cfg kw cpus s (s\<lparr>todo := cpus\<rparr>)"
| logger: "log_step cfg kw s t \<Longrightarrow> conc_step cfg kw cpus s t"

definition conc_init :: "hrp_config \<Rightarrow> nat list \<Rightarrow> 'f conc \<Rightarrow> bool" where
  "conc_init cfg cpus s \<longleftrightarrow> set cpus \<subseteq> {..<256} \<and> todo s = [] \<and> calls s = [] \<and>
     (\<forall>c \<in> set cpus. spsc_init cfg (sh_rb (lanes s c)) (lanes s c))"

section \<open>The abstract queues\<close>

text \<open>
  A queue of bounded length per CPU. An entry is appended to the queue of its CPU, or the oldest
  entries of a queue are taken out and given to one \<open>kernel_write\<close>. What a concrete buffer holds beyond
  its queue has been given to \<open>kernel_write\<close> already and waits for the store of \<open>head\<close>.
\<close>

type_synonym 'f queues = "(nat \<Rightarrow> HrperfLogEntry list) \<times> 'f"

inductive queue_step :: "hrp_config \<Rightarrow> 'f kernel_write \<Rightarrow> nat \<Rightarrow> nat list \<Rightarrow> 'f queues \<Rightarrow> 'f queues \<Rightarrow> bool" for cfg kw cap cpus where
  push: "c \<in> set cpus \<Longrightarrow> length (q c) < cap \<Longrightarrow> cpu_id e = word_of_nat c \<Longrightarrow>
    queue_step cfg kw cap cpus (q, f) (q(c := q c @ [e]), f)"
| drain: "c \<in> set cpus \<Longrightarrow> q c = out @ rest \<Longrightarrow> queue_step cfg kw cap cpus (q, f) (q(c := rest), put_entries cfg kw out f)"

definition queue_of :: "hrp_config \<Rightarrow> spsc \<Rightarrow> HrperfLogEntry list" where
  "queue_of cfg l = drop (in_flight cfg l) (rb_list (sh_rb l))"

definition queues_of :: "hrp_config \<Rightarrow> 'f conc \<Rightarrow> 'f queues" where
  "queues_of cfg s = (\<lambda>c. queue_of cfg (lanes s c), cfile s)"

section \<open>The invariant\<close>

definition pending :: "spsc \<Rightarrow> HrperfLogEntry list" where
  "pending l = (case p_pc l of PIdle \<Rightarrow> [] | PChecked e nt \<Rightarrow> [e] | PStored e nt \<Rightarrow> [e])"

definition lane_ok :: "hrp_config \<Rightarrow> nat \<Rightarrow> spsc \<Rightarrow> bool" where
  "lane_ok cfg c l \<longleftrightarrow> spsc_inv cfg l \<and> (\<forall>e \<in> set (published l @ pending l). cpu_id e = word_of_nat c)"

definition conc_inv :: "hrp_config \<Rightarrow> 'f kernel_write \<Rightarrow> 'f \<Rightarrow> nat list \<Rightarrow> 'f conc \<Rightarrow> bool" where
  "conc_inv cfg kw f\<^sub>0 cpus s \<longleftrightarrow> set cpus \<subseteq> {..<256} \<and> set (todo s) \<subseteq> set cpus \<and> cfile s = writes cfg kw (calls s) f\<^sub>0 \<and>
     (\<forall>c \<in> set cpus. lane_ok cfg c (lanes s c) \<and> mine c (concat (calls s)) = concat (handed (lanes s c)))"

lemma lane_fifo: "lane_ok cfg c l \<Longrightarrow> published l = concat (handed l) @ queue_of cfg l"
  by (simp add: lane_ok_def spsc_inv_def queue_of_def)

lemma queue_bound:
  assumes "spsc_inv cfg l"
  shows "length (queue_of cfg l) \<le> rb_cap cfg"
  using assms rb_list_bound [of cfg "sh_rb l"] by (simp add: queue_of_def spsc_inv_def)

text \<open>What a step of one side does, seen through the queue.\<close>

lemma producer_effect:
  assumes "producer_step cfg l l'" and "lane_ok cfg c l" and "\<forall>e nt. p_pc l' = PChecked e nt \<longrightarrow> cpu_id e = word_of_nat c"
  shows "lane_ok cfg c l'" and "handed l' = handed l" and "c_pc l' = c_pc l" and "prefix (published l) (published l')"
    and "queue_of cfg l' = queue_of cfg l \<or>
      (\<exists>e. queue_of cfg l' = queue_of cfg l @ [e] \<and> cpu_id e = word_of_nat c \<and> length (queue_of cfg l) < rb_cap cfg)"
proof -
  have inv: "spsc_inv cfg l'" using producer_keeps_inv [OF assms(1)] assms(2) by (simp add: lane_ok_def)
  show l: "handed l' = handed l" and "c_pc l' = c_pc l" and "prefix (published l) (published l')"
    using assms(1) by (cases rule: producer_step.cases; simp)+
  show ok: "lane_ok cfg c l'"
    using assms(1) by (cases rule: producer_step.cases) (use assms inv in \<open>auto simp: lane_ok_def pending_def\<close>)
  note fifo = lane_fifo [OF assms(2)] lane_fifo [OF ok]
  from assms(1) show "queue_of cfg l' = queue_of cfg l \<or>
      (\<exists>e. queue_of cfg l' = queue_of cfg l @ [e] \<and> cpu_id e = word_of_nat c \<and> length (queue_of cfg l) < rb_cap cfg)"
  proof cases
    case (p_publish e nt)
    then have "queue_of cfg l' = queue_of cfg l @ [e]" using fifo l by simp
    moreover have "cpu_id e = word_of_nat c" using assms(2) p_publish(2) by (simp add: lane_ok_def pending_def)
    ultimately show ?thesis using queue_bound [OF inv] by (intro disjI2 exI [of _ e]) simp
  qed (use fifo in simp_all)
qed

lemma consumer_effect:
  assumes "consumer_step cfg kw (l, f) (l', f')" and "lane_ok cfg c l"
  shows "lane_ok cfg c l'" and "published l' = published l" and "p_pc l' = p_pc l"
    and "\<exists>cs. handed l' = handed l @ cs \<and> f' = writes cfg kw cs f \<and> length cs \<le> 1 \<and> queue_of cfg l = concat cs @ queue_of cfg l'"
proof -
  have inv: "spsc_inv cfg l'" using consumer_keeps_inv [OF assms(1)] assms(2) by (simp add: lane_ok_def)
  show p: "published l' = published l" "p_pc l' = p_pc l" using assms(1) by (cases rule: consumer_step.cases; simp)+
  show ok: "lane_ok cfg c l'" using assms(2) inv p by (simp add: lane_ok_def pending_def)
  have "\<exists>cs. handed l' = handed l @ cs \<and> f' = writes cfg kw cs f \<and> length cs \<le> 1"
    using assms(1) by (cases rule: consumer_step.cases) (simp_all add: writes_fold)
  then show "\<exists>cs. handed l' = handed l @ cs \<and> f' = writes cfg kw cs f \<and> length cs \<le> 1 \<and> queue_of cfg l = concat cs @ queue_of cfg l'"
    using lane_fifo [OF assms(2)] lane_fifo [OF ok] p(1) by auto
qed

lemma mine_same: "(\<And>e. e \<in> set es \<Longrightarrow> cpu_id e = word_of_nat c) \<Longrightarrow> mine c es = es"
  by (simp add: mine_def)

lemma mine_other:
  assumes "c < 256" and "d < 256" and "c \<noteq> d" and "\<And>e. e \<in> set es \<Longrightarrow> cpu_id e = word_of_nat d"
  shows "mine c es = []"
  using assms word_of_nat_small [of d c] by (auto simp: mine_def filter_empty_conv)

lemma log_step_effect:
  assumes "log_step cfg kw s t" and "conc_inv cfg kw f\<^sub>0 cpus s"
  obtains c cs where "c \<in> set cpus" "c \<in> set (todo s)" "lanes t = (lanes s)(c := lanes t c)" "lane_ok cfg c (lanes t c)"
    "cfile t = writes cfg kw cs (cfile s)" "calls t = calls s @ cs" "length cs \<le> 1"
    "queue_of cfg (lanes s c) = concat cs @ queue_of cfg (lanes t c)" "set (todo t) \<subseteq> set (todo s)"
    "handed (lanes t c) = handed (lanes s c) @ cs"
  using assms(1)
proof cases
  case (log c rest l f)
  then have c: "c \<in> set cpus" "lane_ok cfg c (lanes s c)" using assms(2) by (auto simp: conc_inv_def)
  obtain cs where "handed l = handed (lanes s c) @ cs" "f = writes cfg kw cs (cfile s)" "length cs \<le> 1"
    "queue_of cfg (lanes s c) = concat cs @ queue_of cfg l"
    using consumer_effect(4) [OF log(3) c(2)] by blast
  then show thesis using that [of c cs] log c consumer_effect(1) [OF log(3) c(2)] by (auto split: if_splits)
qed

lemma log_keeps_inv:
  assumes "log_step cfg kw s t" and "conc_inv cfg kw f\<^sub>0 cpus s"
  shows "conc_inv cfg kw f\<^sub>0 cpus t"
proof -
  obtain c cs where o: "c \<in> set cpus" "lanes t = (lanes s)(c := lanes t c)" "lane_ok cfg c (lanes t c)"
    "cfile t = writes cfg kw cs (cfile s)" "calls t = calls s @ cs" "queue_of cfg (lanes s c) = concat cs @ queue_of cfg (lanes t c)"
    "set (todo t) \<subseteq> set (todo s)" "handed (lanes t c) = handed (lanes s c) @ cs"
    using log_step_effect [OF assms] by metis
  have ids: "cpu_id e = word_of_nat c" if "e \<in> set (concat cs)" for e
    using assms(2) o(1,6) that lane_fifo [of cfg c "lanes s c"] by (auto simp: conc_inv_def lane_ok_def)
  have "lane_ok cfg d (lanes t d) \<and> mine d (concat (calls t)) = concat (handed (lanes t d))" if d: "d \<in> set cpus" for d
  proof (cases "d = c")
    case True
    then show ?thesis using assms(2) o mine_same [of "concat cs" c, OF ids] by (simp add: conc_inv_def)
  next
    case False
    then have "lanes t d = lanes s d" using o(2) by (metis fun_upd_apply)
    moreover have "mine d (concat cs) = []" using assms(2) d o(1) False ids by (intro mine_other [of d c]) (auto simp: conc_inv_def)
    ultimately show ?thesis using assms(2) d o(5) by (simp add: conc_inv_def)
  qed
  then show ?thesis using assms(2) o(4,5,7) by (auto simp: conc_inv_def writes_append)
qed

lemma enq_keeps_inv:
  assumes "enq_step cfg cpus s t" and "conc_inv cfg kw f\<^sub>0 cpus s"
  shows "conc_inv cfg kw f\<^sub>0 cpus t"
  using assms(1)
proof cases
  case (enq c l)
  then show ?thesis using assms(2) producer_effect(1,2) [OF enq(3) _ enq(4)] by (auto simp: conc_inv_def)
qed

lemma conc_keeps_inv: "conc_step cfg kw cpus s t \<Longrightarrow> conc_inv cfg kw f\<^sub>0 cpus s \<Longrightarrow> conc_inv cfg kw f\<^sub>0 cpus t"
proof (induction rule: conc_step.induct)
  case (start_pass s)
  then show ?case by (simp add: conc_inv_def)
qed (auto intro: enq_keeps_inv log_keeps_inv)

lemma enq_simulates:
  assumes "enq_step cfg cpus s t" and "conc_inv cfg kw f\<^sub>0 cpus s"
  shows "queues_of cfg t = queues_of cfg s \<or> queue_step cfg kw (rb_cap cfg) cpus (queues_of cfg s) (queues_of cfg t)"
  using assms(1)
proof cases
  case (enq c l)
  let ?q = "\<lambda>c. queue_of cfg (lanes s c)"
  have q: "queues_of cfg t = (?q(c := queue_of cfg l), cfile s)" "queues_of cfg s = (?q, cfile s)"
    by (auto simp: queues_of_def enq(1))
  have "lane_ok cfg c (lanes s c)" using assms(2) enq(2) by (simp add: conc_inv_def)
  from producer_effect(5) [OF enq(3) this enq(4)] show ?thesis
  proof
    assume "queue_of cfg l = ?q c"
    then show ?thesis unfolding q by (metis fun_upd_triv)
  next
    assume "\<exists>e. queue_of cfg l = ?q c @ [e] \<and> cpu_id e = word_of_nat c \<and> length (?q c) < rb_cap cfg"
    then show ?thesis unfolding q using push [of c cpus ?q "rb_cap cfg"] enq(2) by metis
  qed
qed

lemma log_simulates:
  assumes "log_step cfg kw s t" and "conc_inv cfg kw f\<^sub>0 cpus s"
  shows "queues_of cfg t = queues_of cfg s \<or> queue_step cfg kw (rb_cap cfg) cpus (queues_of cfg s) (queues_of cfg t)"
proof -
  obtain c cs where o: "c \<in> set cpus" "lanes t = (lanes s)(c := lanes t c)" "cfile t = writes cfg kw cs (cfile s)" "length cs \<le> 1"
    "queue_of cfg (lanes s c) = concat cs @ queue_of cfg (lanes t c)"
    using log_step_effect [OF assms] by metis
  let ?q = "\<lambda>c. queue_of cfg (lanes s c)"
  have q: "queues_of cfg t = (?q(c := queue_of cfg (lanes t c)), writes cfg kw cs (cfile s))" "queues_of cfg s = (?q, cfile s)"
    unfolding queues_of_def o(3) by (auto simp: fun_eq_iff) (metis o(2) fun_upd_apply)
  show ?thesis
  proof (cases cs)
    case Nil
    then show ?thesis using o(5) unfolding q by (simp add: writes_def fun_upd_idem)
  next
    case (Cons out rest)
    then have "cs = [out]" using o(4) by simp
    then show ?thesis unfolding q using drain [of c cpus ?q out "queue_of cfg (lanes t c)" cfg kw "rb_cap cfg" "cfile s", OF o(1)] o(5) by (simp add: writes_fold)
  qed
qed

interpretation conc: simulation "conc_step cfg kw cpus" "queue_step cfg kw (rb_cap cfg) cpus" "queues_of cfg" "conc_inv cfg kw f\<^sub>0 cpus"
  for cfg cpus and kw :: "'f kernel_write" and f\<^sub>0
proof
  fix s t
  assume inv: "conc_inv cfg kw f\<^sub>0 cpus s" and step: "conc_step cfg kw cpus s t"
  show "conc_inv cfg kw f\<^sub>0 cpus t" using conc_keeps_inv [OF step inv] .
  from step show "queues_of cfg t = queues_of cfg s \<or> queue_step cfg kw (rb_cap cfg) cpus (queues_of cfg s) (queues_of cfg t)"
  proof cases
    case start_pass
    then show ?thesis by (simp add: queues_of_def)
  next
    case poll
    then show ?thesis using enq_simulates inv by metis
  next
    case logger
    then show ?thesis using log_simulates inv by metis
  qed
qed

lemma init_lane: "spsc_init cfg rb l \<Longrightarrow> lane_ok cfg c l \<and> handed l = []"
  by (auto simp: lane_ok_def spsc_init_def spsc_inv_def p_inv_def c_inv_def pending_def in_flight_def)

lemma init_inv: "conc_init cfg cpus s \<Longrightarrow> conc_inv cfg kw (cfile s) cpus s"
  using init_lane by (fastforce simp: conc_init_def conc_inv_def writes_def)

section \<open>Properties\<close>

text \<open>
  C6. The concurrent system refines atomic queues: seen through the entries of each buffer that were not
  yet given to \<open>kernel_write\<close> and through the file, every run of interleaved memory accesses of all CPUs
  and of the logger is a run that appends whole entries to bounded queues and takes the oldest entries of
  one queue out to give them to one \<open>kernel_write\<close>. It holds for every \<open>kernel_write\<close>, also for one that
  fails; then the entries are out of the queue and not in the file.
\<close>

theorem concurrent_refines_queues:
  assumes "conc_init cfg cpus s" and "(conc_step cfg kw cpus)\<^sup>*\<^sup>* s t"
  shows "(queue_step cfg kw (rb_cap cfg) cpus)\<^sup>*\<^sup>* (queues_of cfg s) (queues_of cfg t)"
  using conc.run_simulates [OF assms(2) init_inv [OF assms(1)]] .

text \<open>
  C7. Under full concurrency every entry is handed over once and in order: for some sequence of
  \<open>kernel_write\<close> calls, which make the file what it is, the entries of every CPU in these calls, followed
  by those of its buffer that were not yet handed over, are exactly what it has published. When
  \<open>kernel_write\<close> appends what it is given, what the file has grown by decodes to the entries of these
  calls.
\<close>

theorem concurrent_conserves:
  assumes "conc_init cfg cpus s" and "(conc_step cfg kw cpus)\<^sup>*\<^sup>* s t"
  shows "\<exists>cs. cfile t = writes cfg kw cs (cfile s) \<and>
    (\<forall>c \<in> set cpus. mine c (concat cs) @ drop (in_flight cfg (lanes t c)) (rb_list (sh_rb (lanes t c))) = published (lanes t c)) \<and>
    (\<forall>contents. appends kw contents \<longrightarrow> (\<exists>added. contents (cfile t) = contents (cfile s) @ added \<and>
       decode_log cfg added = map (logged_fields cfg) (concat cs)))"
proof -
  have inv: "conc_inv cfg kw (cfile s) cpus t" using conc.invar_run [OF assms(2) init_inv [OF assms(1)]] .
  then have "cfile t = writes cfg kw (calls t) (cfile s)" by (simp add: conc_inv_def)
  moreover have "mine c (concat (calls t)) @ drop (in_flight cfg (lanes t c)) (rb_list (sh_rb (lanes t c))) = published (lanes t c)"
    if "c \<in> set cpus" for c
    using inv that lane_fifo [of cfg c "lanes t c"] by (simp add: conc_inv_def queue_of_def)
  moreover have "\<exists>added. contents (writes cfg kw (calls t) (cfile s)) = contents (cfile s) @ added \<and>
      decode_log cfg added = map (logged_fields cfg) (concat (calls t))" if "appends kw contents" for contents
    unfolding writes_appends [OF that] using decode_log_bytes by blast
  ultimately show ?thesis by (intro exI [of _ "calls t"]) auto
qed

section \<open>A log pass ends\<close>

text \<open>How many accesses the logger has left on a buffer, at most.\<close>

definition lane_left :: "hrp_config \<Rightarrow> spsc \<Rightarrow> nat" where
  "lane_left cfg l =
     (let n = unat (HRP_PMC_BUFFER_SIZE cfg) in
      case c_pc l of
        CIdle \<Rightarrow> n + 4
      | CHead h \<Rightarrow> n + 3
      | CWrite h t k acc \<Rightarrow> (cyc n (unat h) (unat t) - (k + length acc)) + (if k = 0 then 3 else 2)
      | CStore h t \<Rightarrow> 1)"

definition pass_left :: "hrp_config \<Rightarrow> 'f conc \<Rightarrow> nat" where
  "pass_left cfg s =
     (case todo s of [] \<Rightarrow> 0 | c # cs \<Rightarrow> lane_left cfg (lanes s c) + length cs * (unat (HRP_PMC_BUFFER_SIZE cfg) + 4))"

text \<open>
  The accesses within one pass, those of the logger counted: the CPUs go on polling, but no new pass
  starts.
\<close>

inductive pass_run :: "hrp_config \<Rightarrow> 'f kernel_write \<Rightarrow> nat list \<Rightarrow> 'f conc \<Rightarrow> nat \<Rightarrow> 'f conc \<Rightarrow> bool" for cfg kw cpus s where
  started: "pass_run cfg kw cpus s 0 s"
| polled: "pass_run cfg kw cpus s m t \<Longrightarrow> enq_step cfg cpus t u \<Longrightarrow> pass_run cfg kw cpus s m u"
| logged: "pass_run cfg kw cpus s m t \<Longrightarrow> log_step cfg kw t u \<Longrightarrow> pass_run cfg kw cpus s (Suc m) u"

lemma consumer_can_step:
  assumes "spsc_inv cfg l"
  shows "\<exists>l' f'. consumer_step cfg kw (l, f) (l', f')"
proof (cases "c_pc l")
  case CIdle
  then show ?thesis using c_head [OF CIdle, of cfg kw f] by (intro exI)
next
  case (CHead h)
  then show ?thesis using c_empty [OF CHead, of cfg kw f] c_tail [OF CHead, of cfg kw f] by (cases "h = tail (sh_rb l)") auto
next
  case (CWrite h t k acc)
  then have "k + length acc \<le> write_end (unat (HRP_PMC_BUFFER_SIZE cfg)) (unat h) (unat t) k"
    using assms by (simp add: spsc_inv_def c_inv_def writing_ok_def Let_def)
  then show ?thesis using c_copy [OF CWrite, of cfg kw f] c_write [OF CWrite, of cfg kw f] by (auto simp: le_less)
next
  case (CStore h t)
  then show ?thesis using c_publish [OF CStore, of cfg kw f] by (intro exI)
qed

lemma log_can_step:
  assumes "conc_inv cfg kw f\<^sub>0 cpus s" and "todo s \<noteq> []"
  shows "\<exists>t. log_step cfg kw s t"
proof -
  obtain c cs where c: "todo s = c # cs" using assms(2) by (cases "todo s") auto
  then have "spsc_inv cfg (lanes s c)" using assms(1) by (auto simp: conc_inv_def lane_ok_def)
  then obtain l f where "consumer_step cfg kw (lanes s c, cfile s) (l, f)" using consumer_can_step [of cfg "lanes s c" kw "cfile s"] by auto
  from log [OF c this] show ?thesis by (intro exI)
qed

lemma write_part:
  assumes "spsc_inv cfg l" and "c_pc l = CWrite h t k acc"
  shows "write_end (unat (HRP_PMC_BUFFER_SIZE cfg)) (unat h) (unat t) k \<le> cyc (unat (HRP_PMC_BUFFER_SIZE cfg)) (unat h) (unat t)"
    and "cyc (unat (HRP_PMC_BUFFER_SIZE cfg)) (unat h) (unat t) < unat (HRP_PMC_BUFFER_SIZE cfg)"
    and "k < write_end (unat (HRP_PMC_BUFFER_SIZE cfg)) (unat h) (unat t) k"
proof -
  have c: "rb_wf cfg (sh_rb l)" "range_ok cfg (sh_rb l) h t" "writing_ok cfg (sh_rb l) h t k acc"
    using assms by (simp_all add: spsc_inv_def c_inv_def Let_def)
  let ?n = "unat (HRP_PMC_BUFFER_SIZE cfg)"
  have h: "unat h < ?n" "unat t < ?n" "unat h \<noteq> unat t"
    using c(2) rb_wf_nat [OF c(1)] by (simp_all add: range_ok_def word_less_nat_alt word_unat_eq_iff)
  show "write_end ?n (unat h) (unat t) k \<le> cyc ?n (unat h) (unat t)" by (rule write_end_le [OF h(1,3)])
  show "cyc ?n (unat h) (unat t) < ?n" by (rule cyc_lt [OF h(1,2)])
  show "k < write_end ?n (unat h) (unat t) k"
    using c(3) h by (auto simp: writing_ok_def write_end_def Let_def word_less_nat_alt)
qed

lemma consumer_step_left:
  assumes "consumer_step cfg kw (l, f) (l', f')" and "spsc_inv cfg l" and "c_pc l' \<noteq> CIdle"
  shows "lane_left cfg l' < lane_left cfg l"
  using assms(1)
proof cases
  case (c_tail h)
  then have "c_pc l' = CWrite h (tail (sh_rb l)) 0 []" by simp
  from write_part(2) [OF consumer_keeps_inv [OF assms(1,2)] this] show ?thesis
    using c_tail by (simp add: lane_left_def Let_def)
next
  case (c_copy h t k acc)
  then show ?thesis using write_part(1) [OF assms(2) c_copy(3)] by (simp add: lane_left_def Let_def)
next
  case (c_write h t k acc)
  then show ?thesis using write_part(3) [OF assms(2) c_write(3)] by (auto simp: lane_left_def Let_def)
qed (use assms(3) in \<open>simp_all add: lane_left_def\<close>)

lemma lane_left_bound:
  assumes "spsc_inv cfg l"
  shows "0 < lane_left cfg l" "lane_left cfg l \<le> unat (HRP_PMC_BUFFER_SIZE cfg) + 4"
  using write_part [OF assms] by (fastforce simp: lane_left_def Let_def split: consumer_pc.splits)+

lemma log_decreases:
  assumes "log_step cfg kw s t" and "conc_inv cfg kw f\<^sub>0 cpus s"
  shows "pass_left cfg t < pass_left cfg s"
  using assms(1)
proof cases
  case (log c cs l f)
  let ?b = "unat (HRP_PMC_BUFFER_SIZE cfg) + 4"
  have ok: "\<forall>d \<in> set (c # cs). spsc_inv cfg (lanes s d)" using assms(2) log(2) by (auto simp: conc_inv_def lane_ok_def)
  have ok': "spsc_inv cfg l" using consumer_keeps_inv [OF log(3)] ok by simp
  show ?thesis
  proof (cases "c_pc l = CIdle")
    case False
    then show ?thesis using consumer_step_left [OF log(3)] ok by (simp add: pass_left_def log(1,2))
  next
    case True
    have "pass_left cfg t \<le> length cs * ?b"
    proof (cases cs)
      case (Cons d ds)
      then have "lane_left cfg (lanes t d) \<le> ?b" using lane_left_bound(2) ok ok' by (auto simp: log(1))
      then show ?thesis using Cons True by (simp add: pass_left_def log(1))
    qed (use True in \<open>simp add: pass_left_def log(1)\<close>)
    moreover have "0 < lane_left cfg (lanes s c)" using lane_left_bound(1) ok by simp
    ultimately show ?thesis by (simp add: pass_left_def log(2))
  qed
qed

lemma enq_left:
  assumes "enq_step cfg cpus s t"
  shows "pass_left cfg t = pass_left cfg s"
  using assms
proof cases
  case (enq c l)
  from enq(3) have "c_pc l = c_pc (lanes s c)" by (cases rule: producer_step.cases) simp_all
  then show ?thesis by (cases "todo s") (simp_all add: enq(1) pass_left_def lane_left_def)
qed

lemma pass_run_bound:
  "pass_run cfg kw cpus s m t \<Longrightarrow> conc_inv cfg kw f\<^sub>0 cpus s \<Longrightarrow> conc_inv cfg kw f\<^sub>0 cpus t \<and> m + pass_left cfg t \<le> pass_left cfg s"
proof (induction rule: pass_run.induct)
  case (polled m t u)
  then show ?case using enq_keeps_inv enq_left by metis
next
  case (logged m t u)
  then have "conc_inv cfg kw f\<^sub>0 cpus u" "pass_left cfg u < pass_left cfg t" using log_keeps_inv log_decreases by metis+
  then show ?case using logged by simp
qed simp

lemma pass_can_end:
  assumes "conc_inv cfg kw f\<^sub>0 cpus s"
  shows "\<exists>m t. pass_run cfg kw cpus s m t \<and> todo t = []"
proof -
  have "\<exists>m u. pass_run cfg kw cpus s m u \<and> todo u = []" if "pass_run cfg kw cpus s m t" for m t
    using that
  proof (induction "pass_left cfg t" arbitrary: m t rule: less_induct)
    case less
    then have inv: "conc_inv cfg kw f\<^sub>0 cpus t" using pass_run_bound assms by metis
    show ?case
    proof (cases "todo t = []")
      case False
      then obtain u where u: "log_step cfg kw t u" using log_can_step inv by metis
      from less.hyps [OF log_decreases [OF u inv] logged [OF less.prems u]] show ?thesis .
    qed (use less.prems in auto)
  qed
  then show ?thesis using pass_run.started by metis
qed

text \<open>
  What the logger will have handed over of a CPU at the end of the call it is in: it covers what was
  published before the pass, \<open>P c\<close>, once the tail was read, and in particular when the pass has left the
  CPU behind.
\<close>

definition will_hand :: "hrp_config \<Rightarrow> spsc \<Rightarrow> nat" where
  "will_hand cfg l = length (concat (handed l)) +
     (case c_pc l of CWrite h t k acc \<Rightarrow> cyc (unat (HRP_PMC_BUFFER_SIZE cfg)) (unat h) (unat t) - k | _ \<Rightarrow> 0)"

definition past_tail :: "spsc \<Rightarrow> bool" where
  "past_tail l \<longleftrightarrow> (case c_pc l of CWrite h t k acc \<Rightarrow> True | CStore h t \<Rightarrow> True | _ \<Rightarrow> False)"

definition covers :: "hrp_config \<Rightarrow> HrperfLogEntry list \<Rightarrow> bool \<Rightarrow> spsc \<Rightarrow> bool" where
  "covers cfg es visited l \<longleftrightarrow> prefix es (published l) \<and>
     (visited \<longrightarrow> length es \<le> length (concat (handed l))) \<and> (past_tail l \<longrightarrow> length es \<le> will_hand cfg l)"

lemma covers_step:
  assumes "consumer_step cfg kw (l, f) (l', f')" and "lane_ok cfg c l" and "covers cfg es False l"
  shows "covers cfg es (c_pc l' = CIdle) l'"
proof -
  have pub: "published l' = published l" using consumer_effect(2) [OF assms(1,2)] .
  have le: "length es \<le> length (published l)" using assms(3) by (simp add: covers_def prefix_length_le)
  have inv: "spsc_inv cfg l" "rb_wf cfg (sh_rb l)" using assms(2) by (simp_all add: lane_ok_def spsc_inv_def)
  have len: "length (published l) = length (concat (handed l)) + (length (rb_list (sh_rb l)) - in_flight cfg l)"
    using inv by (simp add: spsc_inv_def)
  note rb = length_rb_list [OF inv(2)]
  from assms(1) have "c_pc l' = CIdle \<or> past_tail l' \<Longrightarrow> length es \<le> will_hand cfg l'"
  proof cases
    case (c_empty h)
    then have "length (rb_list (sh_rb l)) = 0" using inv by (simp add: rb spsc_inv_def c_inv_def Let_def)
    then show ?thesis using c_empty le len by (simp add: will_hand_def)
  next
    case (c_tail h)
    then have "h = head (sh_rb l)" using inv by (simp add: spsc_inv_def c_inv_def)
    then show ?thesis using c_tail le len rb by (simp add: will_hand_def in_flight_def)
  next
    case (c_copy h t k acc)
    then show ?thesis using assms(3) by (simp add: covers_def past_tail_def will_hand_def)
  next
    case (c_write h t k acc)
    have "cyc (unat (HRP_PMC_BUFFER_SIZE cfg)) (unat h) (unat t) \<le> k + length acc" if "\<not> (t < h \<and> k = 0 \<and> 0 < t)"
      using that c_write(3,4) inv(1) rb_wf_nat [OF inv(2)]
        write_end_last [of "unat t" "unat h" k "unat (HRP_PMC_BUFFER_SIZE cfg)"]
      by (auto simp: spsc_inv_def c_inv_def range_ok_def writing_ok_def Let_def word_less_nat_alt word_unat_eq_iff)
    then show ?thesis using c_write assms(3) by (auto simp: covers_def past_tail_def will_hand_def)
  next
    case (c_publish h t)
    then show ?thesis using assms(3) by (simp add: covers_def past_tail_def will_hand_def)
  qed (simp add: past_tail_def)
  moreover have "will_hand cfg l' = length (concat (handed l'))" if "c_pc l' = CIdle" using that by (simp add: will_hand_def)
  ultimately show ?thesis using assms(3) pub by (auto simp: covers_def)
qed

definition pass_inv :: "hrp_config \<Rightarrow> (nat \<Rightarrow> HrperfLogEntry list) \<Rightarrow> nat list \<Rightarrow> 'f conc \<Rightarrow> bool" where
  "pass_inv cfg P cpus s \<longleftrightarrow> (\<forall>c \<in> set cpus. covers cfg (P c) (c \<notin> set (todo s)) (lanes s c))"

lemma log_step_pass:
  assumes "log_step cfg kw s t" and "conc_inv cfg kw f\<^sub>0 cpus s" and "pass_inv cfg P cpus s"
  shows "pass_inv cfg P cpus t"
  using assms(1)
proof cases
  case (log c cs l f)
  have c: "lane_ok cfg c (lanes s c)" "covers cfg (P c) False (lanes s c)"
    using assms(2,3) log(2) by (auto simp: conc_inv_def pass_inv_def)
  have "covers cfg (P c) (c \<notin> set (todo t)) l"
    using covers_step [OF log(3) c] by (cases "c \<in> set (todo t)") (auto simp: log(1) covers_def split: if_splits)
  moreover have "covers cfg (P d) (d \<notin> set (todo t)) (lanes s d)" if "d \<in> set cpus" "d \<noteq> c" for d
    using assms(3) that log(2) by (auto simp: pass_inv_def log(1) split: if_splits)
  ultimately have "covers cfg (P d) (d \<notin> set (todo t)) (lanes t d)" if "d \<in> set cpus" for d
    using that by (cases "d = c") (simp_all add: log(1) del: set_simps split del: if_split)
  then show ?thesis by (simp add: pass_inv_def)
qed

lemma enq_step_pass:
  assumes "enq_step cfg cpus s t" and "conc_inv cfg kw f\<^sub>0 cpus s" and "pass_inv cfg P cpus s"
  shows "pass_inv cfg P cpus t"
  using assms(1)
proof cases
  case (enq c l)
  have "lane_ok cfg c (lanes s c)" using assms(2) enq(2) by (simp add: conc_inv_def)
  note e = producer_effect(2-4) [OF enq(3) this enq(4)]
  have "covers cfg (P c) (c \<notin> set (todo s)) (lanes s c)" using assms(3) enq(2) by (simp add: pass_inv_def)
  then have "covers cfg (P c) (c \<notin> set (todo s)) l"
    using e prefix_order.trans [OF _ e(3)] by (simp add: covers_def past_tail_def will_hand_def)
  then show ?thesis using assms(3) by (simp add: pass_inv_def enq(1))
qed

lemma pass_run_inv:
  "pass_run cfg kw cpus s m t \<Longrightarrow> conc_inv cfg kw f\<^sub>0 cpus s \<Longrightarrow> pass_inv cfg P cpus s \<Longrightarrow> pass_inv cfg P cpus t"
proof (induction rule: pass_run.induct)
  case (polled m t u)
  then show ?case using enq_step_pass pass_run_bound by metis
next
  case (logged m t u)
  then show ?case using log_step_pass pass_run_bound by metis
qed simp

text \<open>
  C15. A log pass over all CPUs ends, whatever the CPUs enqueue meanwhile. In any interleaving of a pass
  with the polls the logger makes at most \<open>n + 4\<close> accesses per CPU, where \<open>n\<close> is the number of slots, and
  is never stuck before the end of the pass; and at the end everything that any CPU had published before
  the pass began has been handed to \<open>kernel_write\<close>.
\<close>

theorem log_pass_completes:
  assumes "conc_init cfg cpus s" and "(conc_step cfg kw cpus)\<^sup>*\<^sup>* s t" and "todo t = cpus"
    and "\<forall>c \<in> set cpus. c_pc (lanes t c) = CIdle" and "pass_run cfg kw cpus t m u"
  shows "m \<le> length cpus * (unat (HRP_PMC_BUFFER_SIZE cfg) + 4) \<and>
    (todo u \<noteq> [] \<longrightarrow> (\<exists>v. log_step cfg kw u v)) \<and> (\<exists>k v. pass_run cfg kw cpus u k v \<and> todo v = []) \<and>
    (todo u = [] \<longrightarrow> (\<forall>c \<in> set cpus. prefix (published (lanes t c)) (mine c (concat (calls u)))))"
proof -
  let ?P = "\<lambda>c. published (lanes t c)"
  have inv: "conc_inv cfg kw (cfile s) cpus t" using conc.invar_run [OF assms(2) init_inv [OF assms(1)]] .
  note u = pass_run_bound [OF assms(5) inv]
  have "pass_left cfg t \<le> length cpus * (unat (HRP_PMC_BUFFER_SIZE cfg) + 4)"
    using assms(3,4) by (cases cpus) (simp_all add: pass_left_def lane_left_def)
  moreover have "pass_inv cfg ?P cpus u"
    using pass_run_inv [OF assms(5) inv, of ?P] assms(3,4) by (simp add: pass_inv_def covers_def past_tail_def)
  moreover have "prefix (?P c) (mine c (concat (calls u)))" if "todo u = []" "c \<in> set cpus" "pass_inv cfg ?P cpus u" for c
  proof -
    have c: "prefix (?P c) (published (lanes u c))" "length (?P c) \<le> length (concat (handed (lanes u c)))"
      "lane_ok cfg c (lanes u c)" "mine c (concat (calls u)) = concat (handed (lanes u c))"
      using that u by (auto simp: pass_inv_def covers_def conc_inv_def)
    have "prefix (concat (handed (lanes u c))) (published (lanes u c))" using lane_fifo [OF c(3)] by simp
    then show ?thesis unfolding c(4) using prefix_length_prefix [OF c(1)] c(2) by blast
  qed
  moreover have "todo u \<noteq> [] \<longrightarrow> (\<exists>v. log_step cfg kw u v)" using log_can_step u by metis
  moreover have "\<exists>k v. pass_run cfg kw cpus u k v \<and> todo v = []" using pass_can_end u by metis
  ultimately show ?thesis using u by auto
qed

section \<open>A concrete run\<close>

definition conc0 :: "u8 list conc" where
  "conc0 = \<lparr>lanes = \<lambda>_. spsc0, todo = [], cfile = [], calls = []\<rparr>"

definition conc1 :: "u8 list conc" where
  "conc1 = conc0\<lparr>lanes := (\<lambda>_. spsc0)(0 := spsc1), todo := [0, 1]\<rparr>"

lemma conc0_init: "conc_init cfg4 [0, 1] conc0"
  by (auto simp: conc_init_def conc0_def spsc0_init)

lemma conc1_run: "(conc_step cfg4 kw [0, 1])\<^sup>*\<^sup>* conc0 conc1"
proof -
  let ?l = "\<lambda>l. conc0\<lparr>lanes := (\<lambda>_. spsc0)(0 := l)\<rparr>"
  have step: "conc_step cfg4 kw [0, 1] (?l l) (?l l')"
    if "producer_step cfg4 l l'" "\<forall>e nt. p_pc l' = PChecked e nt \<longrightarrow> cpu_id e = 0" for l l'
    using poll [OF enq, of 0 "[0, 1]" cfg4 "?l l" l' kw] that by simp
  have "(conc_step cfg4 kw [0, 1])\<^sup>*\<^sup>* (?l spsc0) (?l (spsc0\<lparr>p_pc := PChecked zero_entry 0\<rparr>))"
    using step [OF spsc1_steps(1)] by (simp add: zero_entry_def r_into_rtranclp)
  also have "conc_step cfg4 kw [0, 1] \<dots> (?l (spsc0\<lparr>p_pc := PStored zero_entry 0\<rparr>))"
    using step [OF spsc1_steps(2)] by simp
  also have "conc_step cfg4 kw [0, 1] \<dots> (?l spsc1)"
    using step [OF spsc1_steps(3)] by (simp add: spsc1_def spsc0_def)
  also have "conc_step cfg4 kw [0, 1] \<dots> conc1"
    using start_pass [of "?l spsc1" cfg4 kw "[0, 1]"] by (simp add: conc1_def conc0_def)
  also have "?l spsc0 = conc0" by (simp add: conc0_def fun_upd_idem)
  finally show ?thesis .
qed

theorem concurrent_refines_queues_witness:
  "conc_init cfg4 [0, 1] conc0 \<and> (queue_step cfg4 mem_write 3 [0, 1])\<^sup>*\<^sup>* (queues_of cfg4 conc0) (queues_of cfg4 conc1)"
  using concurrent_refines_queues [OF conc0_init conc1_run] conc0_init by (simp add: rb_cap_def)

theorem concurrent_conserves_witness:
  "\<exists>cs. cfile conc1 = writes cfg4 mem_write cs [] \<and> mine 0 (concat cs) @ rb_list (sh_rb (lanes conc1 0)) = [zero_entry]"
  using concurrent_conserves [OF conc0_init conc1_run [of mem_write]]
  by (fastforce simp: conc0_def conc1_def spsc1_def spsc0_def in_flight_def)

theorem log_pass_completes_witness:
  "\<exists>m u. pass_run cfg4 mem_write [0, 1] conc1 m u \<and> todo u = [] \<and> m \<le> 16 \<and> prefix [zero_entry] (mine 0 (concat (calls u)))"
proof -
  have c: "todo conc1 = [0, 1]" "\<forall>c \<in> set [0, 1]. c_pc (lanes conc1 c) = CIdle" "published (lanes conc1 0) = [zero_entry]"
    by (simp_all add: conc1_def spsc1_def spsc0_def)
  note pass = log_pass_completes [OF conc0_init conc1_run c(1,2)]
  obtain m u where u: "pass_run cfg4 mem_write [0, 1] conc1 m u" "todo u = []" using pass [OF pass_run.started] by blast
  then show ?thesis using pass [OF u(1)] c(3) by (intro exI [of _ m] exI [of _ u]) simp
qed

end
