(* ===== verification/Uncore_Life.thy ===== *)
theory Uncore_Life
  imports Uncore_Pmu "HOL-Library.Multiset"
begin

text \<open>
  Who owns which kernel object in the uncore part: registers own a range and its mapping, a PMU owns
  its registers, the discovery structure owns its lists. Ownership is counted with multisets, so that
  being owned twice would show. The theory proves for \<open>init_g_uncore_pmus\<close> and
  \<open>destroy_g_uncore_pmus\<close> of \<open>src/src/uncore_pmu.c\<close> that teardown after any initialisation
  releases only what is live and each object once, and when nothing is left behind.
\<close>

section \<open>Accounting for the heap\<close>

definition held :: "kheap \<Rightarrow> (kres \<times> nat) multiset" where
  "held h = mset_set (live h)"

text \<open>
  The objects \<open>R\<close> are accounted for. If \<open>x\<close> holds, allocations succeed and there is nothing else on
  the heap; otherwise the rest may have been lost.
\<close>

definition acct :: "bool \<Rightarrow> kheap \<Rightarrow> (kres \<times> nat) multiset \<Rightarrow> bool" where
  "acct x h R \<longleftrightarrow> heap_wf h \<and> R \<subseteq># held h \<and> (x \<longrightarrow> (\<forall>k. alloc_ok h k) \<and> held h = R)"

lemma finite_live: "heap_wf h \<Longrightarrow> finite (live h)"
proof -
  assume "heap_wf h"
  then have "live h \<subseteq> {KObj, KPage, KVmap, KIomap} \<times> {..<n_req h}"
    by (auto simp: heap_wf_def) (metis kres.exhaust)
  then show ?thesis by (rule finite_subset) simp
qed

lemma acct_start: "heap_wf h \<Longrightarrow> acct (\<forall>k. alloc_ok h k) h (held h)"
  by (simp add: acct_def)

lemma acct_lost: "acct x h (R + S) \<Longrightarrow> acct False h R"
  by (auto simp: acct_def dest: subset_mset.order_trans [OF mset_subset_eq_add_left])

lemma acct_weaken: "acct x h R \<Longrightarrow> (y \<Longrightarrow> x) \<Longrightarrow> acct y h R"
  by (auto simp: acct_def)

lemma acct_alloc:
  assumes "acct x h R" and "kalloc k h = (Some p, h')"
  shows "acct x h' (R + {#(k, p)#})"
proof -
  have wf: "heap_wf h" using assms(1) by (simp add: acct_def)
  have "held h' = held h + {#(k, p)#}"
    using kalloc_Some(2,3) [OF assms(2) wf] finite_live [OF wf] by (simp add: held_def)
  then show ?thesis using assms(1) kalloc_Some(1,4) [OF assms(2) wf] by (auto simp: acct_def)
qed

lemma acct_no_alloc:
  assumes "acct x h R" and "kalloc k h = (None, h')"
  shows "\<not> x" and "acct False h' R"
proof -
  have wf: "heap_wf h" using assms(1) by (simp add: acct_def)
  show "\<not> x" using assms by (auto simp: acct_def kalloc_def split: if_splits)
  show "acct False h' R" using assms(1) kalloc_None [OF assms(2) wf] by (simp add: acct_def held_def)
qed

lemma acct_release:
  assumes "acct x h (R + {#(k, p)#})"
  shows "\<exists>h'. krelease k p h = Inr h' \<and> acct x h' R"
proof -
  have wf: "heap_wf h" and sub: "R + {#(k, p)#} \<subseteq># held h" using assms by (simp_all add: acct_def)
  have "(k, p) \<in># held h" using mset_subset_eqD [OF sub] by simp
  then have l: "(k, p) \<in> live h" using finite_live [OF wf] by (simp add: held_def)
  let ?h = "h\<lparr>live := live h - {(k, p)}\<rparr>"
  have held: "held ?h = held h - {#(k, p)#}"
    using l finite_live [OF wf] by (simp add: held_def mset_set_Diff)
  have "acct x ?h R"
    using assms wf sub unfolding acct_def held
    by (auto simp: heap_wf_def insert_subset_eq_iff)
  then show ?thesis using l by (auto simp: krelease_def)
qed

lemma acct_live: "acct x h (held h0) \<Longrightarrow> heap_wf h0 \<Longrightarrow> live h0 \<subseteq> live h \<and> (x \<longrightarrow> live h = live h0)"
proof -
  assume a: "acct x h (held h0)" and wf: "heap_wf h0"
  have fin: "finite (live h)" "finite (live h0)" using a wf finite_live by (auto simp: acct_def)
  have "set_mset (held h0) \<subseteq> set_mset (held h)" using a set_mset_mono by (auto simp: acct_def)
  moreover have "x \<longrightarrow> set_mset (held h) = set_mset (held h0)" using a by (auto simp: acct_def)
  ultimately show ?thesis using fin by (simp add: held_def)
qed

lemma acct_drop: "acct x h (R + S) \<Longrightarrow> (x \<Longrightarrow> S = {#}) \<Longrightarrow> acct x h R"
  using acct_lost by (cases x) (auto simp: acct_def)

text \<open>One element of an array in focus.\<close>

lemma sum_list_focus:
  fixes f :: "'a \<Rightarrow> 'b::comm_monoid_add"
  assumes "i < length xs"
  obtains rest where "\<And>y. sum_list (map f (xs[i := y])) = rest + f y" "sum_list (map f xs) = rest + f (xs ! i)"
proof
  let ?rest = "sum_list (map f (take i xs)) + sum_list (map f (drop (Suc i) xs))"
  show upd: "sum_list (map f (xs[i := y])) = ?rest + f y" for y
    using assms by (simp add: upd_conv_take_nth_drop add_ac)
  show "sum_list (map f xs) = ?rest + f (xs ! i)" using upd [of "xs ! i"] by simp
qed

section \<open>The contract of an owner\<close>

text \<open>
  Destroying an owner gives back exactly what it owns, whatever else is on the heap; then so does
  destroying several of them in a loop.
\<close>

locale owner =
  fixes res :: "'o \<Rightarrow> (kres \<times> nat) multiset"
    and ok :: "'o \<Rightarrow> bool"
    and destroy :: "'o \<Rightarrow> kheap \<Rightarrow> kheap may"
  assumes destroy_acct: "acct x h (R + res y) \<Longrightarrow> ok y \<Longrightarrow> \<exists>h'. destroy y h = Inr h' \<and> acct x h' R"
begin

lemma destroy_all:
  "acct x h (R + sum_list (map res ys)) \<Longrightarrow> (\<And>y. y \<in> set ys \<Longrightarrow> ok y) \<Longrightarrow> \<exists>h'. foldF destroy ys h = Inr h' \<and> acct x h' R"
proof (induction ys arbitrary: h)
  case (Cons y ys)
  have "acct x h ((R + sum_list (map res ys)) + res y)" using Cons.prems(1) by (simp add: add_ac)
  from destroy_acct [OF this] obtain h1 where "destroy y h = Inr h1" "acct x h1 (R + sum_list (map res ys))"
    using Cons.prems(2) by auto
  then show ?case using Cons.IH [of h1] Cons.prems(2) by simp
qed simp

end

text \<open>A constructor of owners accounts for what it hands out, also when it fails half way.\<close>

locale made_owner = owner res ok destroy
  for res :: "'o \<Rightarrow> (kres \<times> nat) multiset" and ok :: "'o \<Rightarrow> bool" and destroy :: "'o \<Rightarrow> kheap \<Rightarrow> kheap may" +
  fixes make :: "'a \<Rightarrow> kheap \<Rightarrow> ('o \<times> kheap) may"
  assumes make_acct: "acct x h R \<Longrightarrow> \<exists>y h'. make a h = Inr (y, h') \<and> ok y \<and> acct x h' (R + res y)"
begin

lemma make_destroy:
  assumes "acct x h R"
  shows "\<exists>y h1 h2. make a h = Inr (y, h1) \<and> destroy y h1 = Inr h2 \<and> acct x h2 R"
  using make_acct [OF assms, of a] destroy_acct by blast

lemma made: "acct x h R \<Longrightarrow> make a h = Inr (y, h') \<Longrightarrow> ok y \<and> acct x h' (R + res y)"
  using make_acct [of x h R a] by auto

end

section \<open>Ranges and registers\<close>

definition range_res :: "mmio_range option \<Rightarrow> (kres \<times> nat) multiset" where
  "range_res r = (case r of None \<Rightarrow> {#} | Some r \<Rightarrow> {#(KObj, mr_ptr r), (KIomap, mmap_addr r)#})"

definition reg_res :: "hw_reg option \<Rightarrow> (kres \<times> nat) multiset" where
  "reg_res r = (case r of None \<Rightarrow> {#} | Some reg \<Rightarrow> {#(KObj, reg_ptr reg)#} + range_res (handle reg))"

definition reg_ok :: "hw_reg option \<Rightarrow> bool" where
  "reg_ok r \<longleftrightarrow> (case r of None \<Rightarrow> True | Some reg \<Rightarrow> magic reg = Some HW_REG_MAGIC \<and> ops reg \<noteq> None)"

lemma res_simps [simp]:
  "range_res None = {#}" "range_res (Some r) = {#(KObj, mr_ptr r), (KIomap, mmap_addr r)#}"
  "reg_res None = {#}" "reg_res (Some reg) = {#(KObj, reg_ptr reg)#} + range_res (handle reg)" "reg_ok None"
  by (simp_all add: range_res_def reg_res_def reg_ok_def)

definition make_range :: "u64 \<times> u64 \<times> bool \<times> int \<Rightarrow> kheap \<Rightarrow> (mmio_range option \<times> kheap) may" where
  "make_range = (\<lambda>(base, sz, silent, core). mmio_range_create base sz silent core)"

interpretation ranges: made_owner range_res "\<lambda>_. True" mmio_range_destroy make_range
proof
  fix x h R and y :: "mmio_range option"
  assume a: "acct x h (R + range_res y)"
  show "\<exists>h'. mmio_range_destroy y h = Inr h' \<and> acct x h' R"
  proof (cases y)
    case (Some r)
    then have "acct x h ((R + {#(KObj, mr_ptr r)#}) + {#(KIomap, mmap_addr r)#})" using a by (simp add: add_mset_commute)
    from acct_release [OF this] obtain h1 where h1: "krelease KIomap (mmap_addr r) h = Inr h1" "acct x h1 (R + {#(KObj, mr_ptr r)#})"
      by blast
    from acct_release [OF h1(2)] show ?thesis using Some h1(1) by (auto simp: mmio_range_destroy_def)
  qed (use a in \<open>simp add: mmio_range_destroy_def\<close>)
next
  fix x h R and a :: "u64 \<times> u64 \<times> bool \<times> int"
  assume h: "acct x h R"
  obtain base sz silent core where a: "a = (base, sz, silent, core)" by (cases a) auto
  obtain r1 h1 where k1: "kalloc KObj h = (r1, h1)" by fastforce
  show "\<exists>y h'. make_range a h = Inr (y, h') \<and> True \<and> acct x h' (R + range_res y)"
  proof (cases r1)
    case None
    with k1 acct_no_alloc [OF h] show ?thesis by (auto simp: make_range_def a mmio_range_create_def)
  next
    case (Some p)
    have h1: "acct x h1 (R + {#(KObj, p)#})" using acct_alloc [OF h] k1 Some by simp
    obtain r2 h2 where k2: "kalloc KIomap h1 = (r2, h2)" by fastforce
    show ?thesis
    proof (cases r2)
      case None
      then have "\<not> x" "acct False h2 (R + {#(KObj, p)#})" using acct_no_alloc [OF h1] k2 by auto
      then show ?thesis using k1 k2 Some None acct_release by (fastforce simp: make_range_def a mmio_range_create_def)
    next
      case (Some q)
      with k1 k2 \<open>r1 = Some p\<close> acct_alloc [OF h1] show ?thesis
        by (simp add: make_range_def a mmio_range_create_def add_mset_commute)
    qed
  qed
qed

text \<open>Both kinds of register are destroyed alike: the range, then the object.\<close>

lemma destroy_reg_eq:
  "reg_ok (Some reg) \<Longrightarrow> destroy_reg (Some reg) h = bindF (mmio_range_destroy (handle reg) h) (krelease KObj (reg_ptr reg))"
  by (auto simp: reg_ok_def destroy_reg_def hw_reg_destroy_def hw_reg_is_valid_def mmio_reg32_destroy_def mmio_reg64_destroy_def
      mmio_range_destroy_def split: option.splits hw_reg_ops.splits)

definition make_reg :: "u64 \<times> u32 \<Rightarrow> kheap \<Rightarrow> (hw_reg option \<times> kheap) may" where
  "make_reg = (\<lambda>(raw_addr, width). make_register raw_addr width)"

lemma reg_create_acct:
  assumes "acct x h (R + range_res hnd)" and "create = mmio_reg32_create \<or> create = mmio_reg64_create"
  shows "\<exists>y h'. create hnd off h = (y, h') \<and> reg_ok y \<and> acct x h' (R + reg_res y)"
proof (cases "kalloc KObj h")
  case (Pair r h1)
  show ?thesis
  proof (cases r)
    case None
    then have "\<not> x" "acct False h1 R" using acct_no_alloc [OF assms(1)] Pair acct_lost by blast+
    then show ?thesis using assms(2) Pair None by (auto simp: mmio_reg32_create_def mmio_reg64_create_def)
  next
    case (Some p)
    then have "acct x h1 (R + ({#(KObj, p)#} + range_res hnd))" using acct_alloc [OF assms(1)] Pair by (simp add: add_ac)
    then show ?thesis using assms(2) Pair Some by (auto simp: mmio_reg32_create_def mmio_reg64_create_def reg_ok_def)
  qed
qed

interpretation registers: made_owner reg_res reg_ok destroy_reg make_reg
proof
  fix x h R and y :: "hw_reg option"
  assume a: "acct x h (R + reg_res y)" "reg_ok y"
  show "\<exists>h'. destroy_reg y h = Inr h' \<and> acct x h' R"
  proof (cases y)
    case None
    then show ?thesis using a by (simp add: destroy_reg_def)
  next
    case (Some reg)
    then have "acct x h ((R + {#(KObj, reg_ptr reg)#}) + range_res (handle reg))" using a by (simp add: add_ac)
    from ranges.destroy_acct [OF this] obtain h1 where "mmio_range_destroy (handle reg) h = Inr h1" "acct x h1 (R + {#(KObj, reg_ptr reg)#})"
      by blast
    then show ?thesis using a(2) Some acct_release [of x h1 R] by (simp add: destroy_reg_eq)
  qed
next
  fix x h R and a :: "u64 \<times> u32"
  assume h: "acct x h R"
  obtain raw width where a: "a = (raw, width)" by (cases a)
  obtain r h1 where r: "mmio_range_create (raw AND NOT 4095) 4096 False (-1) h = Inr (r, h1)" "acct x h1 (R + range_res r)"
    using ranges.make_acct [OF h, of "(raw AND NOT 4095, 4096, False, -1)"] by (auto simp: make_range_def)
  have m: "make_reg a h = (if r = None then Inr (None, h1) else if width = 32 then Inr (mmio_reg32_create r (raw AND 4095) h1)
      else if width = 64 then Inr (mmio_reg64_create r (raw AND 4095) h1)
      else bindF (mmio_range_destroy r h1) (\<lambda>h. Inr (None, h)))"
    unfolding make_reg_def a make_register_def SERVER_MC_CH_PMON_SIZE_def Let_def prod.case r(1) bindF_simps ..
  obtain h2 where "mmio_range_destroy r h1 = Inr h2" "acct x h2 R" using ranges.destroy_acct [OF r(2)] by blast
  moreover obtain y3 h3 where "mmio_reg32_create r (raw AND 4095) h1 = (y3, h3)" "reg_ok y3" "acct x h3 (R + reg_res y3)"
    using reg_create_acct [OF r(2), of mmio_reg32_create] by blast
  moreover obtain y4 h4 where "mmio_reg64_create r (raw AND 4095) h1 = (y4, h4)" "reg_ok y4" "acct x h4 (R + reg_res y4)"
    using reg_create_acct [OF r(2), of mmio_reg64_create] by blast
  ultimately show "\<exists>y h'. make_reg a h = Inr (y, h') \<and> reg_ok y \<and> acct x h' (R + reg_res y)"
    using r(2) unfolding m by auto
qed

section \<open>PMUs\<close>

text \<open>The registers of a PMU in the order in which \<open>uncore_pmu_destroy\<close> visits them.\<close>

definition counter_regs :: "hw_reg option list \<Rightarrow> hw_reg option list \<Rightarrow> hw_reg option list" where
  "counter_regs cc cv = concat (map (\<lambda>i. [cc ! i, cv ! i]) [0..<MAX_HW_REGS_PER_IMC_PMU])"

definition pmu_regs :: "uncore_pmu \<Rightarrow> hw_reg option list" where
  "pmu_regs p = unit_ctrl p # counter_regs (counter_ctrl p) (counter_val p) @
     [fixed_counter_ctrl p, fixed_counter_val p, pmu_filter p ! 0, pmu_filter p ! 1]"

definition pmu_res :: "uncore_pmu option \<Rightarrow> (kres \<times> nat) multiset" where
  "pmu_res pmu = (case pmu of None \<Rightarrow> {#} | Some p \<Rightarrow> {#(KObj, up_ptr p)#} + sum_list (map reg_res (pmu_regs p)))"

definition pmu_ok :: "uncore_pmu option \<Rightarrow> bool" where
  "pmu_ok pmu = (case pmu of None \<Rightarrow> True | Some p \<Rightarrow> \<forall>r \<in> set (pmu_regs p). reg_ok r)"

definition release_pmu :: "uncore_pmu option \<Rightarrow> kheap \<Rightarrow> kheap may" where
  "release_pmu pmu h =
     (case pmu of None \<Rightarrow> Inr h | Some p \<Rightarrow> bindF (uncore_pmu_destroy p h) (krelease KObj (up_ptr p)))"

lemma bindF_Inr_right: "bindF m (\<lambda>x. Inr x) = m"
  by (cases m) simp_all

lemma foldF_fun: "foldF f [] = Inr" "foldF f (i # is) = (\<lambda>s. bindF (f i s) (foldF f is))"
  "foldF f (is @ js) = (\<lambda>s. bindF (foldF f is s) (foldF f js))"
  by (auto simp: foldF_append)

lemma foldF_pairs:
  "foldF f (concat (map (\<lambda>i. [a i, b i]) is)) s = foldF (\<lambda>i s. bindF (f (a i) s) (f (b i))) is s"
  by (induction "is" arbitrary: s) (simp_all add: bindF_assoc bindF_def split: sum.split)

lemma uncore_pmu_destroy_eq: "uncore_pmu_destroy p h = foldF destroy_reg (pmu_regs p) h"
  by (simp add: uncore_pmu_destroy_def pmu_regs_def counter_regs_def foldF_fun foldF_pairs bindF_Inr_right)

interpretation pmus: owner pmu_res pmu_ok release_pmu
proof
  fix x h R and y :: "uncore_pmu option"
  assume a: "acct x h (R + pmu_res y)" "pmu_ok y"
  show "\<exists>h'. release_pmu y h = Inr h' \<and> acct x h' R"
  proof (cases y)
    case None
    then show ?thesis using a by (simp add: pmu_res_def release_pmu_def)
  next
    case (Some p)
    then have "acct x h ((R + {#(KObj, up_ptr p)#}) + sum_list (map reg_res (pmu_regs p)))" using a by (simp add: pmu_res_def add_ac)
    from registers.destroy_all [OF this] obtain h1 where
      "foldF destroy_reg (pmu_regs p) h = Inr h1" "acct x h1 (R + {#(KObj, up_ptr p)#})"
      using a(2) Some by (auto simp: pmu_ok_def)
    then show ?thesis using Some acct_release [of x h1 R] by (simp add: release_pmu_def uncore_pmu_destroy_eq)
  qed
qed

lemma counter_regs_sum:
  "sum_list (map reg_res (counter_regs cc cv)) = (\<Sum>i<MAX_HW_REGS_PER_IMC_PMU. reg_res (cc ! i) + reg_res (cv ! i))"
proof -
  have "sum_list (map reg_res (concat (map (\<lambda>i. [cc ! i, cv ! i]) is))) = sum_list (map (\<lambda>i. reg_res (cc ! i) + reg_res (cv ! i)) is)"
    for "is" by (induction "is") (simp_all add: add_ac)
  then show ?thesis by (simp add: counter_regs_def interv_sum_list_conv_sum_set_nat lessThan_atLeast0)
qed

text \<open>Filling a pair of slots that was empty.\<close>

lemma counter_regs_update:
  assumes "length cc = MAX_HW_REGS_PER_IMC_PMU" "length cv = MAX_HW_REGS_PER_IMC_PMU" "r < MAX_HW_REGS_PER_IMC_PMU"
    and "cc ! r = None" "cv ! r = None"
  shows "sum_list (map reg_res (counter_regs (cc[r := c]) (cv[r := v]))) =
    sum_list (map reg_res (counter_regs cc cv)) + reg_res c + reg_res v"
proof -
  let ?S = "{..<MAX_HW_REGS_PER_IMC_PMU}"
  let ?f = "\<lambda>cc cv i. reg_res (cc ! i) + reg_res (cv ! i)"
  have "sum (?f (cc[r := c]) (cv[r := v])) ?S = reg_res c + reg_res v + sum (?f (cc[r := c]) (cv[r := v])) (?S - {r})"
    using assms(1-3) by (simp add: sum.remove [of ?S r])
  also have "sum (?f (cc[r := c]) (cv[r := v])) (?S - {r}) = sum (?f cc cv) (?S - {r})" by (rule sum.cong) auto
  also have "sum (?f cc cv) (?S - {r}) = sum (?f cc cv) ?S" using assms(3-5) by (simp add: sum.remove [of ?S r])
  finally show ?thesis by (simp add: counter_regs_sum add_ac)
qed

lemma set_counter_regs:
  "length cc = MAX_HW_REGS_PER_IMC_PMU \<Longrightarrow> length cv = MAX_HW_REGS_PER_IMC_PMU \<Longrightarrow> set (counter_regs cc cv) = set cc \<union> set cv"
  by (auto simp: counter_regs_def set_conv_nth [of cc] set_conv_nth [of cv])

text \<open>\<open>make_register\<close> in the form in which its result is known.\<close>

lemma make_register_acct: "make_register a w h = Inr (r, h') \<Longrightarrow> acct x h R \<Longrightarrow> reg_ok r \<and> acct x h' (R + reg_res r)"
  using registers.made [of x h R "(a, w)" r h'] by (simp add: make_reg_def)

lemma make_counter_regs_acct:
  assumes "make_counter_regs d pos rs cc cv h = Inr (cc', cv', h')" and "acct x h (R + sum_list (map reg_res (counter_regs cc cv)))"
    and "distinct rs" and "set rs \<subseteq> {..<MAX_HW_REGS_PER_IMC_PMU}"
    and "length cc = MAX_HW_REGS_PER_IMC_PMU" and "length cv = MAX_HW_REGS_PER_IMC_PMU"
    and "\<forall>r \<in> set rs. cc ! r = None \<and> cv ! r = None" and "\<forall>r \<in> set cc \<union> set cv. reg_ok r"
  shows "acct x h' (R + sum_list (map reg_res (counter_regs cc' cv'))) \<and> (\<forall>r \<in> set (counter_regs cc' cv'). reg_ok r)"
  using assms
proof (induction rs arbitrary: cc cv h)
  case Nil
  then show ?case by (simp add: set_counter_regs)
next
  case (Cons r rs)
  obtain a1 c h1 a2 v h2 where s: "make_register a1 32 h = Inr (c, h1)" "make_register a2 64 h1 = Inr (v, h2)"
    "make_counter_regs d pos rs (cc[r := c]) (cv[r := v]) h2 = Inr (cc', cv', h')"
    using Cons.prems(1) by (auto simp: fault_simps)
  note c = make_register_acct [OF s(1) Cons.prems(2)]
  note v = make_register_acct [OF s(2) conjunct2 [OF c]]
  have upd: "set (cc[r := c]) \<subseteq> insert c (set cc)" "set (cv[r := v]) \<subseteq> insert v (set cv)" by (rule set_update_subset_insert)+
  have sum: "sum_list (map reg_res (counter_regs (cc[r := c]) (cv[r := v]))) =
    sum_list (map reg_res (counter_regs cc cv)) + reg_res c + reg_res v"
    using Cons.prems by (intro counter_regs_update) auto
  show ?case
  proof (rule Cons.IH [OF s(3)])
    show "acct x h2 (R + sum_list (map reg_res (counter_regs (cc[r := c]) (cv[r := v]))))" using v sum by (simp add: add_ac)
    show "\<forall>i \<in> set rs. cc[r := c] ! i = None \<and> cv[r := v] ! i = None"
    proof
      fix i
      assume i: "i \<in> set rs"
      then have "r \<noteq> i" using Cons.prems(3) by auto
      then show "cc[r := c] ! i = None \<and> cv[r := v] ! i = None" using Cons.prems(7) i by simp
    qed
    show "\<forall>y \<in> set (cc[r := c]) \<union> set (cv[r := v]). reg_ok y" using Cons.prems(8) c v upd by blast
  qed (use Cons.prems in auto)
qed

section \<open>The controllers\<close>

definition imcs_res :: "uncore_pmus \<Rightarrow> (kres \<times> nat) multiset" where
  "imcs_res g = sum_list (map pmu_res (imcs g))"

definition imcs_ok :: "uncore_pmus \<Rightarrow> bool" where
  "imcs_ok g \<longleftrightarrow> length (imcs g) = MAX_IMC_PMUS \<and> (\<forall>p \<in> set (imcs g). pmu_ok p)"

lemma init_box_outcomes:
  assumes "init_box d pos g h = Inr (ok, g', h')"
  obtains "g' = g" "h' = h" "ok \<Longrightarrow> get_box_access_type d SPR_IMC_BOX_TYPE SOCKET_ID pos \<noteq> Inr ACCESS_TYPE_MMIO"
  | a where "make_register a 32 h = Inr (None, h')" "g' = g"
  | a n ctl h1 cc cv h2 fc h3 fv h4 pmu where "make_register a 32 h = Inr (ctl, h1)" "n \<le> MAX_HW_REGS_PER_IMC_PMU"
    "make_counter_regs d pos [0..<n] (replicate MAX_HW_REGS_PER_IMC_PMU None) (replicate MAX_HW_REGS_PER_IMC_PMU None) h1 = Inr (cc, cv, h2)"
    "make_register (a + SERVER_MC_CH_PMON_FIXED_CTL_OFFSET) 32 h2 = Inr (fc, h3)"
    "make_register (a + SERVER_MC_CH_PMON_FIXED_CTR_OFFSET) 64 h3 = Inr (fv, h4)"
    "uncore_pmu_create ctl cc cv fc fv [None, None] h4 = (pmu, h')" "pos < length (imcs g)"
    "g' = g\<lparr>imcs := (imcs g)[pos := pmu], num_imcs := num_imcs g + 1\<rparr>"
proof -
  obtain t where t: "get_box_access_type d SPR_IMC_BOX_TYPE SOCKET_ID pos = Inr t"
    using assms by (auto simp: init_box_def Let_def bindF_eq_Inr)
  show thesis
  proof (cases "t = ACCESS_TYPE_MMIO")
    case False
    then show thesis using that(1) assms t by (simp add: init_box_def Let_def)
  next
    case True
    obtain n where n: "get_box_num_regs d SPR_IMC_BOX_TYPE SOCKET_ID pos = Inr n"
      using assms by (auto simp: init_box_def Let_def bindF_eq_Inr t True)
    show thesis
    proof (cases "word_of_nat MAX_HW_REGS_PER_IMC_PMU < n")
      case 16: True
      then show thesis using that(1) assms by (simp add: init_box_def Let_def t True n)
    next
      case 16: False
      then have le: "unat n \<le> MAX_HW_REGS_PER_IMC_PMU" by (simp add: MAX_HW_REGS_PER_IMC_PMU_def word_less_nat_alt)
      obtain a ctl h1 where c: "get_box_ctl_addr d SPR_IMC_BOX_TYPE SOCKET_ID pos = Inr a" "make_register a 32 h = Inr (ctl, h1)"
        using assms 16 by (auto simp: init_box_def Let_def bindF_eq_Inr t True n)
      show thesis
      proof (cases "ctl = None")
        case None: True
        then show thesis using that(2) assms 16 c by (simp add: init_box_def Let_def t True n)
      next
        case Some: False
        note init = assms [unfolded init_box_def Let_def t n c bindF_simps if_P [OF True] if_not_P [OF 16] if_not_P [OF Some] prod.case]
        obtain cc cv h2 fc h3 fv h4 where m: "make_counter_regs d pos [0..<unat n] (replicate MAX_HW_REGS_PER_IMC_PMU None)
            (replicate MAX_HW_REGS_PER_IMC_PMU None) h1 = Inr (cc, cv, h2)"
          "make_register (a + SERVER_MC_CH_PMON_FIXED_CTL_OFFSET) 32 h2 = Inr (fc, h3)"
          "make_register (a + SERVER_MC_CH_PMON_FIXED_CTR_OFFSET) 64 h3 = Inr (fv, h4)"
          using init by (auto simp: bindF_eq_Inr split_beta)
        obtain pmu h5 where p: "uncore_pmu_create ctl cc cv fc fv [None, None] h4 = (pmu, h5)" by fastforce
        then show thesis using that(3) [OF c(2) le m] init m by (auto split: if_splits)
      qed
    qed
  qed
qed

lemma no_regs: "sum_list (map reg_res (counter_regs (replicate MAX_HW_REGS_PER_IMC_PMU None) (replicate MAX_HW_REGS_PER_IMC_PMU None))) = {#}"
  by (simp add: counter_regs_sum)

lemma pmu_create_acct:
  assumes "uncore_pmu_create ctl cc cv fc fv [None, None] h = (pmu, h')"
    and "acct x h (R + reg_res ctl + sum_list (map reg_res (counter_regs cc cv)) + reg_res fc + reg_res fv)"
    and "reg_ok ctl" and "\<forall>r \<in> set (counter_regs cc cv). reg_ok r" and "reg_ok fc" and "reg_ok fv"
  shows "acct x h' (R + pmu_res pmu) \<and> pmu_ok pmu"
proof (cases "kalloc KObj h")
  case (Pair r h1)
  show ?thesis
  proof (cases r)
    case None
    then have "pmu = None" "h' = h1" using assms(1) Pair by (simp_all add: uncore_pmu_create_def)
    moreover have "acct False h1 (R + (reg_res ctl + sum_list (map reg_res (counter_regs cc cv)) + reg_res fc + reg_res fv))" "\<not> x"
      using acct_no_alloc [OF assms(2), of KObj h1] Pair None by (simp_all add: add.assoc)
    ultimately show ?thesis using acct_lost by (auto simp: pmu_res_def pmu_ok_def)
  next
    case (Some p)
    then have "acct x h' (R + pmu_res pmu)"
      using assms(1) Pair acct_alloc [OF assms(2), of KObj p h1] by (auto simp: uncore_pmu_create_def pmu_res_def pmu_regs_def add_ac)
    then show ?thesis using assms Pair Some by (auto simp: uncore_pmu_create_def pmu_ok_def pmu_regs_def)
  qed
qed

lemma init_box_acct:
  assumes "init_box d pos g h = Inr (ok, g', h')" and "acct x h (R + imcs_res g)" and "imcs_ok g"
    and "pos < MAX_IMC_PMUS \<Longrightarrow> imcs g ! pos = None"
  shows "acct x h' (R + imcs_res g') \<and> imcs_ok g'"
  using assms(1)
proof (cases rule: init_box_outcomes)
  case 1
  then show ?thesis using assms(2,3) by simp
next
  case (2 a)
  then show ?thesis using make_register_acct [OF 2(1) assms(2)] assms(3) by simp
next
  case (3 a n ctl h1 cc cv h2 fc h3 fv h4 pmu)
  note ctl = make_register_acct [OF 3(1) assms(2)]
  have cc: "acct x h2 (R + imcs_res g + reg_res ctl + sum_list (map reg_res (counter_regs cc cv))) \<and> (\<forall>r \<in> set (counter_regs cc cv). reg_ok r)"
    using ctl 3(2) by (intro make_counter_regs_acct [OF 3(3)]) (auto simp: no_regs)
  note fc = make_register_acct [OF 3(4) conjunct1 [OF cc]]
  note fv = make_register_acct [OF 3(5) conjunct2 [OF fc]]
  have p: "acct x h' ((R + imcs_res g) + pmu_res pmu) \<and> pmu_ok pmu"
    using ctl cc fc fv by (intro pmu_create_acct [OF 3(6)]) auto
  have none: "imcs g ! pos = None" using 3(7) assms(3,4) by (simp add: imcs_ok_def)
  obtain rest where "\<And>p. sum_list (map pmu_res ((imcs g)[pos := p])) = rest + pmu_res p" "imcs_res g = rest + pmu_res None"
    using sum_list_focus [OF 3(7), of pmu_res] none by (metis imcs_res_def)
  then have "imcs_res g' = imcs_res g + pmu_res pmu" using 3(8) by (simp add: imcs_res_def pmu_res_def)
  moreover have "imcs_ok g'"
    using assms(3) p 3(8) set_update_subset_insert [of "imcs g" pos pmu] by (auto simp: imcs_ok_def)
  ultimately show ?thesis using p by (simp add: add_ac)
qed

text \<open>After the boxes below \<open>k\<close>: later slots are empty, and the number of PMUs is within the array.\<close>

definition boxes_inv :: "nat \<Rightarrow> uncore_pmus \<Rightarrow> bool" where
  "boxes_inv k g \<longleftrightarrow> imcs_ok g \<and> num_imcs g \<le> k \<and> num_imcs g \<le> MAX_IMC_PMUS \<and> (\<forall>i. k \<le> i \<and> i < MAX_IMC_PMUS \<longrightarrow> imcs g ! i = None)"

lemma make_register_succeeds: "acct True h R \<Longrightarrow> make_register a 32 h = Inr (r, h') \<Longrightarrow> r \<noteq> None"
  using make_register_cases [of h a 32] by (cases r) (auto simp: acct_def)

lemma init_box_inv:
  assumes "init_box d k g h = Inr (ok, g', h')" and "acct x h (R + imcs_res g)" and "boxes_inv k g"
  shows "acct x h' (R + imcs_res g') \<and> boxes_inv (Suc k) g' \<and> discovery g' = discovery g \<and>
    (x \<and> ok \<and> get_box_access_type d SPR_IMC_BOX_TYPE SOCKET_ID k = Inr ACCESS_TYPE_MMIO \<and> num_imcs g = k \<longrightarrow> num_imcs g' = Suc k)"
proof -
  have a: "acct x h' (R + imcs_res g') \<and> imcs_ok g'"
    using assms(3) by (intro init_box_acct [OF assms(1,2)]) (auto simp: boxes_inv_def)
  from assms(1) show ?thesis
  proof (cases rule: init_box_outcomes)
    case 1
    then show ?thesis using a assms(3) by (auto simp: boxes_inv_def)
  next
    case (2 b)
    then have "\<not> x" using make_register_succeeds [OF _ 2(1)] assms(2) by (cases x) auto
    then show ?thesis using 2 a assms(3) by (auto simp: boxes_inv_def)
  next
    case (3 b n ctl h1 cc cv h2 fc h3 fv h4 pmu)
    then show ?thesis using a assms(3) by (auto simp: boxes_inv_def imcs_ok_def)
  qed
qed

lemma init_boxes_inv:
  assumes "init_boxes d [k..<n] g h = Inr (ok, g', h')" and "k \<le> n" and "acct x h (R + imcs_res g)" and "boxes_inv k g"
  shows "acct x h' (R + imcs_res g') \<and> discovery g' = discovery g \<and> (\<exists>m. boxes_inv m g' \<and> (ok \<longrightarrow> m = n)) \<and>
    (x \<and> ok \<and> (\<forall>pos \<in> {k..<n}. get_box_access_type d SPR_IMC_BOX_TYPE SOCKET_ID pos = Inr ACCESS_TYPE_MMIO) \<and> num_imcs g = k \<longrightarrow>
       num_imcs g' = n)"
  using assms(2,1,3,4)
proof (induction k arbitrary: g h rule: inc_induct)
  case base
  then show ?case by auto
next
  case (step k)
  obtain ok1 g1 h1 where b: "init_box d k g h = Inr (ok1, g1, h1)"
    "(if ok1 then init_boxes d [Suc k..<n] g1 h1 else Inr (False, g1, h1)) = Inr (ok, g', h')"
    using step.prems(1) step.hyps by (auto simp: upt_conv_Cons bindF_eq_Inr)
  note one = init_box_inv [OF b(1) step.prems(2,3)]
  show ?case
  proof (cases ok1)
    case False
    then show ?thesis using b(2) one by auto
  next
    case True
    then show ?thesis using b(2) one step.IH [of g1 h1] step.hyps by auto
  qed
qed

lemma destroy_imc_eq:
  "destroy_imc i (g, h) = bindF (imc_at g i) (\<lambda>pmu. bindF (release_pmu pmu h) (\<lambda>h. Inr (g\<lparr>imcs := (imcs g)[i := None]\<rparr>, h)))"
proof -
  have same: "g\<lparr>imcs := (imcs g)[i := None]\<rparr> = g" if "imcs g ! i = None" using that list_update_id [of "imcs g" i] by simp
  show ?thesis
    by (auto simp: destroy_imc_def imc_at_def release_pmu_def bindF_assoc same split: option.splits)
qed

lemma destroy_imcs_acct:
  assumes "acct x h (R + imcs_res g)" and "imcs_ok g" and "n \<le> MAX_IMC_PMUS"
  shows "\<exists>h'. foldF destroy_imc [0..<n] (g, h) = Inr (g\<lparr>imcs := replicate n None @ drop n (imcs g)\<rparr>, h') \<and>
    acct x h' (R + sum_list (map pmu_res (drop n (imcs g))))"
  using assms(3)
proof (induction n)
  case 0
  then show ?case using assms(1) by (simp add: imcs_res_def)
next
  case (Suc n)
  let ?g = "g\<lparr>imcs := replicate n None @ drop n (imcs g)\<rparr>"
  have n: "n < length (imcs g)" using Suc.prems assms(2) by (simp add: imcs_ok_def)
  then have dr: "drop n (imcs g) = imcs g ! n # drop (Suc n) (imcs g)" by (simp add: Cons_nth_drop_Suc)
  obtain h1 where h1: "foldF destroy_imc [0..<n] (g, h) = Inr (?g, h1)"
    "acct x h1 ((R + sum_list (map pmu_res (drop (Suc n) (imcs g)))) + pmu_res (imcs g ! n))"
    using Suc by (auto simp: dr add_ac)
  have "pmu_ok (imcs g ! n)" using assms(2) n by (simp add: imcs_ok_def)
  from pmus.destroy_acct [OF h1(2) this] obtain h2 where "release_pmu (imcs g ! n) h1 = Inr h2"
    "acct x h2 (R + sum_list (map pmu_res (drop (Suc n) (imcs g))))" by blast
  moreover have "replicate n None @ None # drop (Suc n) (imcs g) = replicate (Suc n) None @ drop (Suc n) (imcs g)"
    by (simp add: replicate_app_Cons_same)
  ultimately show ?case
    using h1(1) n by (simp add: foldF_upt_Suc destroy_imc_eq imc_at_def dr nth_append list_update_append del: upt_Suc)
qed

section \<open>The discovery structure\<close>

definition list_res :: "box_pmu_list \<Rightarrow> (kres \<times> nat) multiset" where
  "list_res l = (case pmus l of None \<Rightarrow> {#} | Some (p, xs) \<Rightarrow> {#(KObj, p)#})"

definition map_res :: "box_pmu_map \<Rightarrow> (kres \<times> nat) multiset" where
  "map_res m = sum_list (map list_res m)"

definition disc_res :: "uncore_pmu_discovery \<Rightarrow> (kres \<times> nat) multiset" where
  "disc_res d = {#(KObj, d_ptr d), (KObj, gp_ptr d), (KObj, sm_ptr d)#} + sum_list (map map_res (socket_maps d))"

definition disc_ok :: "uncore_pmu_discovery \<Rightarrow> bool" where
  "disc_ok d \<longleftrightarrow> length (socket_maps d) = num_sockets d \<and> (\<forall>m \<in> set (socket_maps d). length m = MAX_BOX_TYPES)"

interpretation lists: owner list_res "\<lambda>_. True" free_list
proof
  fix x h R and y :: box_pmu_list
  assume "acct x h (R + list_res y)"
  then show "\<exists>h'. free_list y h = Inr h' \<and> acct x h' R"
    using acct_release by (auto simp: list_res_def free_list_def split: option.splits)
qed

interpretation maps: owner map_res "\<lambda>_. True" "foldF free_list"
  using lists.destroy_all by unfold_locales (simp add: map_res_def)

interpretation discoveries: owner disc_res disc_ok uncore_pmu_discovery_destroy
proof
  fix x h R and d :: uncore_pmu_discovery
  assume a: "acct x h (R + disc_res d)" "disc_ok d"
  then have "acct x h ((R + {#(KObj, d_ptr d)#} + {#(KObj, gp_ptr d)#} + {#(KObj, sm_ptr d)#}) + sum_list (map map_res (socket_maps d)))"
    by (simp add: disc_res_def add_ac add_mset_commute)
  from maps.destroy_all [OF this] obtain h1 where h1: "foldF (foldF free_list) (socket_maps d) h = Inr h1"
    "acct x h1 (R + {#(KObj, d_ptr d)#} + {#(KObj, gp_ptr d)#} + {#(KObj, sm_ptr d)#})" by blast
  from acct_release [OF h1(2)] obtain h2 where h2: "krelease KObj (sm_ptr d) h1 = Inr h2"
    "acct x h2 (R + {#(KObj, d_ptr d)#} + {#(KObj, gp_ptr d)#})" by blast
  from acct_release [OF h2(2)] obtain h3 where h3: "krelease KObj (gp_ptr d) h2 = Inr h3" "acct x h3 (R + {#(KObj, d_ptr d)#})" by blast
  from acct_release [OF h3(2)] show "\<exists>h'. uncore_pmu_discovery_destroy d h = Inr h' \<and> acct x h' R"
    using h1(1) h2(1) h3(1) a(2) by (simp add: uncore_pmu_discovery_destroy_def disc_ok_def)
qed

lemma mmio_memcpy_acct:
  assumes "mmio_memcpy b dev src n check silent h = Inr (r, ws, h')" and "acct x h R"
  shows "acct x h' R"
proof (cases "src AND 3 \<noteq> 0 \<or> n AND 3 \<noteq> 0")
  case True
  then show ?thesis using assms by (simp add: mmio_memcpy_def split: if_splits)
next
  case False
  obtain rg h1 where c: "mmio_range_create (src AND PAGE_MASK) (PAGE_ALIGN (src + n) - (src AND PAGE_MASK)) silent (-1) h = Inr (rg, h1)"
    "acct x h1 (R + range_res rg)"
    using ranges.make_acct [OF assms(2), of "(src AND PAGE_MASK, PAGE_ALIGN (src + n) - (src AND PAGE_MASK), silent, -1)"]
    by (auto simp: make_range_def)
  obtain h2 where d: "mmio_range_destroy rg h1 = Inr h2" "acct x h2 R" using ranges.destroy_acct [OF c(2)] by blast
  show ?thesis
    using assms(1) c d False by (cases rg) (auto simp: mmio_memcpy_def Let_def bindF_eq_Inr)
qed

lemma count_pass_acct: "foldF (count_unit b dev addr step) us (cs, h) = Inr (cs', h') \<Longrightarrow> acct x h R \<Longrightarrow> acct x h' R"
proof (induction us arbitrary: cs h)
  case (Cons u us)
  then obtain cs1 h1 where one: "count_unit b dev addr step u (cs, h) = Inr (cs1, h1)"
    "foldF (count_unit b dev addr step) us (cs1, h1) = Inr (cs', h')" by (auto simp: bindF_eq_Inr)
  obtain r ws h2 where m: "mmio_memcpy b dev (unit_addr addr step u) 24 True False h = Inr (r, ws, h2)"
    using one(1) by (auto simp: count_unit_def bindF_eq_Inr)
  then have "h1 = h2" using one(1) by (auto simp: count_unit_def Let_def split: if_splits)
  then show ?case using Cons.IH [OF one(2)] mmio_memcpy_acct [OF m Cons.prems(2)] by simp
qed simp

lemma map_update_same: "f y = f (xs ! i) \<Longrightarrow> map f (xs[i := y]) = map f xs"
  by (metis list_update_id map_update)

lemma store_unit_res: "store_unit counts p ls = Inr ls' \<Longrightarrow> map list_res ls' = map list_res ls"
  by (auto simp: store_unit_def Let_def list_res_def intro!: map_update_same split: if_splits option.splits)

lemma fill_pass_acct:
  "foldF (fill_unit b dev addr step counts) us (ls, h) = Inr (ls', h') \<Longrightarrow> acct x h R \<Longrightarrow>
   acct x h' R \<and> map list_res ls' = map list_res ls"
proof (induction us arbitrary: ls h)
  case (Cons u us)
  then obtain ls1 h1 where one: "fill_unit b dev addr step counts u (ls, h) = Inr (ls1, h1)"
    "foldF (fill_unit b dev addr step counts) us (ls1, h1) = Inr (ls', h')" by (auto simp: bindF_eq_Inr)
  obtain r ws h2 where m: "mmio_memcpy b dev (unit_addr addr step u) 24 True False h = Inr (r, ws, h2)"
    using one(1) by (auto simp: fill_unit_def bindF_eq_Inr)
  then have "h1 = h2" "map list_res ls1 = map list_res ls"
    using one(1) by (auto simp: fill_unit_def Let_def bindF_eq_Inr dest!: store_unit_res split: if_splits)
  then show ?case using Cons.IH [OF one(2)] mmio_memcpy_acct [OF m Cons.prems(2)] by simp
qed simp

lemma alloc_lists_acct:
  assumes "alloc_lists counts is ls h = (r, ls', h')" and "acct x h (R + map_res ls)" and "set is \<subseteq> {..<length ls}"
    and "distinct is" and "x \<Longrightarrow> \<forall>i \<in> set is. pmus (ls ! i) = None"
  shows "acct x h' (R + map_res ls') \<and> length ls' = length ls"
  using assms
proof (induction "is" arbitrary: ls h)
  case (Cons i "is")
  have i: "i < length ls" "i \<notin> set is" using Cons.prems(3,4) by auto
  obtain rest where rest: "\<And>l. map_res (ls[i := l]) = rest + list_res l" "map_res ls = rest + list_res (ls ! i)"
    using sum_list_focus [OF i(1), of list_res] by (metis map_res_def)
  show ?case
  proof (cases "0 < counts ! i")
    case False
    then show ?thesis using Cons.IH [of ls h] Cons.prems by simp
  next
    case pos: True
    obtain q h1 where k: "kalloc KObj h = (q, h1)" by fastforce
    show ?thesis
    proof (cases q)
      case None
      then have "\<not> x" "acct False h1 ((R + rest) + list_res (ls ! i))"
        using acct_no_alloc [OF Cons.prems(2), of KObj h1] k rest(2) by (simp_all add: add_ac)
      moreover have "ls' = ls[i := (ls ! i)\<lparr>pmus := None\<rparr>]" "h' = h1" using Cons.prems(1) pos k None by simp_all
      ultimately show ?thesis using acct_lost rest(1) by (auto simp: list_res_def)
    next
      case (Some p)
      let ?l = "\<lparr>pmus = Some (p, replicate (counts ! i) zero_box), count = 0\<rparr>"
      have full: "acct x h1 ((R + map_res (ls[i := ?l])) + list_res (ls ! i))"
        using acct_alloc [OF Cons.prems(2), of KObj p h1] k Some rest by (simp add: list_res_def add_ac)
      have "x \<Longrightarrow> list_res (ls ! i) = {#}" using Cons.prems(5) by (simp add: list_res_def)
      then have a: "acct x h1 (R + map_res (ls[i := ?l]))" using acct_drop [OF full] by blast
      have n: "x \<Longrightarrow> \<forall>j \<in> set is. pmus (ls[i := ?l] ! j) = None" using Cons.prems(5) i(2) by (metis list.set_intros(2) nth_list_update_neq)
      show ?thesis using Cons.IH [of "ls[i := ?l]" h1] Cons.prems(1,3,4) pos k Some a n by simp
    qed
  qed
qed simp

lemma process_socket_acct:
  assumes "process_socket_discovery_table b dev socket addr d h = Inr (r, d', h')" and "acct x h (R + disc_res d)" and "disc_ok d"
    and "socket < num_sockets d" and "x \<Longrightarrow> socket_maps d ! socket = empty_map"
  shows "acct x h' (R + disc_res d') \<and> disc_ok d' \<and> num_sockets d' = num_sockets d \<and>
    (\<forall>s. s \<noteq> socket \<longrightarrow> socket_maps d' ! s = socket_maps d ! s)"
proof -
  obtain ret ws h1 where m: "mmio_memcpy b dev addr 24 True False h = Inr (ret, ws, h1)"
    using assms(1) by (auto simp: process_socket_discovery_table_def bindF_eq_Inr)
  have h1: "acct x h1 (R + disc_res d)" using mmio_memcpy_acct [OF m assms(2)] .
  show ?thesis
  proof (cases "ret = Ok0")
    case False
    then show ?thesis using assms(1,3) m h1 by (simp add: process_socket_discovery_table_def)
  next
    case ok: True
    let ?g = "global_pmu_of (table64 ws)"
    let ?step = "stride ?g * 8" and ?units = "[0..<unat (max_units ?g)]"
    let ?d = "\<lambda>ls. d\<lparr>global_pmus := (global_pmus d)[socket := ?g], socket_maps := (socket_maps d)[socket := ls]\<rparr>"
    have s: "socket < length (socket_maps d)" "length (socket_maps d ! socket) = MAX_BOX_TYPES" using assms(3,4) by (auto simp: disc_ok_def)
    obtain rest where r: "\<And>ls. sum_list (map map_res ((socket_maps d)[socket := ls])) = rest + map_res ls"
      "sum_list (map map_res (socket_maps d)) = rest + map_res (socket_maps d ! socket)"
      using sum_list_focus [OF s(1), of map_res] by metis
    let ?rest = "R + {#(KObj, d_ptr d), (KObj, gp_ptr d), (KObj, sm_ptr d)#} + rest"
    have rest: "R + disc_res (?d ls) = ?rest + map_res ls" "R + disc_res d = ?rest + map_res (socket_maps d ! socket)" for ls
      by (simp_all add: disc_res_def r)
    obtain cs h2 where c: "foldF (count_unit b dev addr ?step) ?units (replicate MAX_BOX_TYPES 0, h1) = Inr (cs, h2)"
      using assms(1) m ok by (auto simp: process_socket_discovery_table_def bindF_eq_Inr Let_def split: if_splits)
    have h2: "acct x h2 (?rest + map_res (socket_maps d ! socket))" using count_pass_acct [OF c h1] rest(2) by simp
    obtain ret2 ls h3 where l: "alloc_lists cs [0..<MAX_BOX_TYPES] (socket_maps d ! socket) h2 = (ret2, ls, h3)" by (metis prod_cases3)
    have h3: "acct x h3 (?rest + map_res ls)" "length ls = MAX_BOX_TYPES"
      using alloc_lists_acct [OF l h2] s(2) assms(5) by (auto simp: empty_map_def lessThan_atLeast0)
    have fin: "\<exists>ls'. d' = ?d ls' \<and> acct x h' (?rest + map_res ls') \<and> length ls' = MAX_BOX_TYPES"
    proof (cases ret2)
      case (Neg e)
      then show ?thesis using assms(1) m ok c l h3 by (auto simp: process_socket_discovery_table_def Let_def split: if_splits)
    next
      case Ok0
      then obtain ls' where f: "foldF (fill_unit b dev addr ?step cs) ?units (ls, h3) = Inr (ls', h')" "d' = ?d ls'"
        using assms(1) m ok c l by (auto simp: process_socket_discovery_table_def bindF_eq_Inr Let_def split: if_splits)
      then show ?thesis using fill_pass_acct [OF f(1) h3(1)] h3(2) by (metis length_map map_res_def)
    qed
    then obtain ls' where ls': "d' = ?d ls'" "acct x h' (?rest + map_res ls')" "length ls' = MAX_BOX_TYPES" by blast
    have "acct x h' (R + disc_res d')" unfolding ls'(1) rest(1) by (rule ls'(2))
    then show ?thesis
      using ls'(1,3) assms(3) set_update_subset_insert [of "socket_maps d" socket ls'] by (auto simp: disc_ok_def)
  qed
qed

text \<open>The sockets whose tables the walk over the devices may visit, in order.\<close>

definition vsec_at :: "pci_dev \<Rightarrow> u32 \<Rightarrow> pcm_vsec" where
  "vsec_at dev off = vsec_of (dword_pair (config_dword dev off) (config_dword dev (off + 4)))
     (dword_pair (config_dword dev (off + 8)) (config_dword dev (off + 12)))"

definition dev_tables :: "pci_dev \<Rightarrow> u32 list \<Rightarrow> int list" where
  "dev_tables dev offs = map (\<lambda>_. dev_node dev) (filter (\<lambda>off. match_function (vsec_at dev off)) offs)"

definition tables :: "pci_dev list \<Rightarrow> int list" where
  "tables devs = concat (map (\<lambda>dev. if vendor dev \<noteq> PCM_INTEL_PCI_VENDOR_ID then [] else dev_tables dev (dvsec_offsets dev)) devs)"

text \<open>What holds while the tables \<open>ns\<close> are still to come.\<close>

definition disc_inv :: "bool \<Rightarrow> (kres \<times> nat) multiset \<Rightarrow> int list \<Rightarrow> uncore_pmu_discovery \<times> kheap \<Rightarrow> bool" where
  "disc_inv x R ns = (\<lambda>(d, h). acct x h (R + disc_res d) \<and> disc_ok d \<and>
     (x \<longrightarrow> distinct ns \<and> (\<forall>s \<in> set ns. 0 \<le> s \<and> s < int (num_sockets d) \<longrightarrow> socket_maps d ! nat s = empty_map)))"

lemma disc_inv_later: "disc_inv x R (ns @ ms) s \<Longrightarrow> disc_inv x R ms s"
  by (auto simp: disc_inv_def)

lemma callback_inv:
  assumes "process_dvsec_callback b mem dev bar vsec s = Inr s'" and "disc_inv x R (dev_node dev # ns) s"
  shows "disc_inv x R ns s'"
proof -
  obtain d h where s: "s = (d, h)" by (cases s)
  let ?n = "dev_node dev"
  have a: "acct x h (R + disc_res d)" "disc_ok d" using assms(2) by (simp_all add: s disc_inv_def)
  show ?thesis
  proof (cases "?n < 0 \<or> int (num_sockets d) \<le> ?n")
    case True
    then show ?thesis using assms by (auto simp: s process_dvsec_callback_def disc_inv_def)
  next
    case False
    then obtain r d' h' where p: "process_socket_discovery_table b mem (nat ?n) bar d h = Inr (r, d', h')" "s' = (d', h')"
      using assms(1) by (auto simp: s process_dvsec_callback_def bindF_eq_Inr)
    have q: "nat ?n < num_sockets d" "x \<Longrightarrow> socket_maps d ! nat ?n = empty_map"
      using False assms(2) by (auto simp: s disc_inv_def)
    note a' = process_socket_acct [OF p(1) a q]
    have keep: "socket_maps d' ! nat m = empty_map" if "x" "m \<in> set ns" "0 \<le> m" "m < int (num_sockets d)" for m
    proof -
      have "m \<noteq> ?n" "socket_maps d ! nat m = empty_map" using that assms(2) by (auto simp: s disc_inv_def)
      then show ?thesis using a' that(3) False by (simp add: eq_nat_nat_iff)
    qed
    show ?thesis using a' keep assms(2) by (simp add: s p(2) disc_inv_def)
  qed
qed

lemma walk_inv:
  "walk_dvsec match_function (process_dvsec_callback b mem) dev offs s = Inr s' \<Longrightarrow> disc_inv x R (dev_tables dev offs @ ns) s \<Longrightarrow>
   disc_inv x R ns s'"
proof (induction offs arbitrary: s)
  case Nil
  then show ?case by (simp add: dev_tables_def)
next
  case (Cons off offs)
  let ?v = "vsec_at dev off"
  note later = disc_inv_later [OF Cons.prems(2)]
  show ?case
  proof (cases "match_function ?v")
    case False
    then have "disc_inv x R (dev_tables dev offs @ ns) s" using Cons.prems(2) by (simp add: dev_tables_def)
    then show ?thesis using Cons.IH Cons.prems(1) False later by (auto simp: Let_def vsec_at_def split: if_splits)
  next
    case True
    then have i: "disc_inv x R (dev_node dev # dev_tables dev offs @ ns) s" using Cons.prems(2) by (simp add: dev_tables_def)
    consider "s' = s" | s1 where "process_dvsec_callback b mem dev (resource_start dev (tBIR ?v) + Address ?v) ?v s = Inr s1"
      "walk_dvsec match_function (process_dvsec_callback b mem) dev offs s1 = Inr s'"
      using Cons.prems(1) True by (auto simp: Let_def vsec_at_def bindF_eq_Inr split: if_splits)
    then show ?thesis
    proof cases
      case 1
      then show ?thesis using later by simp
    next
      case (2 s1)
      then show ?thesis using Cons.IH callback_inv [OF 2(1) i] by blast
    qed
  qed
qed

lemma devices_inv:
  "pcm_process_dvsec match_function (process_dvsec_callback b mem) devs s = Inr s' \<Longrightarrow> disc_inv x R (tables devs) s \<Longrightarrow> disc_inv x R [] s'"
proof (induction devs arbitrary: s)
  case Nil
  then show ?case by (simp add: pcm_process_dvsec_def tables_def)
next
  case (Cons dev devs)
  show ?case
  proof (cases "vendor dev = PCM_INTEL_PCI_VENDOR_ID")
    case False
    then show ?thesis using Cons by (simp add: pcm_process_dvsec_def tables_def)
  next
    case True
    then obtain s1 where w: "walk_dvsec match_function (process_dvsec_callback b mem) dev (dvsec_offsets dev) s = Inr s1"
      "pcm_process_dvsec match_function (process_dvsec_callback b mem) devs s1 = Inr s'"
      using Cons.prems(1) by (auto simp: pcm_process_dvsec_def bindF_eq_Inr)
    have "disc_inv x R (dev_tables dev (dvsec_offsets dev) @ tables devs) s" using Cons.prems(2) True by (simp add: tables_def)
    then show ?thesis using Cons.IH [OF w(2)] walk_inv [OF w(1)] by blast
  qed
qed

lemma release_two:
  assumes "acct x h (R + {#(k, p)#} + {#(l, q)#})"
  shows "\<exists>h1 h2. krelease l q h = Inr h1 \<and> krelease k p h1 = Inr h2 \<and> acct x h2 R"
  using acct_release [OF assms] acct_release by blast

lemma sum_list_empty: "sum_list (replicate n {#}) = {#}"
  by (induction n) simp_all

lemma discovery_create_acct:
  assumes "uncore_pmu_discovery_create b mem devs nodes h = Inr (r, h')" and "acct x h R" and "x \<Longrightarrow> distinct (tables devs)"
  shows "case r of Inl e \<Rightarrow> acct x h' R | Inr d \<Rightarrow> acct x h' (R + disc_res d) \<and> disc_ok d"
proof -
  obtain q1 h1 where k1: "kalloc KObj h = (q1, h1)" by fastforce
  show ?thesis
  proof (cases q1)
    case None
    then show ?thesis using assms(1) acct_no_alloc [OF assms(2), of KObj h1] k1 by (auto simp: uncore_pmu_discovery_create_def)
  next
    case (Some dp)
    then have a1: "acct x h1 (R + {#(KObj, dp)#})" using acct_alloc [OF assms(2)] k1 by simp
    obtain q2 h2 where k2: "kalloc KObj h1 = (q2, h2)" by fastforce
    show ?thesis
    proof (cases q2)
      case None
      then have "\<not> x" "acct False h2 (R + {#(KObj, dp)#})" using acct_no_alloc [OF a1] k2 by auto
      then show ?thesis
        using assms(1) k1 k2 Some None acct_release [of False h2 R KObj dp] by (auto simp: uncore_pmu_discovery_create_def bindF_eq_Inr)
    next
      case sp: (Some sp)
      then have a2: "acct x h2 (R + {#(KObj, dp)#} + {#(KObj, sp)#})" using acct_alloc [OF a1] k2 by simp
      obtain q3 h3 where k3: "kalloc KObj h2 = (q3, h3)" by fastforce
      show ?thesis
      proof (cases q3)
        case None
        then have "\<not> x" "acct False h3 (R + {#(KObj, dp)#} + {#(KObj, sp)#})" using acct_no_alloc [OF a2] k3 by auto
        then show ?thesis
          using assms(1) k1 k2 k3 Some sp None release_two [of False h3 R]
          by (fastforce simp: uncore_pmu_discovery_create_def bindF_eq_Inr)
      next
        case gp: (Some gp)
        let ?d = "\<lparr>d_ptr = dp, sm_ptr = sp, socket_maps = replicate nodes empty_map, num_sockets = nodes, gp_ptr = gp,
          global_pmus = replicate nodes zero_global\<rparr>"
        obtain d' where p: "pcm_process_dvsec match_function (process_dvsec_callback b mem) devs (?d, h3) = Inr (d', h')" "r = Inr d'"
          using assms(1) k1 k2 k3 Some sp gp by (auto simp: uncore_pmu_discovery_create_def bindF_eq_Inr)
        have none: "sum_list (map map_res (replicate nodes empty_map)) = {#}"
          by (simp add: map_res_def empty_map_def list_res_def sum_list_empty)
        have "acct x h3 (R + {#(KObj, dp)#} + {#(KObj, sp)#} + {#(KObj, gp)#})" using acct_alloc [OF a2] k3 gp by simp
        then have "acct x h3 (R + disc_res ?d)" using none by (simp add: disc_res_def add_mset_commute)
        then have "disc_inv x R (tables devs) (?d, h3)" using assms(3) by (auto simp: disc_inv_def disc_ok_def empty_map_def)
        from devices_inv [OF p(1) this] show ?thesis by (simp add: p(2) disc_inv_def)
      qed
    qed
  qed
qed

section \<open>The life cycle\<close>

definition uncore_res :: "uncore_pmus \<Rightarrow> (kres \<times> nat) multiset" where
  "uncore_res g = imcs_res g + (case discovery g of None \<Rightarrow> {#} | Some d \<Rightarrow> disc_res d)"

definition uncore_ok :: "uncore_pmus \<Rightarrow> bool" where
  "uncore_ok g \<longleftrightarrow> (\<exists>m. boxes_inv m g) \<and> (case discovery g of None \<Rightarrow> True | Some d \<Rightarrow> disc_ok d)"

text \<open>The PMUs are where teardown looks for them.\<close>

definition no_gaps :: "uncore_pmus \<Rightarrow> bool" where
  "no_gaps g \<longleftrightarrow> (\<forall>i. num_imcs g \<le> i \<and> i < MAX_IMC_PMUS \<longrightarrow> imcs g ! i = None)"

lemma uncore_destroy_acct:
  assumes "acct x h (R + uncore_res g)" and "uncore_ok g" and "x \<Longrightarrow> no_gaps g"
  shows "\<exists>g' h'. destroy_g_uncore_pmus g h = Inr (g', h') \<and> num_imcs g' = 0 \<and> discovery g' = None \<and> acct x h' R"
proof -
  let ?disc = "case discovery g of None \<Rightarrow> {#} | Some d \<Rightarrow> disc_res d"
  let ?rest = "sum_list (map pmu_res (drop (num_imcs g) (imcs g)))"
  obtain m where m: "boxes_inv m g" using assms(2) by (auto simp: uncore_ok_def)
  have "acct x h ((R + ?disc) + imcs_res g)" using assms(1) by (simp add: uncore_res_def add_ac)
  then obtain h1 where h1: "foldF destroy_imc [0..<num_imcs g] (g, h) =
      Inr (g\<lparr>imcs := replicate (num_imcs g) None @ drop (num_imcs g) (imcs g)\<rparr>, h1)" "acct x h1 ((R + ?disc) + ?rest)"
    using destroy_imcs_acct m by (fastforce simp: boxes_inv_def)
  have "?rest = {#}" if x
  proof -
    have "map pmu_res (drop (num_imcs g) (imcs g)) = replicate (MAX_IMC_PMUS - num_imcs g) {#}"
      using assms(3) [OF that] m by (auto simp: no_gaps_def boxes_inv_def imcs_ok_def pmu_res_def intro!: nth_equalityI)
    then show ?thesis by (simp add: sum_list_empty)
  qed
  then have a: "acct x h1 (R + ?disc)" using acct_drop [OF h1(2)] by blast
  show ?thesis
  proof (cases "discovery g")
    case None
    then show ?thesis using h1(1) a by (simp add: destroy_g_uncore_pmus_def Let_def)
  next
    case (Some d)
    then have "acct x h1 (R + disc_res d)" "disc_ok d" using a assms(2) by (simp_all add: uncore_ok_def)
    from discoveries.destroy_acct [OF this] show ?thesis using h1(1) Some by (auto simp: destroy_g_uncore_pmus_def Let_def)
  qed
qed

lemma uncore_init_acct:
  assumes "init_g_uncore_pmus b devs nodes g dev h = Inr (r, g1, dev1, h1)" and "acct x h R" and "x \<Longrightarrow> distinct (tables devs)"
  shows "acct x h1 (R + uncore_res g1) \<and> uncore_ok g1 \<and>
    (x \<and> r = Ok0 \<and> (\<forall>d. discovery g1 = Some d \<longrightarrow> (\<forall>pos < get_num_boxes d SPR_IMC_BOX_TYPE SOCKET_ID.
        get_box_access_type d SPR_IMC_BOX_TYPE SOCKET_ID pos = Inr ACCESS_TYPE_MMIO)) \<longrightarrow> no_gaps g1)"
proof -
  let ?g = "\<lambda>d. g\<lparr>num_imcs := 0, imcs := replicate MAX_IMC_PMUS None, discovery := d\<rparr>"
  have e: "imcs_res (?g d) = {#}" "boxes_inv 0 (?g d)" for d
    by (auto simp: imcs_res_def pmu_res_def sum_list_empty boxes_inv_def imcs_ok_def pmu_ok_def)
  obtain q hd where c: "uncore_pmu_discovery_create b dev devs nodes h = Inr (q, hd)"
    using assms(1) by (auto simp: init_g_uncore_pmus_def Let_def bindF_eq_Inr)
  note disc = discovery_create_acct [OF c assms(2,3)]
  show ?thesis
  proof (cases q)
    case (Inl e)
    then have "g1 = ?g None" "h1 = hd" using assms(1) c by (auto simp: init_g_uncore_pmus_def Let_def)
    then show ?thesis using disc Inl e(1) [of None] e(2) [of None] by (auto simp: uncore_res_def uncore_ok_def no_gaps_def)
  next
    case (Inr d)
    let ?n = "get_num_boxes d SPR_IMC_BOX_TYPE SOCKET_ID"
    obtain ok where i: "init_boxes d [0..<?n] (?g (Some d)) hd = Inr (ok, g1, h1)" "r = Ok0 \<Longrightarrow> ok"
      using assms(1) c Inr by (auto simp: init_g_uncore_pmus_def Let_def bindF_eq_Inr split: if_splits)
    have d: "disc_ok d" "acct x hd (R + disc_res d + imcs_res (?g (Some d)))" using disc Inr e(1) by simp_all
    note inv = init_boxes_inv [OF i(1) _ d(2) e(2)]
    obtain m where m: "discovery g1 = Some d" "boxes_inv m g1" "ok \<Longrightarrow> m = ?n" using inv by auto
    have "acct x h1 (R + uncore_res g1)" using inv m(1) by (simp add: uncore_res_def add_ac)
    moreover have "uncore_ok g1" using m d(1) by (auto simp: uncore_ok_def)
    moreover have "no_gaps g1" if "x" "r = Ok0" "\<forall>pos < ?n. get_box_access_type d SPR_IMC_BOX_TYPE SOCKET_ID pos = Inr ACCESS_TYPE_MMIO"
    proof -
      have "num_imcs g1 = ?n" using inv i(2) that by simp
      then show ?thesis using m(2,3) i(2) that(2) by (simp add: no_gaps_def boxes_inv_def)
    qed
    ultimately show ?thesis using m(1) by auto
  qed
qed

text \<open>
  C16. Teardown fits initialisation: whatever \<open>init_g_uncore_pmus\<close> returned, with success or an error and
  with any pattern of failing allocations, \<open>destroy_g_uncore_pmus\<close> afterwards never releases an object twice
  or one that is not live, and never touches what was on the heap before. If initialisation succeeded,
  no allocation failed, every socket has one discovery table and all boxes are memory mapped, then
  nothing is left behind either.
\<close>

theorem uncore_life_cycle:
  assumes "heap_wf h" and "init_g_uncore_pmus b devs nodes g dev h = Inr (r, g1, dev1, h1)"
  shows "\<exists>g2 h2. destroy_g_uncore_pmus g1 h1 = Inr (g2, h2) \<and> num_imcs g2 = 0 \<and> discovery g2 = None \<and> live h \<subseteq> live h2 \<and>
    (r = Ok0 \<and> (\<forall>k. alloc_ok h k) \<and> distinct (tables devs) \<and>
     (\<forall>d. discovery g1 = Some d \<longrightarrow> (\<forall>pos < get_num_boxes d SPR_IMC_BOX_TYPE SOCKET_ID.
        get_box_access_type d SPR_IMC_BOX_TYPE SOCKET_ID pos = Inr ACCESS_TYPE_MMIO)) \<longrightarrow> live h2 = live h)"
proof -
  let ?mmio = "\<lambda>d. \<forall>pos < get_num_boxes d SPR_IMC_BOX_TYPE SOCKET_ID. get_box_access_type d SPR_IMC_BOX_TYPE SOCKET_ID pos = Inr ACCESS_TYPE_MMIO"
  define x where "x \<longleftrightarrow> r = Ok0 \<and> (\<forall>k. alloc_ok h k) \<and> distinct (tables devs) \<and> (\<forall>d. discovery g1 = Some d \<longrightarrow> ?mmio d)"
  have "acct x h (held h)" using acct_weaken [OF acct_start [OF assms(1)], of x] by (simp add: x_def)
  from uncore_init_acct [OF assms(2) this] have "acct x h1 (held h + uncore_res g1)" "uncore_ok g1" "x \<Longrightarrow> no_gaps g1"
    by (simp_all add: x_def)
  from uncore_destroy_acct [OF this] obtain g2 h2 where
    "destroy_g_uncore_pmus g1 h1 = Inr (g2, h2)" "num_imcs g2 = 0" "discovery g2 = None" "acct x h2 (held h)" by blast
  then show ?thesis using acct_live [OF _ assms(1)] by (intro exI [of _ g2] exI [of _ h2]) (simp flip: x_def)
qed

section \<open>Witnesses\<close>

text \<open>One Intel device whose discovery table at \<open>0x1000\<close> lists one memory-mapped controller at \<open>0x2000\<close>.\<close>

definition mem_life :: "u64 \<Rightarrow> u32" where
  "mem_life a = (if a = 0x1000 then 0x10300 else if a = 0x101C then 0x40000000 else if a = 0x1020 then 0x2000
     else if a = 0x1028 then 6 else 0)"

definition dev_life :: pci_dev where
  "dev_life = \<lparr>vendor = 0x8086, dvsec_offsets = [0x100], config_dword = (\<lambda>a. if a = 0x100 then 0x23 else if a = 0x108 then 1 else 0),
     resource_start = (\<lambda>_. 0x1000), dev_node = 0\<rparr>"

definition g_life :: uncore_pmus where
  "g_life = \<lparr>imcs = [], num_imcs = 0, discovery = None\<rparr>"

definition life_ok :: "(ret \<times> uncore_pmus \<times> (u64 \<Rightarrow> u32) \<times> kheap) may \<Rightarrow> bool" where
  "life_ok x = (case x of Inl e \<Rightarrow> False | Inr (r, g1, dev1, h1) \<Rightarrow> r = Ok0 \<and> num_imcs g1 = 1 \<and>
     (case discovery g1 of None \<Rightarrow> False | Some d \<Rightarrow> list_all (\<lambda>pos. get_box_access_type d SPR_IMC_BOX_TYPE SOCKET_ID pos = Inr ACCESS_TYPE_MMIO)
        [0..<get_num_boxes d SPR_IMC_BOX_TYPE SOCKET_ID]))"

lemma life_init: "life_ok (init_g_uncore_pmus mem_bus [dev_life] 1 g_life mem_life heap_full)"
  by code_simp

lemma life_tables: "distinct (tables [dev_life])"
  by (simp add: tables_def dev_tables_def dev_life_def)

theorem uncore_life_cycle_witness:
  "\<exists>g1 dev1 h1 g2 h2. init_g_uncore_pmus mem_bus [dev_life] 1 g_life mem_life heap_full = Inr (Ok0, g1, dev1, h1) \<and> num_imcs g1 = 1 \<and>
     destroy_g_uncore_pmus g1 h1 = Inr (g2, h2) \<and> live h2 = {}"
proof -
  obtain g1 dev1 h1 d where i: "init_g_uncore_pmus mem_bus [dev_life] 1 g_life mem_life heap_full = Inr (Ok0, g1, dev1, h1)"
    "num_imcs g1 = 1" "discovery g1 = Some d"
    "\<forall>pos < get_num_boxes d SPR_IMC_BOX_TYPE SOCKET_ID. get_box_access_type d SPR_IMC_BOX_TYPE SOCKET_ID pos = Inr ACCESS_TYPE_MMIO"
    using life_init unfolding life_ok_def by (auto simp: list_all_iff split: sum.splits prod.splits option.splits)
  have "\<forall>k. alloc_ok heap_full k" "live heap_full = {}" by (simp_all add: heap_full_def)
  then show ?thesis using uncore_life_cycle [OF heap_full_wf i(1)] i life_tables by auto
qed

end
