(* ===== verification/Module_Life.thy ===== *)
theory Module_Life
  imports System Uncore_Life
begin

text \<open>
  Memory over the whole life of the module, in every configuration: the strict mode, the IMC counters
  and RDT included. Everything the module allocates (ring buffers, RMID table, uncore registers,
  discovery lists) is accounted for from \<open>hrp_pmc_init\<close> through any run of the threads, the commands and the
  hardware to \<open>hrp_pmc_exit\<close> (\<open>src/src/hrperf.c\<close>). Only loading and removing the module allocate and
  release; what runs in between leaves all pointers alone and frees nothing.
\<close>

section \<open>Operations that free nothing\<close>

named_theorems keeps \<open>operations that cannot fault by freeing wrongly\<close>

definition no_free :: "'a may \<Rightarrow> bool" where
  "no_free m \<longleftrightarrow> m \<noteq> Inl BadFree"

lemma no_free_simps [simp]: "no_free (Inr x)" "no_free (Inl e) \<longleftrightarrow> e \<noteq> BadFree"
  by (simp_all add: no_free_def)

lemma no_free_bind [keeps]: "no_free m \<Longrightarrow> (\<And>x. no_free (f x)) \<Longrightarrow> no_free (bindF m f)"
  by (cases m) (auto simp: no_free_def)

lemma no_free_fold [keeps]: "(\<And>i s. no_free (f i s)) \<Longrightarrow> no_free (foldF f is s)"
  by (induction "is" arbitrary: s) (auto intro: no_free_bind)

lemma no_free_reg [keeps]: "no_free (hw_reg_write b r v d)" "no_free (hw_reg_read b d r)"
  by (auto simp: hw_reg_write_def hw_reg_read_def mmio_reg32_write_def mmio_reg64_write_def mmio_reg32_read_def mmio_reg64_read_def
      mmio_write32_def mmio_write64_def mmio_read32_def mmio_read64_def intro!: no_free_bind split: option.splits hw_reg_ops.splits)

lemma no_free_pmu [keeps]: "no_free (imc_at g i)" "no_free (uncore_pmu_freeze b p e d)" "no_free (uncore_pmu_unfreeze b p e d)"
  by (auto simp: imc_at_def uncore_pmu_freeze_def uncore_pmu_unfreeze_def if_valid_def uncore_pmu_is_valid_def
      intro!: keeps split: option.splits)

lemma no_free_imc [keeps]:
  "no_free (freeze_all_counters b g d)" "no_free (unfreeze_all_counters b g d)" "no_free (get_imc_reads b d g)" "no_free (get_imc_writes b d g)"
  by (auto simp: freeze_all_counters_def unfreeze_all_counters_def get_imc_reads_def get_imc_writes_def get_mc_counter_def
      intro!: keeps split: option.splits)

lemma no_free_table [keeps]: "no_free (table_get r i)" "no_free (table_put i y r)" "no_free (map_put c v r)"
  "no_free (mbm_get_rmid_info_for_core g core)" "no_free (mbm_guard_enter g)"
  by (auto simp: table_get_def table_put_def map_put_def mbm_get_rmid_info_for_core_def mbm_guard_enter_def Let_def
      intro!: keeps split: option.splits)

lemma no_free_reads [keeps]: "no_free (read_imc cfg ke cpu t s)" "no_free (read_rdt cfg pe cpu t s)"
proof -
  show "no_free (read_imc cfg ke cpu t s)" by (auto simp: read_imc_def intro!: keeps)
  show "no_free (read_rdt cfg pe cpu t s)" unfolding read_rdt_def Let_def case_prod_beta
    by (auto intro!: keeps split: option.split)
qed

lemma no_free_enqueue [keeps]: "no_free (enqueue cfg rb e)"
  by (simp add: enqueue_def Let_def)

lemma no_free_poll_func [keeps]: "no_free (hrperf_poller_func cfg ke pe ts cpu s)"
  unfolding hrperf_poller_func_def Let_def case_prod_beta by (auto intro!: keeps)

lemma no_free_lock [keeps]: "no_free (lock_profile cfg s)"
  by (simp add: lock_profile_def)

lemma no_free_poll [keeps]: "no_free (smp_poll_pmus cfg ke pe cur s)"
  unfolding smp_poll_pmus_def Let_def by (auto intro!: keeps)

lemma no_free_log [keeps]: "no_free (log_for_all_cpus cfg ke s)"
  by (auto simp: log_for_all_cpus_def log_cpu_def log_and_clear_def write_slots_def Let_def intro!: keeps split: option.splits)

lemma no_free_steps [keeps]: "no_free (poller_step cfg ke pe s)" "no_free (logger_step cfg ke s)"
  by (auto simp: poller_step_def logger_step_def Let_def intro!: keeps split: option.splits pc.splits)

lemma no_free_wait [keeps]: "no_free (wait_step cfg ke e s)"
  by (cases e) (simp_all add: wait_step_def no_free_steps)

lemma no_free_stop [keeps]: "no_free (kthread_stop_poller cfg ke es s)" "no_free (kthread_stop_logger cfg ke es s)"
  by (auto simp: kthread_stop_poller_def kthread_stop_logger_def intro!: keeps)

lemma no_free_deallocate [keeps]: "no_free (mbm_rmid_deallocate_all g m)"
  by (auto simp: mbm_rmid_deallocate_all_def release_slot_def intro!: keeps)

section \<open>Operations that leave all pointers alone\<close>

definition table_ptr :: "mbm_manager \<Rightarrow> nat option" where
  "table_ptr g = map_option fst (rmid_table (rmid_mgr g))"

definition same_ptrs :: "('f, 'd) hrperf \<Rightarrow> ('f, 'd) hrperf \<Rightarrow> bool" where
  "same_ptrs s s' \<longleftrightarrow> heap s' = heap s \<and> hrp_selected_cpus s' = hrp_selected_cpus s \<and> g_uncore_pmus s' = g_uncore_pmus s \<and>
     table_ptr (g_mbm_mgr s') = table_ptr (g_mbm_mgr s) \<and>
     (\<forall>c. buffer (per_cpu_buffer s' c) = buffer (per_cpu_buffer s c) \<and> pages (per_cpu_buffer s' c) = pages (per_cpu_buffer s c) \<and>
        num_pages (per_cpu_buffer s' c) = num_pages (per_cpu_buffer s c))"

lemma same_refl [simp]: "same_ptrs s s"
  by (simp add: same_ptrs_def)

lemma same_trans: "same_ptrs s s' \<Longrightarrow> same_ptrs s' s'' \<Longrightarrow> same_ptrs s s''"
  by (simp add: same_ptrs_def)

lemma same_fold:
  assumes "\<And>i s s'. f i s = Inr s' \<Longrightarrow> same_ptrs s s'"
  shows "foldF f is s = Inr s' \<Longrightarrow> same_ptrs s s'"
proof (induction "is" arbitrary: s)
  case (Cons i "is")
  then obtain s1 where "f i s = Inr s1" "foldF f is s1 = Inr s'" by (auto simp: bindF_eq_Inr)
  then show ?case using assms Cons.IH same_trans by blast
qed simp

lemma same_enqueue:
  "enqueue cfg (per_cpu_buffer s cpu) e = Inr rb \<Longrightarrow> same_ptrs s (s\<lparr>per_cpu_buffer := (per_cpu_buffer s)(cpu := rb)\<rparr>)"
  by (auto simp: enqueue_def same_ptrs_def Let_def split: if_splits)

lemma same_read_imc: "read_imc cfg ke cpu t s = Inr (t', s') \<Longrightarrow> same_ptrs s s'"
  by (auto simp: read_imc_def same_ptrs_def bindF_eq_Inr split: if_splits)

lemma same_mach [simp]: "same_ptrs s (s'\<lparr>mach := m\<rparr>) = same_ptrs s s'"
  by (simp add: same_ptrs_def)

lemma same_read_rdt:
  assumes "read_rdt cfg pe cpu t s = Inr (t', s')"
  shows "same_ptrs s s'"
proof -
  have "s' = s \<or> (\<exists>m. s' = s\<lparr>mach := m\<rparr>)"
    using assms unfolding read_rdt_def Let_def case_prod_beta
    by (auto simp: bindF_eq_Inr split: if_split_asm option.split_asm)
  then show ?thesis by auto
qed

lemma same_flags [simp]:
  "same_ptrs s (preempt_disable c s') = same_ptrs s s'" "same_ptrs s (preempt_enable c s') = same_ptrs s s'"
  "same_ptrs s (unlock_profile cfg s') = same_ptrs s s'" "same_ptrs (preempt_disable c s) s' = same_ptrs s s'"
  by (simp_all add: preempt_disable_def preempt_enable_def unlock_profile_def same_ptrs_def)

lemma same_lock: "lock_profile cfg s = Inr s' \<Longrightarrow> same_ptrs s s'"
  by (auto simp: lock_profile_def same_ptrs_def split: if_splits)

lemma same_poll_func:
  assumes "hrperf_poller_func cfg ke pe ts cpu s = Inr s'"
  shows "same_ptrs s s'"
proof (cases "HRP_STRICT_POLLING_SYNC cfg \<and> \<not> p_sees_start pe cpu")
  case True
  then show ?thesis using assms by (auto simp: hrperf_poller_func_def)
next
  case False
  let ?s = "if HRP_STRICT_POLLING_SYNC cfg then preempt_disable cpu s else s"
  obtain t1 s1 t2 s2 where r: "read_imc cfg ke cpu (read_core_counters cpu ts (mach ?s) (p_junk pe cpu)) ?s = Inr (t1, s1)"
    "read_rdt cfg pe cpu t1 s1 = Inr (t2, s2)"
    using assms False unfolding hrperf_poller_func_def Let_def by (auto simp: bindF_eq_Inr split: if_splits)
  let ?s3 = "if HRP_STRICT_POLLING_SYNC cfg then preempt_enable cpu s2 else s2"
  obtain rb where e: "enqueue cfg (per_cpu_buffer ?s3 cpu) \<lparr>cpu_id = word_of_nat cpu, tick = t2\<rparr> = Inr rb"
    "s' = ?s3\<lparr>per_cpu_buffer := (per_cpu_buffer ?s3)(cpu := rb)\<rparr>"
    using assms unfolding hrperf_poller_func_def Let_def if_not_P [OF False] r bindF_simps prod.case bindF_eq_Inr by auto
  have "same_ptrs s ?s" "same_ptrs s2 ?s3" by simp_all
  then show ?thesis using same_read_imc [OF r(1)] same_read_rdt [OF r(2)] same_enqueue [OF e(1)] e(2) by (metis same_trans)
qed

lemma same_poll:
  assumes "smp_poll_pmus cfg ke pe cur s = Inr s'"
  shows "same_ptrs s s'"
proof -
  obtain s1 where s1: "lock_profile cfg s = Inr s1" using assms by (auto simp: smp_poll_pmus_def bindF_eq_Inr)
  have f: "same_ptrs a b" if "foldF (hrperf_poller_func cfg ke pe ts) cs a = Inr b" for ts cs and a b :: "('a, 'b) hrperf"
    using same_fold [OF same_poll_func that] .
  show ?thesis
    using assms s1 same_lock [OF s1] unfolding smp_poll_pmus_def Let_def
    by (auto simp: bindF_eq_Inr dest!: f same_poll_func intro: same_trans split: if_splits) (meson same_trans)
qed

lemma same_log:
  assumes "log_for_all_cpus cfg ke s = Inr s'"
  shows "same_ptrs s s'"
proof -
  have "same_ptrs a b" if "log_cpu cfg ke c a = Inr b" for c and a b :: "('a, 'b) hrperf"
    using that by (auto simp: log_cpu_def log_and_clear_def same_ptrs_def Let_def bindF_eq_Inr split: if_splits)
  from same_fold [where f = "log_cpu cfg ke", OF this] show ?thesis
    using assms by (auto simp: log_for_all_cpus_def bindF_eq_Inr dest!: same_lock intro: same_trans)
qed

lemma same_thread [simp]:
  "same_ptrs s (s'\<lparr>poller_thread := p\<rparr>) = same_ptrs s s'" "same_ptrs s (s'\<lparr>logger_thread := l\<rparr>) = same_ptrs s s'"
  "same_ptrs (s\<lparr>poller_thread := p\<rparr>) s' = same_ptrs s s'" "same_ptrs (s\<lparr>logger_thread := l\<rparr>) s' = same_ptrs s s'"
  "same_ptrs s (s'\<lparr>hrperf_running := b\<rparr>) = same_ptrs s s'" "same_ptrs s (s'\<lparr>cycles_per_us := w\<rparr>) = same_ptrs s s'"
  by (simp_all add: same_ptrs_def)

lemma same_steps: "poller_step cfg ke pe s = Inr s' \<Longrightarrow> same_ptrs s s'" "logger_step cfg ke s = Inr s' \<Longrightarrow> same_ptrs s s'"
  by (auto simp: poller_step_def logger_step_def Let_def bindF_eq_Inr dest: same_poll same_log split: option.splits pc.splits if_splits)

lemma same_wait: "wait_step cfg ke e s = Inr s' \<Longrightarrow> same_ptrs s s'"
  by (cases e) (auto simp: wait_step_def dest: same_steps)

lemma same_stop:
  "kthread_stop_poller cfg ke es s = Inr s' \<Longrightarrow> same_ptrs s s'" "kthread_stop_logger cfg ke es s = Inr s' \<Longrightarrow> same_ptrs s s'"
  using same_fold [where f = "wait_step cfg ke", OF same_wait]
  by (fastforce simp: kthread_stop_poller_def kthread_stop_logger_def bindF_eq_Inr split: if_splits)+

lemma table_put_ptr: "table_put i y r = Inr r' \<Longrightarrow> map_option fst (rmid_table r') = map_option fst (rmid_table r)"
  by (auto simp: table_put_def split: option.splits if_splits)

lemma same_set_rmid:
  assumes "mbm_set_rmid_for_core core r (g_mbm_mgr s) m = Inr (g, m')"
  shows "same_ptrs s (s\<lparr>g_mbm_mgr := g, mach := m'\<rparr>)"
  using assms
  by (auto simp: mbm_set_rmid_for_core_def Let_def bindF_eq_Inr same_ptrs_def table_ptr_def dest!: table_put_ptr split: option.splits)

lemma same_ops:
  "instructed_poll_op cfg ke pe cur s = Inr s' \<Longrightarrow> same_ptrs s s'" "instructed_log_op cfg ke s = Inr s' \<Longrightarrow> same_ptrs s s'"
  "instructed_poll_and_log cfg ke pe cur s = Inr s' \<Longrightarrow> same_ptrs s s'"
  by (auto simp: instructed_poll_op_def instructed_log_op_def instructed_poll_and_log_def bindF_eq_Inr
      dest!: same_poll same_log intro: same_trans)

lemma reply_state: "reply ok bs s = Inr (r, out, s') \<Longrightarrow> s' = s"
  by (auto simp: reply_def split: if_splits)

lemma same_instructed:
  assumes "no_reply (enqueue_instructed_profile_op f s) = Inr (r, out, s')" and "\<And>b. f s = Inr b \<Longrightarrow> same_ptrs s b"
  shows "same_ptrs s s'"
  using assms by (auto simp: no_reply_def enqueue_instructed_profile_op_def bindF_eq_Inr split: if_splits)

lemmas same_cmds =
  same_instructed [where f = "instructed_poll_op cfg ke pe cur" for cfg ke pe cur, OF _ same_ops(1)]
  same_instructed [where f = "instructed_log_op cfg ke" for cfg ke, OF _ same_ops(2)]
  same_instructed [where f = "instructed_poll_and_log cfg ke pe cur" for cfg ke pe cur, OF _ same_ops(3)]

lemma same_ioctl: "hrperf_ioctl cfg ke ie cmd s = Inr (r, out, s') \<Longrightarrow> same_ptrs s s'"
  unfolding hrperf_ioctl_def Let_def
  by (auto simp: bindF_eq_Inr split: if_splits dest!: reply_state same_set_rmid same_cmds)

lemma same_sys_run: "sys_run cfg ke s es s' \<Longrightarrow> same_ptrs s s'"
proof (induction rule: sys_run.induct)
  case (step es s' es' s'')
  from step(2) have "same_ptrs s' s''" by cases (auto dest: same_steps same_ioctl)
  with step.IH show ?case by (rule same_trans)
qed simp

section \<open>What the module owns\<close>

definition rb_own :: "hrp_config \<Rightarrow> HrperfRingBuffer \<Rightarrow> (kres \<times> nat) multiset" where
  "rb_own cfg rb = (if HRP_HEAP_ALLOCATED_RB cfg then mset_set (rb_res cfg rb) else {#})"

definition bufs_own :: "hrp_config \<Rightarrow> nat list \<Rightarrow> (nat \<Rightarrow> HrperfRingBuffer) \<Rightarrow> (kres \<times> nat) multiset" where
  "bufs_own cfg cpus bufs = sum_list (map (\<lambda>c. rb_own cfg (bufs c)) cpus)"

definition mbm_own :: "hrp_config \<Rightarrow> mbm_manager \<Rightarrow> (kres \<times> nat) multiset" where
  "mbm_own cfg g = (if HRP_USE_RDT cfg then (case table_ptr g of None \<Rightarrow> {#} | Some p \<Rightarrow> {#(KObj, p)#}) else {#})"

definition uncore_own :: "hrp_config \<Rightarrow> uncore_pmus \<Rightarrow> (kres \<times> nat) multiset" where
  "uncore_own cfg g = (if HRP_LOG_IMC cfg then uncore_res g else {#})"

definition loaded :: "hrp_config \<Rightarrow> bool \<Rightarrow> (kres \<times> nat) multiset \<Rightarrow> ('f, 'd) hrperf \<Rightarrow> bool" where
  "loaded cfg x R s \<longleftrightarrow>
     acct x (heap s) (R + mbm_own cfg (g_mbm_mgr s) + uncore_own cfg (g_uncore_pmus s) + bufs_own cfg (hrp_selected_cpus s) (per_cpu_buffer s)) \<and>
     distinct (hrp_selected_cpus s) \<and> (\<forall>c \<in> set (hrp_selected_cpus s). HRP_HEAP_ALLOCATED_RB cfg \<longrightarrow> pages_wf (per_cpu_buffer s c)) \<and>
     (HRP_LOG_IMC cfg \<longrightarrow> uncore_ok (g_uncore_pmus s) \<and> (x \<longrightarrow> no_gaps (g_uncore_pmus s)))"

lemma rb_own_cong: "buffer rb = buffer rb' \<Longrightarrow> pages rb = pages rb' \<Longrightarrow> rb_own cfg rb = rb_own cfg rb'"
  by (simp add: rb_own_def rb_res_def)

lemma loaded_same:
  assumes "same_ptrs s s'" and "loaded cfg x R s"
  shows "loaded cfg x R s'"
proof -
  have "bufs_own cfg cpus (per_cpu_buffer s') = bufs_own cfg cpus (per_cpu_buffer s)" for cpus
    using assms(1) by (auto simp: bufs_own_def same_ptrs_def intro!: arg_cong [where f = sum_list] map_cong rb_own_cong)
  moreover have "mbm_own cfg (g_mbm_mgr s') = mbm_own cfg (g_mbm_mgr s)" using assms(1) by (simp add: mbm_own_def same_ptrs_def)
  moreover have "pages_wf (per_cpu_buffer s' c) = pages_wf (per_cpu_buffer s c)" for c
    using assms(1) by (simp add: pages_wf_def same_ptrs_def split: option.split)
  ultimately show ?thesis using assms by (simp add: loaded_def same_ptrs_def)
qed

text \<open>Sets of objects that come and go at once.\<close>

lemma finite_rb_res: "finite (rb_res cfg rb)"
  by (simp add: rb_res_def split: option.split)

lemma acct_gain:
  assumes "acct x h R" and "heap_wf h'" and "live h' = live h \<union> S" and "live h \<inter> S = {}" and "alloc_ok h' = alloc_ok h"
  shows "acct x h' (R + mset_set S)"
proof -
  have "finite (live h)" "finite S" using assms(1,2,3) finite_live [of h] finite_live [of h'] by (auto simp: acct_def)
  then have "held h' = held h + mset_set S" using assms(3,4) by (simp add: held_def mset_set_Union)
  then show ?thesis using assms(1,2,5) by (auto simp: acct_def)
qed

lemma acct_loss:
  assumes "acct x h (R + mset_set S)" and "finite S"
  shows "S \<subseteq> live h" and "heap_wf h' \<Longrightarrow> live h' = live h - S \<Longrightarrow> alloc_ok h' = alloc_ok h \<Longrightarrow> acct x h' R"
proof -
  have fin: "finite (live h)" using assms(1) finite_live by (auto simp: acct_def)
  have "set_mset (mset_set S) \<subseteq> set_mset (held h)"
    using assms(1) set_mset_mono subset_mset.order_trans [OF mset_subset_eq_add_right] by (fastforce simp: acct_def)
  then show s: "S \<subseteq> live h" using fin assms(2) by (simp add: held_def)
  assume h': "heap_wf h'" "live h' = live h - S" "alloc_ok h' = alloc_ok h"
  have held: "held h' = held h - mset_set S" using h'(2) fin s by (simp add: held_def mset_set_Diff)
  obtain T where "held h = R + mset_set S + T" using assms(1) by (auto simp: acct_def mset_subset_eq_exists_conv)
  then have "held h' = R + T" using held by simp
  then show "acct x h' R" using assms(1) h'(1,3) held by (auto simp: acct_def)
qed

section \<open>Removing the module\<close>

text \<open>An operation that returns in \<open>Q\<close>, or does not return, but does not free wrongly.\<close>

definition post :: "'a may \<Rightarrow> ('a \<Rightarrow> bool) \<Rightarrow> bool" where
  "post m Q \<longleftrightarrow> no_free m \<and> (\<forall>y. m = Inr y \<longrightarrow> Q y)"

lemma post_Inr [simp]: "post (Inr y) Q = Q y"
  by (simp add: post_def)

lemma post_bind: "post m P \<Longrightarrow> (\<And>y. P y \<Longrightarrow> post (f y) Q) \<Longrightarrow> post (bindF m f) Q"
  by (cases m) (auto simp: post_def no_free_def)

lemma free_pages_alloc_ok: "foldF free_page ps h = Inr h' \<Longrightarrow> alloc_ok h' = alloc_ok h"
  by (induction ps arbitrary: h) (auto simp: bindF_eq_Inr free_page_def dest!: krelease_Inr(4) split: option.splits)

lemma free_alloc_pages_alloc_ok: "free_alloc_pages rb h = Inr (rb', h') \<Longrightarrow> alloc_ok h' = alloc_ok h"
  by (cases "buffer rb"; cases "pages rb")
    (auto simp: free_alloc_pages_def bindF_eq_Inr case_prod_beta dest!: krelease_Inr(4) free_pages_alloc_ok split: if_split_asm)

lemma deinit_alloc_ok: "deinit_ring_buffer cfg rb h = Inr (rb', h') \<Longrightarrow> alloc_ok h' = alloc_ok h"
  by (auto simp: deinit_ring_buffer_def bindF_eq_Inr dest!: krelease_Inr(4) free_alloc_pages_alloc_ok
      split: if_split_asm option.split_asm)

lemma deinit_acct:
  assumes "acct x h (R + rb_own cfg rb)" and "HRP_HEAP_ALLOCATED_RB cfg \<Longrightarrow> pages_wf rb"
  shows "\<exists>rb' h'. deinit_ring_buffer cfg rb h = Inr (rb', h') \<and> acct x h' R"
proof (cases "HRP_HEAP_ALLOCATED_RB cfg")
  case True
  then have a: "acct x h (R + mset_set (rb_res cfg rb))" using assms(1) by (simp add: rb_own_def)
  then obtain rb' h' where d: "deinit_ring_buffer cfg rb h = Inr (rb', h')" "heap_wf h'" "live h' = live h - rb_res cfg rb"
    using deinit_spec [OF True _ assms(2) acct_loss(1) [OF a finite_rb_res]] True by (auto simp: acct_def)
  then show ?thesis using acct_loss(2) [OF a finite_rb_res d(2,3) deinit_alloc_ok [OF d(1)]] by blast
next
  case False
  then show ?thesis using assms(1) by (simp add: deinit_ring_buffer_def rb_own_def)
qed

lemma deinit_cpus_acct:
  assumes "distinct cpus" and "acct x (heap s) (R + bufs_own cfg cpus (per_cpu_buffer s))"
    and "\<And>c. c \<in> set cpus \<Longrightarrow> HRP_HEAP_ALLOCATED_RB cfg \<Longrightarrow> pages_wf (per_cpu_buffer s c)"
  shows "\<exists>b h. foldF (deinit_cpu cfg) cpus s = Inr (s\<lparr>per_cpu_buffer := b, heap := h\<rparr>) \<and> acct x h R"
  using assms
proof (induction cpus arbitrary: s)
  case Nil
  then show ?case by (intro exI [of _ "per_cpu_buffer s"] exI [of _ "heap s"]) (simp add: bufs_own_def)
next
  case (Cons c cpus)
  have "acct x (heap s) ((R + bufs_own cfg cpus (per_cpu_buffer s)) + rb_own cfg (per_cpu_buffer s c))"
    using Cons.prems(2) by (simp add: bufs_own_def add_ac)
  from deinit_acct [OF this] obtain rb h where d: "deinit_ring_buffer cfg (per_cpu_buffer s c) (heap s) = Inr (rb, h)"
    "acct x h (R + bufs_own cfg cpus (per_cpu_buffer s))"
    using Cons.prems(3) by auto
  let ?s = "s\<lparr>per_cpu_buffer := (per_cpu_buffer s)(c := rb), heap := h\<rparr>"
  have c: "c \<notin> set cpus" using Cons.prems(1) by simp
  then have "bufs_own cfg cpus ((per_cpu_buffer s)(c := rb)) = bufs_own cfg cpus (per_cpu_buffer s)"
    by (auto simp: bufs_own_def intro!: arg_cong [where f = sum_list])
  then have a: "acct x (heap ?s) (R + bufs_own cfg cpus (per_cpu_buffer ?s))" using d(2) by simp
  have "pages_wf (per_cpu_buffer ?s d)" if "d \<in> set cpus" "HRP_HEAP_ALLOCATED_RB cfg" for d
    using Cons.prems(3) [of d] that c by auto
  with Cons.IH [OF _ a] obtain b h' where "foldF (deinit_cpu cfg) cpus ?s = Inr (?s\<lparr>per_cpu_buffer := b, heap := h'\<rparr>)" "acct x h' R"
    using Cons.prems(1) by (metis distinct.simps(2))
  moreover have "deinit_cpu cfg c s = Inr ?s" using d(1) by (simp add: deinit_cpu_def)
  ultimately show ?case by (intro exI [of _ b] exI [of _ h']) simp
qed

lemma release_slots_ptr:
  "foldF release_slot is (r, m) = Inr (r', m') \<Longrightarrow> map_option fst (rmid_table r') = map_option fst (rmid_table r)"
proof (induction "is" arbitrary: r m)
  case (Cons i "is")
  then obtain r1 m1 where one: "release_slot i (r, m) = Inr (r1, m1)" "foldF release_slot is (r1, m1) = Inr (r', m')"
    by (auto simp: bindF_eq_Inr)
  have "map_option fst (rmid_table r1) = map_option fst (rmid_table r)"
    using one(1) by (auto simp: release_slot_def bindF_eq_Inr dest!: table_put_ptr split: if_splits)
  then show ?case using Cons.IH [OF one(2)] by simp
qed simp

lemma mbm_deinit_acct:
  assumes "acct x h (R + mbm_own cfg g)" and "HRP_USE_RDT cfg"
  shows "post (mbm_deinit g m h) (\<lambda>(r, g', m', h'). acct x h' R)"
proof -
  have "post (mbm_rmid_deallocate_all g m) (\<lambda>(g', m'). table_ptr g' = table_ptr g)"
    unfolding post_def
    by (intro conjI allI impI no_free_deallocate) (auto simp: mbm_rmid_deallocate_all_def mbm_guard_enter_def mbm_guard_exit_def
        bindF_eq_Inr table_ptr_def dest!: release_slots_ptr split: if_splits)
  then have "post (mbm_rmid_deinit g m h) (\<lambda>(g', m', h'). acct x h' R)"
    unfolding mbm_rmid_deinit_def
  proof (rule post_bind)
    fix y
    assume y: "case y of (g', m') \<Rightarrow> table_ptr g' = table_ptr g"
    obtain g' m' where gm: "y = (g', m')" by (cases y)
    have a: "acct x h (R + (case table_ptr g' of None \<Rightarrow> {#} | Some p \<Rightarrow> {#(KObj, p)#}))"
      using assms y by (simp add: gm mbm_own_def)
    show "post (case y of (g, m) \<Rightarrow> case rmid_table (rmid_mgr g) of None \<Rightarrow> Inr (g, m, h)
        | Some (p, tab) \<Rightarrow> bindF (krelease KObj p h) (\<lambda>h. Inr (g\<lparr>rmid_mgr := (rmid_mgr g)\<lparr>rmid_table := None\<rparr>\<rparr>, m, h)))
      (\<lambda>(g', m', h'). acct x h' R)"
      using a acct_release [of x h R KObj] by (fastforce simp: gm table_ptr_def split: option.splits)
  qed
  then show ?thesis unfolding mbm_deinit_def by (rule post_bind) auto
qed

lemma post_stop:
  "post (if b then kthread_stop_poller cfg ke es s else Inr s) (same_ptrs s)" "post (if b then kthread_stop_logger cfg ke es s else Inr s) (same_ptrs s)"
  by (auto simp: post_def keeps dest: same_stop)

lemma uncore_part:
  assumes "acct x (heap s) (R + uncore_own cfg (g_uncore_pmus s))" and "HRP_LOG_IMC cfg \<Longrightarrow> uncore_ok (g_uncore_pmus s) \<and> (x \<longrightarrow> no_gaps (g_uncore_pmus s))"
  shows "post (if HRP_LOG_IMC cfg then bindF (destroy_g_uncore_pmus (g_uncore_pmus s) (heap s)) (\<lambda>(g, h).
      Inr (s\<lparr>g_uncore_pmus := g, heap := h\<rparr>)) else Inr s) (\<lambda>s'. acct x (heap s') R \<and> g_mbm_mgr s' = g_mbm_mgr s)"
proof (cases "HRP_LOG_IMC cfg")
  case True
  then obtain g' h' where "destroy_g_uncore_pmus (g_uncore_pmus s) (heap s) = Inr (g', h')" "acct x h' R"
    using uncore_destroy_acct assms by (fastforce simp: uncore_own_def)
  then show ?thesis using True by simp
qed (use assms(1) in \<open>simp add: uncore_own_def\<close>)

lemma mbm_part:
  assumes "acct x (heap s) (R + mbm_own cfg (g_mbm_mgr s))"
  shows "post (if HRP_USE_RDT cfg then bindF (mbm_deinit (g_mbm_mgr s) (mach s) (heap s)) (\<lambda>(r, g, m, h).
      Inr (s\<lparr>g_mbm_mgr := g, mach := m, heap := h\<rparr>)) else Inr s) (\<lambda>s'. acct x (heap s') R)"
proof (cases "HRP_USE_RDT cfg")
  case True
  show ?thesis unfolding if_P [OF True] by (rule post_bind [OF mbm_deinit_acct [OF assms True]]) auto
qed (use assms in \<open>simp add: mbm_own_def\<close>)

definition without_buffers :: "hrp_config \<Rightarrow> bool \<Rightarrow> (kres \<times> nat) multiset \<Rightarrow> ('f, 'd) hrperf \<Rightarrow> bool" where
  "without_buffers cfg x R s \<longleftrightarrow> acct x (heap s) (R + mbm_own cfg (g_mbm_mgr s) + uncore_own cfg (g_uncore_pmus s)) \<and>
     (HRP_LOG_IMC cfg \<longrightarrow> uncore_ok (g_uncore_pmus s) \<and> (x \<longrightarrow> no_gaps (g_uncore_pmus s)))"

lemma buffers_part:
  assumes "loaded cfg x R s"
  shows "post (foldF (deinit_cpu cfg) (hrp_selected_cpus s) s) (without_buffers cfg x R)"
proof -
  obtain b h where "foldF (deinit_cpu cfg) (hrp_selected_cpus s) s = Inr (s\<lparr>per_cpu_buffer := b, heap := h\<rparr>)"
    "acct x h (R + mbm_own cfg (g_mbm_mgr s) + uncore_own cfg (g_uncore_pmus s))"
    using deinit_cpus_acct [of "hrp_selected_cpus s" x s _ cfg] assms unfolding loaded_def by blast
  then show ?thesis using assms by (simp add: without_buffers_def loaded_def)
qed

lemma exit_acct:
  assumes "loaded cfg x R s"
  shows "post (hrp_pmc_exit cfg ke w s) (\<lambda>s'. acct x (heap s') R)"
  unfolding hrp_pmc_exit_def cleanup_def Let_def
proof (rule post_bind [OF post_stop(2)], rule post_bind [OF post_stop(1)], rule post_bind [where P = "without_buffers cfg x R"], goal_cases)
  case (1 s1 s2)
  then have "loaded cfg x R s2" using assms loaded_same by blast
  then show ?case by (intro buffers_part) (simp add: loaded_def)
next
  case (2 s1 s2 s3)
  show ?case
  proof (rule post_bind [OF uncore_part [where x = x and R = "R + mbm_own cfg (g_mbm_mgr s3)"]], goal_cases)
    case 1
    show ?case using 2(3) by (simp add: without_buffers_def)
  next
    case 2
    then show ?case using \<open>without_buffers cfg x R s3\<close> by (simp add: without_buffers_def)
  next
    case (3 s4)
    show ?case by (rule post_bind [OF mbm_part [where x = x and R = R]]) (use 3 in simp_all)
  qed
qed

section \<open>Loading the module\<close>

lemma fill_pages_alloc_ok: "fill_pages qs h = (ok, ps, h') \<Longrightarrow> alloc_ok h' = alloc_ok h"
proof (induction qs arbitrary: h ok ps)
  case (Cons q qs)
  then show ?case by (cases rule: kalloc_cases [of KPage h]) (auto simp: kalloc_def split: if_splits prod.splits)
qed simp

lemma init_alloc_ok:
  assumes "init_ring_buffer cfg rb h = Inr (r, rb', h')"
  shows "alloc_ok h' = alloc_ok h"
proof -
  have k: "alloc_ok h2 = alloc_ok h1" if "kalloc k h1 = (q, h2)" for k q h1 h2 using that by (auto simp: kalloc_def split: if_splits)
  have "alloc_ok h' = alloc_ok h" if "hrp_alloc_rb_buf cfg rb h = Inr (r, rb', h')" for rb
    using that unfolding hrp_alloc_rb_buf_def Let_def
    by (auto simp: bindF_eq_Inr dest!: k fill_pages_alloc_ok free_alloc_pages_alloc_ok
        split: if_split_asm prod.split_asm option.split_asm bool.split_asm)
  then show ?thesis using assms by (auto simp: init_ring_buffer_def Let_def split: if_splits)
qed

lemma init_buffer_acct:
  assumes "init_ring_buffer cfg rb h = Inr (Ok0, rb', h')" and "acct x h R" and "0 < HRP_PMC_BUFFER_SIZE cfg" and "pages rb = None"
  shows "acct x h' (R + rb_own cfg rb') \<and> (HRP_HEAP_ALLOCATED_RB cfg \<longrightarrow> pages_wf rb')"
proof (cases "HRP_HEAP_ALLOCATED_RB cfg")
  case True
  have "heap_wf h" using assms(2) by (simp add: acct_def)
  then have "init_post cfg h (Ok0, rb', h')" using init_ring_buffer_spec [OF _ assms(3) True assms(4), of h] assms(1) by auto
  then show ?thesis
    using True acct_gain [OF assms(2), of h' "rb_res cfg rb'"] init_alloc_ok [OF assms(1)] by (auto simp: init_post_def rb_own_def)
next
  case False
  then show ?thesis using assms(1,2) by (auto simp: init_ring_buffer_def rb_own_def)
qed

lemma init_buffers_acct:
  assumes "init_buffers cfg cpus s = Inr (Ok0, s')" and "acct x (heap s) R" and "0 < HRP_PMC_BUFFER_SIZE cfg"
    and "distinct cpus" and "\<And>c. c \<in> set cpus \<Longrightarrow> pages (per_cpu_buffer s c) = None"
  shows "\<exists>b h. s' = s\<lparr>per_cpu_buffer := b, heap := h\<rparr> \<and> acct x h (R + bufs_own cfg cpus b) \<and>
    (\<forall>c \<in> set cpus. HRP_HEAP_ALLOCATED_RB cfg \<longrightarrow> pages_wf (b c)) \<and> (\<forall>c. c \<notin> set cpus \<longrightarrow> b c = per_cpu_buffer s c)"
  using assms
proof (induction cpus arbitrary: s R)
  case Nil
  then show ?case by (intro exI [of _ "per_cpu_buffer s"] exI [of _ "heap s"]) (simp add: bufs_own_def)
next
  case (Cons c cpus)
  obtain r rb h where i: "init_ring_buffer cfg (per_cpu_buffer s c) (heap s) = Inr (r, rb, h)"
    using Cons.prems(1) by (auto simp: bindF_eq_Inr)
  let ?s = "s\<lparr>per_cpu_buffer := (per_cpu_buffer s)(c := rb), heap := h\<rparr>"
  have r: "r = Ok0" "init_buffers cfg cpus ?s = Inr (Ok0, s')" using Cons.prems(1) i by (auto simp: Let_def split: if_splits)
  have one: "acct x h (R + rb_own cfg rb)" "HRP_HEAP_ALLOCATED_RB cfg \<longrightarrow> pages_wf rb"
    using init_buffer_acct [OF i [unfolded r(1)] Cons.prems(2,3)] Cons.prems(5) by auto
  have "pages (per_cpu_buffer ?s d) = None" if "d \<in> set cpus" for d using Cons.prems(4,5) that by auto
  with Cons.IH [OF r(2), of "R + rb_own cfg rb"] one(1) obtain b h' where b: "s' = ?s\<lparr>per_cpu_buffer := b, heap := h'\<rparr>"
    "acct x h' (R + rb_own cfg rb + bufs_own cfg cpus b)" "\<forall>d \<in> set cpus. HRP_HEAP_ALLOCATED_RB cfg \<longrightarrow> pages_wf (b d)"
    "\<forall>d. d \<notin> set cpus \<longrightarrow> b d = per_cpu_buffer ?s d"
    using Cons.prems(3,4) by auto
  moreover have "b c = rb" using b(4) Cons.prems(4) by simp
  ultimately show ?case using one(2) by (intro exI [of _ b] exI [of _ h']) (auto simp: bufs_own_def add_ac)
qed

abbreviation tab_ptr :: "rmid_manager \<Rightarrow> nat option" where
  "tab_ptr r \<equiv> map_option fst (rmid_table r)"

lemma clear_slots_ptr: "foldF clear_slot is r = Inr r' \<Longrightarrow> tab_ptr r' = tab_ptr r"
proof (induction "is" arbitrary: r)
  case (Cons i "is")
  then obtain r1 where one: "clear_slot i r = Inr r1" "foldF clear_slot is r1 = Inr r'" by (auto simp: bindF_eq_Inr)
  have "tab_ptr r1 = tab_ptr r"
    using one(1) by (auto simp: clear_slot_def bindF_eq_Inr map_put_def dest!: table_put_ptr split: if_splits)
  then show ?case using Cons.IH [OF one(2)] by simp
qed simp

lemma assign_cores_ptr: "assign_cores mx cpus n r m = Inr (n', r', m') \<Longrightarrow> tab_ptr r' = tab_ptr r"
proof (induction cpus arbitrary: n r m)
  case (Cons c cpus)
  show ?case
  proof (cases "mx < n")
    case False
    then obtain e r1 r2 m2 where "table_put (unat n) e r = Inr r1" "map_put c (ucast n) r1 = Inr r2"
      "assign_cores mx cpus (n + 1) r2 m2 = Inr (n', r', m')"
      using Cons.prems by (auto simp: bindF_eq_Inr Let_def)
    then show ?thesis using Cons.IH by (auto simp: map_put_def dest!: table_put_ptr split: if_splits)
  qed (use Cons.prems in simp)
qed simp

lemma mbm_init_acct:
  assumes "mbm_init cpuid g m h = Inr (Ok0, g', m', h')" and "acct x h R"
  shows "acct x h' (R + (case table_ptr g' of None \<Rightarrow> {#} | Some p \<Rightarrow> {#(KObj, p)#}))"
proof -
  obtain ret where i: "mbm_rmid_init (mbm_init_cap cpuid g) m h = Inr (ret, g', m', h')"
    using assms(1) by (auto simp: mbm_init_def bindF_eq_Inr split: if_splits)
  obtain q h1 where k: "kalloc KObj h = (q, h1)" by fastforce
  show ?thesis
  proof (cases q)
    case None
    then show ?thesis
      using i k acct_no_alloc [OF assms(2), of KObj h1] by (auto simp: mbm_rmid_init_def Let_def table_ptr_def zero_rmid_manager_def)
  next
    case (Some p)
    let ?g = "(mbm_init_cap cpuid g)\<lparr>rmid_mgr := zero_rmid_manager\<lparr>rmid_table := Some (p, replicate MAX_CORES zero_rmid_info)\<rparr>\<rparr>"
    obtain r1 g1 m1 r2 where a: "mbm_rmid_clear_assoc ?g m = Inr (r1, g1, m1)" "mbm_rmid_allocate_all_cores g1 m1 = Inr (r2, g', m')" "h' = h1"
      using i k Some by (auto simp: mbm_rmid_init_def Let_def bindF_eq_Inr)
    have "table_ptr g1 = Some p"
      using a(1) by (auto simp: mbm_rmid_clear_assoc_def mbm_guard_enter_def mbm_guard_exit_def table_ptr_def zero_rmid_manager_def Let_def)
    moreover have "table_ptr g' = table_ptr g1"
      using a(2) by (auto simp: mbm_rmid_allocate_all_cores_def mbm_guard_enter_def mbm_guard_exit_def table_ptr_def bindF_eq_Inr
          dest!: clear_slots_ptr assign_cores_ptr split: if_splits)
    ultimately show ?thesis using acct_alloc [OF assms(2), of KObj p h1] k Some a(3) by simp
  qed
qed

lemma init_loaded:
  assumes "hrp_pmc_init cfg ke ie s0 = Inr (Ok0, s1)" and "acct x (heap s0) R" and "0 < HRP_PMC_BUFFER_SIZE cfg"
    and "\<forall>c. pages (per_cpu_buffer s0 c) = None"
    and "x \<Longrightarrow> HRP_LOG_IMC cfg \<Longrightarrow> distinct (tables (i_pci ie)) \<and> no_gaps (g_uncore_pmus s1)"
  shows "loaded cfg x R s1"
proof -
  obtain t1 t2 t3 t4 t5 t6 t7 t8 t9 where st: "init_mbm cfg ie s0 = Inr (Ok0, t1)" "init_tsc cfg ie t1 = Inr (Ok0, t2)"
    "init_device ie t2 = Inr (Ok0, t3)" "init_cpus cfg ie t3 = Inr (Ok0, t4)" "init_buffers cfg (hrp_selected_cpus t4) t4 = Inr (Ok0, t5)"
    "init_counters cfg ke ie t5 = Inr (Ok0, t6)" "init_poller cfg ie t6 = Inr (Ok0, t7)" "init_log cfg ie t7 = Inr (Ok0, t8)"
    "init_logger cfg ie t8 = Inr (Ok0, t9)" "init_wq ie t9 = Inr (Ok0, s1)"
    using assms(1) unfolding hrp_pmc_init_def andThen_Ok by blast
  have 1: "acct x (heap t1) (R + mbm_own cfg (g_mbm_mgr t1))" "per_cpu_buffer t1 = per_cpu_buffer s0"
    using st(1) assms(2) by (auto simp: init_mbm_def bindF_eq_Inr mbm_own_def dest!: mbm_init_acct split: if_splits)
  have 4: "heap t4 = heap t1" "g_mbm_mgr t4 = g_mbm_mgr t1" "per_cpu_buffer t4 = per_cpu_buffer s0" "distinct (hrp_selected_cpus t4)"
    using st(2,3,4) 1(2) by (auto simp: init_tsc_def init_device_def init_cpus_def Let_def split: if_splits option.splits prod.splits)
  obtain b h where 5: "t5 = t4\<lparr>per_cpu_buffer := b, heap := h\<rparr>"
    "acct x h (R + mbm_own cfg (g_mbm_mgr t1) + bufs_own cfg (hrp_selected_cpus t4) b)"
    "\<forall>c \<in> set (hrp_selected_cpus t4). HRP_HEAP_ALLOCATED_RB cfg \<longrightarrow> pages_wf (b c)"
    using init_buffers_acct [OF st(5) _ assms(3) 4(4), of x "R + mbm_own cfg (g_mbm_mgr t1)"] 1(1) 4(1,3) assms(4) by auto
  have 7: "heap s1 = heap t6" "g_mbm_mgr s1 = g_mbm_mgr t6" "g_uncore_pmus s1 = g_uncore_pmus t6" "per_cpu_buffer s1 = per_cpu_buffer t6"
    "hrp_selected_cpus s1 = hrp_selected_cpus t6"
    using st(7-10) by (auto simp: init_poller_def init_log_def init_logger_def init_wq_def split: if_splits option.splits)
  have 6: "g_mbm_mgr t6 = g_mbm_mgr t1" "per_cpu_buffer t6 = b" "hrp_selected_cpus t6 = hrp_selected_cpus t4"
    "acct x (heap t6) (R + mbm_own cfg (g_mbm_mgr t1) + bufs_own cfg (hrp_selected_cpus t4) b + uncore_own cfg (g_uncore_pmus t6))"
    "HRP_LOG_IMC cfg \<longrightarrow> uncore_ok (g_uncore_pmus t6)"
    using st(6) 5(1,2) 4(2) assms(5)
    by (auto simp: init_counters_def Let_def bindF_eq_Inr uncore_own_def dest!: uncore_init_acct split: if_split_asm)
  show ?thesis using 4(4) 5(3) 6 assms(5) unfolding loaded_def 7 by (simp add: add_ac)
qed

section \<open>The whole life\<close>

text \<open>
  C11. Memory over the life of the module, in every configuration: after a successful initialisation
  and any run of the threads, commands and hardware, the run has allocated and released nothing;
  whatever the threads do while the removal waits for them,
  removing the module never frees an object twice or one that is not live, and once it is removed,
  everything that was on the heap before loading is still there. If no allocation failed and, with
  the IMC counters, every socket has one discovery table and the PMUs have no gaps, nothing that the
  module allocated is left.
\<close>

theorem module_memory:
  assumes "0 < HRP_PMC_BUFFER_SIZE cfg" and "heap_wf (heap s0)" and "\<forall>c. pages (per_cpu_buffer s0 c) = None"
    and "hrp_pmc_init cfg ke ie s0 = Inr (Ok0, s1)" and "sys_run cfg ke s1 es s2"
  shows "heap s2 = heap s1 \<and> hrp_pmc_exit cfg ke w s2 \<noteq> Inl BadFree \<and>
    (\<forall>s3. hrp_pmc_exit cfg ke w s2 = Inr s3 \<longrightarrow> live (heap s0) \<subseteq> live (heap s3) \<and>
       ((\<forall>k. alloc_ok (heap s0) k) \<and> (HRP_LOG_IMC cfg \<longrightarrow> distinct (tables (i_pci ie)) \<and> no_gaps (g_uncore_pmus s1)) \<longrightarrow>
        live (heap s3) = live (heap s0)))"
proof -
  define x where "x \<longleftrightarrow> (\<forall>k. alloc_ok (heap s0) k) \<and> (HRP_LOG_IMC cfg \<longrightarrow> distinct (tables (i_pci ie)) \<and> no_gaps (g_uncore_pmus s1))"
  have same: "same_ptrs s1 s2" using same_sys_run [OF assms(5)] .
  have "acct x (heap s0) (held (heap s0))" using acct_weaken [OF acct_start [OF assms(2)], of x] by (simp add: x_def)
  from init_loaded [OF assms(4) this assms(1,3)] have "loaded cfg x (held (heap s0)) s1" by (simp add: x_def)
  from exit_acct [OF loaded_same [OF same this], of ke w] have
    "no_free (hrp_pmc_exit cfg ke w s2)" "\<And>s3. hrp_pmc_exit cfg ke w s2 = Inr s3 \<Longrightarrow> acct x (heap s3) (held (heap s0))"
    by (auto simp: post_def)
  then show ?thesis using same acct_live [OF _ assms(2)] by (auto simp: same_ptrs_def no_free_def simp flip: x_def)
qed

text \<open>Loading on three CPUs with an empty heap and removing the module at once.\<close>

theorem module_memory_witness:
  "\<exists>s1 s3. hrp_pmc_init cfg4 ke3 init3 (st0 False heap0) = Inr (Ok0, s1) \<and> hrp_pmc_exit cfg4 ke3 wait3 s1 = Inr s3 \<and>
     live (heap s3) = {}"
proof -
  obtain s1 where i: "hrp_pmc_init cfg4 ke3 init3 (st0 False heap0) = Inr (Ok0, s1)" using st0_init by blast
  obtain s3 where e: "hrp_pmc_exit cfg4 ke3 wait3 s1 = Inr s3" using st0_exit [OF i] by blast
  have "\<forall>k. alloc_ok (heap (st0 False heap0)) k" "\<not> HRP_LOG_IMC cfg4"
    using cfg4_simps(1) by (simp_all add: st0_def heap0_def plain_def)
  with module_memory [OF st0_pre(6,1) _ i sys_run.start, of wait3] st0_pre(2,7) e have "live (heap s3) = {}" by auto
  then show ?thesis using i e by blast
qed

end
