(* ===== verification/Spec2Isabelle.thy ===== *)
theory Spec2Isabelle
  imports Hardware_Tests Net_Loads Load_Client Bpf_IO Concurrent Module_Life
begin

text \<open>
  Verification of hiresperf, a kernel module that samples performance counters on many CPUs at
  microsecond intervals and writes the samples to a log file.

  \<^bold>\<open>The program.\<close> A poller thread (\<open>hrperf_poller_thread\<close> in \<open>src/src/hrperf.c\<close>) interrupts the
  selected CPUs; on each of them \<open>hrperf_poller_func\<close> reads the counters and enqueues an entry into
  the ring buffer of that CPU. A logger thread (\<open>hrperf_logger_thread\<close>) drains the ring buffers
  into the file. User processes start, pause and instruct the module through \<open>ioctl\<close> on a
  character device. Optional parts are bandwidth monitoring by RMID (\<open>src/src/mbm\<close>), the counters of
  the memory controllers, found through PCI discovery tables and accessed by memory-mapped I/O
  (\<open>src/src/uncore_pmu*.c\<close>, \<open>src/src/mmio.c\<close>), and a separate BPF program that records network
  calls (\<open>src/src/io\<close>).

  \<^bold>\<open>The theories\<close>, in the order they import each other, with the sources they model:

  \<^item> \<open>Prelude\<close>: C integers, errno and fault results with their sequencing (\<open>bindF\<close>, \<open>foldF\<close>),
    little-endian bytes, bit fields, the collections \<open>fault_simps\<close> and \<open>layout_simps\<close>.
  \<^item> \<open>Config\<close> (\<open>config.h\<close>): every configuration macro as a field of a record, so that each \<open>#if\<close>
    is a branch of the model; the commands of the device.
  \<^item> \<open>Kernel\<close>: registers per CPU, cross-CPU calls, pages and the allocators. The heap records what is
    live, so a leak, a double free or a free through the wrong interface shows.
  \<^item> \<open>Intel_Pmc\<close> (\<open>intel_pmc.h\<close>, \<open>intel_msr.h\<close>, \<open>hrperf_pmc_enable_and_esel\<close>): event selections.
  \<^item> \<open>Ring_Buffer\<close> (\<open>buffer.c\<close>, \<open>buffer.h\<close>): allocation, \<open>enqueue\<close>, teardown. The locale
    \<open>bounded_fifo\<close> is the contract of a bounded queue; the ring buffer interprets it.
  \<^item> \<open>Log_File\<close> (\<open>log.c\<close>): \<open>log_and_clear\<close>, the layout of an entry and its decoding. The locale
    \<open>drained_fifo\<close> extends the contract by a drain.
  \<^item> \<open>Spsc\<close>: \<open>enqueue\<close> and \<open>log_and_clear\<close> again, as single accesses to the shared structure that
    interleave freely; \<open>kernel_write\<close> is a parameter that may fail at every call.
  \<^item> \<open>Mbm\<close> (\<open>mbm/*.c\<close>, \<open>include/mbm/*.h\<close>), \<open>Mmio\<close> (\<open>mmio.c\<close>, \<open>mmio.h\<close>, \<open>cpucounters.*\<close>),
    \<open>Discovery\<close> (\<open>pci.h\<close>, \<open>uncore_pmu_discovery.*\<close>), \<open>Uncore_Pmu\<close> (\<open>uncore_pmu.*\<close>, \<open>types.h\<close>; locale
    \<open>bus_register\<close> for what a register operation does to the bus), \<open>Tsc\<close> (\<open>tsc.h\<close>).
  \<^item> \<open>Poller\<close>, \<open>Threads\<close>, \<open>Hrperf\<close> (\<open>hrperf.c\<close>): the state of the module as the record \<open>hrperf\<close>;
    polling, log passes and instructed operations; the loops of the two threads as steps over their
    control points, with the window before \<open>schedule\<close>; \<open>kthread_stop\<close> with an arbitrary schedule of the
    threads while it waits; commands, with replies that may be copied in part, initialisation and cleanup.
  \<^item> \<open>Uncore_Life\<close>: ownership of kernel objects in the uncore part, counted with multisets. The locales
    \<open>owner\<close> and \<open>made_owner\<close> say what destroying and making an owner do to the heap; ranges,
    registers, PMUs, lists and the discovery structure interpret them.
  \<^item> \<open>System\<close>: the threads, the commands and the hardware interleaved.
  \<^item> \<open>Module_Life\<close>: everything the module allocates, from loading it through any run to removing it,
    in every configuration; the operations in between are framed by the pointers they keep (\<open>same_ptrs\<close>).
  \<^item> \<open>Concurrent\<close>: \<open>Spsc\<close> for all CPUs at once, with the logger going from buffer to buffer; it interprets
    the locale \<open>simulation\<close> of \<open>Prelude\<close> with an atomic queue per CPU.
  \<^item> \<open>User_Api\<close> (\<open>workloads/hrperf_api.h\<close>, \<open>workloads/hrperf_control.h\<close> and the tools): the wrappers
    as system calls on a table of descriptors (locale \<open>descriptor_table\<close>) on top of the command handler.
  \<^item> \<open>Workloads\<close> (\<open>workloads/utmem.c\<close>, \<open>utrmem.c\<close>, \<open>mbw1.c\<close>, \<open>mbw2.c\<close>, \<open>mixed.c\<close>, \<open>cpu1.c\<close>): the programs that are
    profiled, beside the running module; \<open>quiet_run\<close> is what the module does while no command arrives.
  \<^item> \<open>Net_Loads\<close> (\<open>workloads/utnet.c\<close>, \<open>workloads/ut_net_unix.c\<close>): sender and receiver; both programs interpret the
    locale \<open>simulation\<close> with an abstract pipe. \<open>Hardware_Tests\<close> (\<open>src/hardware\<close>): the measuring programs.
  \<^item> \<open>Load_Client\<close> (\<open>src/apps/lcclient/uniform.cc\<close>): the client that loads a search server.
  \<^item> \<open>Bpf_IO\<close> (\<open>src/src/io\<close>): probes, event record, memory-mapped log, start, poll and stop.

  \<^bold>\<open>What the theorems show.\<close> Samples: enqueueing refines a bounded queue, draining hands exactly the
  buffered entries to \<open>kernel_write\<close>, both also under every interleaving of their memory accesses; a write
  that fails loses what it was given, which the theorems count as handed over; and, where writes append, over whole runs
  of the module each CPU's entries reach the file in order, the only loss being new entries that do
  not fit; the bytes decode to the entries. Faults: no reachable state of the plain configuration
  faults; discovery never indexes out of range whatever the device reports and however it changes between
  two reads; memory-mapped accesses are performed exactly inside their mapping, up to one wrap-around. Resources: initialisation is all or nothing per
  buffer, loading, running and removing the module gives back all memory (in every configuration),
  the device and the threads (in the plain one) whenever removing it returns, and waits forever exactly when a
  thread is stopped in its window; the teardown of the uncore part is safe after
  every outcome of its initialisation.
  Control: every command either has its effect or is refused with its errno and replies with as
  many bytes as it declares; a log pass ends, also while the poller keeps on filling the buffers; the threads stop, sleep and wake up except in the
  windows that the theorems describe. Programs: the profile of a load generator is that of its work
  and at most one poll more; receivers end exactly with all data; a response finds its request.
  Where the code does not do what it means to, a theorem states what it does instead (a lost wake-up, a stop that waits forever,
  a device left registered, a CPU that is not programmed, an RMID out of range, NULL dereferences, a BPF
  program that cannot stop, a start barrier that can deadlock, monitoring left on).

  \<^bold>\<open>Conventions.\<close> A C function that may dereference NULL, index out of range, free wrongly or wait for a
  lock it holds returns in the type \<open>may\<close>; the left side is the fault. Error returns are values
  (\<open>ret\<close>, \<open>option\<close>). Loops are folds over the index range or recursion, and there is no fuel.
  \<open>kthread_stop_poller\<close> and \<open>kthread_stop_logger\<close> take the schedule that runs while they wait, of any length,
  and return if the thread has exited at its end: the theorems say after how many moves of the thread it
  has, and from which states it has not after any schedule. Poll and log passes are atomic in \<open>System\<close>; that \<open>enqueue\<close> and
  \<open>log_and_clear\<close> overlap, on one buffer and on all of them, is the subject of \<open>Spsc\<close> and \<open>Concurrent\<close>.

  \<^bold>\<open>Parameters.\<close> What is not in the sources is an argument: \<open>kernel_write\<close> (hypothesis \<open>appends\<close>: a
  file opened for appending takes what is written), the bus behind memory-mapped registers and how the device
  changes its memory by itself (\<open>drift\<close>), how much of a reply \<open>copy_to_user\<close> gets across, the
  answers of CPUID, PCI devices and clocks, whether allocations, registrations and thread creations
  succeed, what \<open>libbpf\<close> returns, and what memory holds that the code leaves uninitialised. The
  witnesses instantiate each of them.

  \<^bold>\<open>Not modelled.\<close> \<open>__time_calibrate_tsc\<close> (unused, floating point), the text of messages,
  \<open>pci_cfg_address_snprint\<close>, the commented-out block I/O probes; the floating-point parts of the
  programs that are profiled (arrival times, pacing, percentiles, reported seconds); the other
  applications under \<open>src/apps\<close>, which are third-party programs that keep the machine busy; \<open>src/drafts\<close>,
  superseded by the sources above; the Python scripts that plot the log. Spurious wake-ups of the condition
  variable in \<open>Load_Client\<close> and, in \<open>Workloads\<close>, a \<open>pthread_join\<close> that fails before its thread has ended
  are left out as well.
\<close>

section \<open>From loading the module to reading its log\<close>

lemma kept_ok_from_empty:
  assumes "kept_ok n [] polls out new"
  shows "subseq out polls \<and> (length polls \<le> n \<longrightarrow> prefix out polls)"
proof -
  obtain kept where k: "kept = out @ new" "subseq kept polls" "length polls \<le> n \<longrightarrow> kept = polls"
    using assms by (auto simp: kept_ok_def)
  have "subseq out kept" using k(1) by (simp add: prefix_imp_subseq)
  then have "subseq out polls" using k(2) by (rule subseq_order.trans)
  then show ?thesis using k(1,3) by (auto intro: prefixI)
qed

text \<open>
  C1. The log of a loaded module can be trusted: after a successful initialisation and any run of the
  threads, commands and hardware, what was added to the file decodes to whole entries, and for every
  selected CPU these are entries that were polled there since, in the same order and without
  repetition. If no more were polled than fit the buffer, they are exactly the first ones polled.
\<close>

theorem loaded_module_log:
  assumes "plain cfg" and "HRP_HEAP_ALLOCATED_RB cfg" and "0 < HRP_PMC_BUFFER_SIZE cfg" and "appends (e_write ke) contents"
    and "heap_wf (heap s0)" and "\<forall>c. pages (per_cpu_buffer s0 c) = None" and "\<not> instructed_profile_lock s0"
    and "HRP_POLL_POLLER_CORE cfg \<longrightarrow> HRP_PMC_POLLER_CPU cfg \<in> set (selected_cpus cfg) \<and> HRP_PMC_POLLER_CPU cfg < i_mask_bits ie"
    and "i_filp ie = Inr f" and "hrp_pmc_init cfg ke ie s0 = Inr (Ok0, s1)" and "sys_run cfg ke s1 es s2"
  shows "\<exists>f' added log. log_file s2 = Some f' \<and> contents f' = contents f @ added \<and>
    decode_log cfg added = map (logged_fields cfg) log \<and>
    (\<forall>c \<in> set (hrp_selected_cpus s1). subseq (mine c log) (mine c es) \<and>
       (length (mine c es) \<le> rb_cap cfg \<longrightarrow> prefix (mine c log) (mine c es)))"
proof -
  have b: "booted cfg ie s0 s1" using init_booted [OF assms(1-3,5) _ assms(10)] assms(6) by simp
  then have e: "log_file s1 = Some f" "\<forall>c \<in> set (hrp_selected_cpus s1). rb_list (per_cpu_buffer s1 c) = []"
    using assms(9) by (auto simp: booted_def hrperf_init_log_file_def)
  have "sys_ok cfg s1" using booted_ok [OF b assms(7,9)] b assms(8) by (auto simp: booted_def)
  then have "accounts cfg contents s1 es s2" using sys_run_good [OF assms(1,4,11)] by (simp add: good_step_def)
  then obtain f' log where a: "log_file s2 = Some f'" "contents f' = contents f @ concat (map (entry_bytes cfg) log)"
    "\<And>c. c \<in> set (hrp_selected_cpus s1) \<Longrightarrow> kept_ok (rb_cap cfg) [] (mine c es) (mine c log) (rb_list (per_cpu_buffer s2 c))"
    using e unfolding accounts_def by auto
  show ?thesis using a(1,2) kept_ok_from_empty [OF a(3)] decode_log_bytes by blast
qed

theorem loaded_module_log_witness:
  "\<exists>s1 s2 f' log. hrp_pmc_init cfg4 ke3 init3 (st0 True heap0) = Inr (Ok0, s1) \<and>
     sys_run cfg4 ke3 s1 (polled cfg4 pe3 s1) s2 \<and> log_file s2 = Some f' \<and>
     decode_log cfg4 f' = map (logged_fields cfg4) log \<and> subseq (mine 2 log) (mine 2 (polled cfg4 pe3 s1))"
proof -
  obtain s1 where i: "hrp_pmc_init cfg4 ke3 init3 (st0 True heap0) = Inr (Ok0, s1)" using st0_init by blast
  have pre: "heap_wf (heap (st0 True heap0))" "\<forall>c. pages (per_cpu_buffer (st0 True heap0) c) = None"
    "\<not> instructed_profile_lock (st0 True heap0)"
    "HRP_POLL_POLLER_CORE cfg4 \<longrightarrow> HRP_PMC_POLLER_CPU cfg4 \<in> set (selected_cpus cfg4) \<and> HRP_PMC_POLLER_CPU cfg4 < i_mask_bits init3"
    "i_filp init3 = Inr []" "0 < HRP_PMC_BUFFER_SIZE cfg4" "instructed_profile (st0 True heap0)"
    by (simp_all add: st0_def st3_def heap0_def heap_wf_def static_rb_def init3_def cfg4_simps)
  have b: "booted cfg4 init3 (st0 True heap0) s1" using init_booted [OF cfg4_simps(1,4) pre(6,1) _ i] pre(2) by simp
  have sel: "2 \<in> set (hrp_selected_cpus s1)" using b selected3 by (simp add: booted_def init3_def)
  have "sys_ok cfg4 s1" using booted_ok [OF b pre(3,5)] by (simp add: cfg4_simps)
  moreover have "instructed_profile s1" "instructed_profile_wq s1" using b pre(7) by (auto simp: booted_def)
  ultimately obtain s2 where r: "sys_run cfg4 ke3 s1 (polled cfg4 pe3 s1) s2"
    using instructed_run [OF cfg4_simps(1) ke3_appends, of s1 ie3] by (auto simp: ie3_def)
  show ?thesis
    using loaded_module_log [OF cfg4_simps(1,4) pre(6) ke3_appends pre(1-5) i r] i r sel by fastforce
qed

end
